(* ===== verification/Tachyon_Prelude.thy ===== *)
theory Tachyon_Prelude
  imports Main "HOL-Library.Word" "HOL-Library.Monad_Syntax" "HOL-Library.AList"
begin

text \<open>
  Shared vocabulary of the development: the machine integers of the Rust source, byte
  buffers, and the panicking slice operations of Rust.

  A Rust function that may panic returns an \<^typ>\<open>'a option\<close> here: \<open>None\<close> is the panic
  (an index or a range out of bounds, a \<open>copy_from_slice\<close> between slices of different
  lengths, an \<open>unwrap\<close> of an error, an underflow of a \<open>usize\<close> subtraction), \<open>Some r\<close> the
  normal return. Errors that the code returns as values are values of the model as well
  and never \<open>None\<close>.

  Fixed-width integers are words, so that \<open>+\<close> wraps as in a release build; \<open>usize\<close>
  lengths and offsets are \<^typ>\<open>nat\<close>, with every subtraction checked.
\<close>

unbundle bit_operations_syntax

type_synonym u8 = "8 word"
type_synonym u16 = "16 word"
type_synonym u32 = "32 word"
type_synonym u64 = "64 word"
type_synonym bytes = "8 word list"

named_theorems no_panic \<open>facts that an operation returns, i.e. does not panic\<close>
named_theorems frame_simps \<open>what an operation leaves unchanged\<close>

text \<open>Offsets stay sums of numerals: \<open>i + 2\<close> is not rewritten to \<open>Suc (Suc i)\<close>.\<close>

declare add_2_eq_Suc [simp del] add_2_eq_Suc' [simp del]

subsection \<open>Rust slices\<close>

text \<open>\<open>xs[i]\<close> as a value, and \<open>xs[i] = v\<close> as an update.\<close>

definition read_at :: "'a list \<Rightarrow> nat \<Rightarrow> 'a option" where
  "read_at xs i = (if i < length xs then Some (xs ! i) else None)"

definition write_at :: "'a list \<Rightarrow> nat \<Rightarrow> 'a \<Rightarrow> 'a list option" where
  "write_at xs i v = (if i < length xs then Some (xs[i := v]) else None)"

text \<open>\<open>&xs[a..b]\<close>: panics unless \<open>a \<le> b \<le> xs.len()\<close>.\<close>

definition slice :: "'a list \<Rightarrow> nat \<Rightarrow> nat \<Rightarrow> 'a list option" where
  "slice xs a b = (if a \<le> b \<and> b \<le> length xs then Some (take (b - a) (drop a xs)) else None)"

text \<open>\<open>dst[a..b].copy_from_slice(src)\<close>: panics on a bad range or when the lengths differ.\<close>

definition overwrite :: "'a list \<Rightarrow> nat \<Rightarrow> 'a list \<Rightarrow> 'a list" where
  "overwrite dst a src = take a dst @ src @ drop (a + length src) dst"

definition copy_into :: "'a list \<Rightarrow> nat \<Rightarrow> nat \<Rightarrow> 'a list \<Rightarrow> 'a list option" where
  "copy_into dst a b src =
     (if a \<le> b \<and> b \<le> length dst \<and> b - a = length src
      then Some (overwrite dst a src) else None)"

text \<open>A checked \<open>usize\<close> subtraction.\<close>

definition usize_sub :: "nat \<Rightarrow> nat \<Rightarrow> nat option" where
  "usize_sub a b = (if b \<le> a then Some (a - b) else None)"

lemma read_at_Some [simp, no_panic]: "i < length xs \<Longrightarrow> read_at xs i = Some (xs ! i)"
  by (simp add: read_at_def)

lemma write_at_Some [simp, no_panic]: "i < length xs \<Longrightarrow> write_at xs i v = Some (xs[i := v])"
  by (simp add: write_at_def)

lemma read_at_None [simp]: "length xs \<le> i \<Longrightarrow> read_at xs i = None"
  by (simp add: read_at_def)

lemma write_at_None [simp]: "length xs \<le> i \<Longrightarrow> write_at xs i v = None"
  by (simp add: write_at_def)

lemma write_at_eq_Some_iff: "write_at xs i v = Some ys \<longleftrightarrow> i < length xs \<and> ys = xs[i := v]"
  by (auto simp: write_at_def)

lemma slice_Some [simp, no_panic]:
  "a \<le> b \<Longrightarrow> b \<le> length xs \<Longrightarrow> slice xs a b = Some (take (b - a) (drop a xs))"
  by (simp add: slice_def)

lemma slice_eq_Some_iff:
  "slice xs a b = Some ys \<longleftrightarrow> a \<le> b \<and> b \<le> length xs \<and> ys = take (b - a) (drop a xs)"
  by (auto simp: slice_def)

lemma slice_length: "slice xs a b = Some ys \<Longrightarrow> length ys = b - a"
  by (auto simp: slice_eq_Some_iff)

lemma copy_into_Some [simp, no_panic]:
  "a \<le> b \<Longrightarrow> b \<le> length dst \<Longrightarrow> length src = b - a
   \<Longrightarrow> copy_into dst a b src = Some (overwrite dst a src)"
  by (simp add: copy_into_def)

lemma copy_into_eq_Some_iff:
  "copy_into dst a b src = Some ys \<longleftrightarrow>
     a \<le> b \<and> b \<le> length dst \<and> length src = b - a \<and> ys = overwrite dst a src"
  by (auto simp: copy_into_def)

lemma length_overwrite [simp]:
  "a + length src \<le> length dst \<Longrightarrow> length (overwrite dst a src) = length dst"
  by (simp add: overwrite_def)

lemma overwrite_Nil [simp]: "overwrite dst a [] = dst"
  by (simp add: overwrite_def)

lemma overwrite_append:
  "a + length xs \<le> length dst
   \<Longrightarrow> overwrite (overwrite dst a xs) (a + length xs) ys = overwrite dst a (xs @ ys)"
  by (simp add: overwrite_def add.commute add.left_commute)

lemma overwrite_join [simp]:
  "j = a + length xs \<Longrightarrow> a + length xs \<le> length dst
   \<Longrightarrow> overwrite (overwrite dst a xs) j ys = overwrite dst a (xs @ ys)"
  by (simp add: overwrite_append)

lemma overwrite_single: "i < length dst \<Longrightarrow> overwrite dst i [v] = dst[i := v]"
  by (simp add: overwrite_def upd_conv_take_nth_drop)

lemma take_overwrite [simp]: "n \<le> a \<Longrightarrow> a \<le> length dst \<Longrightarrow> take n (overwrite dst a src) = take n dst"
  by (simp add: overwrite_def min_absorb1)

lemma drop_overwrite [simp]:
  "a + length src \<le> n \<Longrightarrow> a \<le> length dst \<Longrightarrow> drop n (overwrite dst a src) = drop n dst"
  by (simp add: overwrite_def drop_take)

lemma take_drop_overwrite [simp]:
  "a \<le> length dst \<Longrightarrow> n = length src \<Longrightarrow> take n (drop a (overwrite dst a src)) = src"
  by (simp add: overwrite_def)

lemma nth_overwrite:
  "a + length src \<le> length dst \<Longrightarrow> i < length dst \<Longrightarrow>
   overwrite dst a src ! i = (if a \<le> i \<and> i < a + length src then src ! (i - a) else dst ! i)"
  by (auto simp: overwrite_def nth_append min_absorb2)

lemma nth_of_slice:
  "take w (drop i d) = xs \<Longrightarrow> i + w \<le> length d \<Longrightarrow> k < w \<Longrightarrow> d ! (i + k) = xs ! k"
  by auto

lemma usize_sub_Some [simp, no_panic]: "b \<le> a \<Longrightarrow> usize_sub a b = Some (a - b)"
  by (simp add: usize_sub_def)

lemma usize_sub_None [simp]: "a < b \<Longrightarrow> usize_sub a b = None"
  by (simp add: usize_sub_def)

lemma bind_Some_iff: "Option.bind x f = Some y \<longleftrightarrow> (\<exists>z. x = Some z \<and> f z = Some y)"
  by (cases x) auto

lemma bind_SomeE:
  assumes "Option.bind x f = Some y"
  obtains z where "x = Some z" "f z = Some y"
  using assms by (cases x) auto

lemma case_prod_SomeE:
  assumes "(case x of (a, b) \<Rightarrow> f a b) = Some y"
  obtains a b where "x = (a, b)" "f a b = Some y"
  using assms by (cases x) auto

subsection \<open>Arithmetic of a wrapping counter\<close>

lemma mod_add_below:
  fixes i d m :: nat
  assumes "d < m"
  shows "(i + d) mod m = (if i mod m + d < m then i mod m + d else i mod m + d - m)"
proof -
  have "i mod m < m" using assms by simp
  then have "i mod m + d < m + m" using assms by linarith
  moreover have "(i + d) mod m = (i mod m + d) mod m" by (simp add: mod_add_left_eq)
  ultimately show ?thesis
    by (cases "i mod m + d < m") (simp_all add: le_mod_geq)
qed

lemma mod_add_neq:
  fixes i d m :: nat
  assumes "0 < d" "d < m"
  shows "(i + d) mod m \<noteq> i mod m"
proof -
  have "i mod m < m" using assms by simp
  then show ?thesis using assms unfolding mod_add_below [OF assms(2)] by (auto split: if_splits)
qed

end
