(* ===== verification/Sequence_Numbers.thy ===== *)
theory Sequence_Numbers
  imports Tachyon_Prelude
begin

text \<open>
  The 16-bit sequence numbers of \<^verbatim>\<open>src/src/tachyon/sequence.rs\<close>: a counter that wraps
  from 65534 to 0 (65535 is never produced) and a comparison over half of its range.

  The interface the rest of the code relies on is the locale \<open>sequence_space\<close>: the code's
  numbers are the images \<open>sq n\<close> of an unbounded message counter \<open>n\<close>, successor and
  predecessor follow the counter, and the comparison agrees with the order of the
  counters as long as they are at most \<open>reach\<close> apart. It is interpreted below on the
  functions of the source with \<open>reach = 32766\<close>.
\<close>

subsection \<open>The code\<close>

definition is_greater_then :: "u16 \<Rightarrow> u16 \<Rightarrow> bool" where
  "is_greater_then s1 s2 \<longleftrightarrow>
     (s1 > s2 \<and> s1 - s2 \<le> 32768) \<or> (s1 < s2 \<and> s2 - s1 > 32768)"

definition is_less_than :: "u16 \<Rightarrow> u16 \<Rightarrow> bool" where
  "is_less_than s1 s2 \<longleftrightarrow> is_greater_then s2 s1"

definition is_equal_to_or_less_than :: "u16 \<Rightarrow> u16 \<Rightarrow> bool" where
  "is_equal_to_or_less_than s1 s2 \<longleftrightarrow> (if s1 = s2 then True else is_greater_then s2 s1)"

definition next_sequence :: "u16 \<Rightarrow> u16" where
  "next_sequence sequence = (if sequence \<ge> 65535 - 1 then 0 else sequence + 1)"

definition previous_sequence :: "u16 \<Rightarrow> u16" where
  "previous_sequence sequence = (if sequence = 0 then 65535 - 1 else sequence - 1)"

subsection \<open>The interface\<close>

locale sequence_space =
  fixes sq :: "nat \<Rightarrow> 's"
    and nxt :: "'s \<Rightarrow> 's"
    and prv :: "'s \<Rightarrow> 's"
    and gt :: "'s \<Rightarrow> 's \<Rightarrow> bool"
    and reach :: nat
  assumes nxt_sq: "nxt (sq n) = sq (Suc n)"
    and prv_sq: "prv (sq (Suc n)) = sq n"
    and gt_sq: "i < j \<Longrightarrow> j \<le> i + reach \<Longrightarrow> gt (sq j) (sq i)"
    and not_gt_sq: "i \<le> j \<Longrightarrow> j \<le> i + reach \<Longrightarrow> \<not> gt (sq i) (sq j)"
begin

text \<open>The comparison decides the order of two counters that are close enough.\<close>

lemma gt_sq_iff:
  assumes "i \<le> j + reach" "j \<le> i + reach"
  shows "gt (sq i) (sq j) \<longleftrightarrow> j < i"
  using assms gt_sq [of j i] not_gt_sq [of i j] by (cases "j < i") auto

lemma sq_eq_iff:
  assumes "i \<le> j + reach" "j \<le> i + reach"
  shows "sq i = sq j \<longleftrightarrow> i = j"
proof
  assume eq: "sq i = sq j"
  have "\<not> j < i" "\<not> i < j"
    using gt_sq_iff [OF assms] gt_sq_iff [OF assms(2,1)] not_gt_sq [of i i] eq by auto
  then show "i = j" by simp
qed simp

lemma inj_on_window: "inj_on sq {n..n + reach}"
  by (rule inj_onI) (auto simp: sq_eq_iff)

text \<open>Walking the window up and down.\<close>

lemma nxt_walk: "(nxt ^^ k) (sq n) = sq (n + k)"
  by (induction k) (auto simp: nxt_sq)

lemma prv_walk: "k \<le> n \<Longrightarrow> (prv ^^ k) (sq n) = sq (n - k)"
proof (induction k)
  case (Suc k)
  then have "n - k = Suc (n - Suc k)" by simp
  with Suc show ?case by (simp add: prv_sq)
qed simp

end

subsection \<open>The numbers of the code are such a space\<close>

text \<open>The sequence number of the \<open>n\<close>-th message since the counter was 0.\<close>

definition seq_of :: "nat \<Rightarrow> u16" where
  "seq_of n = word_of_nat (n mod 65535)"

lemma unat_seq_of [simp]: "unat (seq_of n) = n mod 65535"
  by (simp add: seq_of_def unat_of_nat)

lemma seq_of_unat: "s \<noteq> 65535 \<Longrightarrow> seq_of (unat s) = s"
proof -
  assume "s \<noteq> 65535"
  then have "unat s \<noteq> 65535" by (simp add: word_unat_eq_iff)
  moreover have "unat s < 65536" using unsigned_less [of s, where ?'a = nat] by simp
  ultimately have "unat s mod 65535 = unat s" by simp
  then show ?thesis by (simp add: word_unat_eq_iff)
qed

lemma is_greater_then_nat:
  "is_greater_then s1 s2 \<longleftrightarrow>
     (unat s1 > unat s2 \<and> unat s1 - unat s2 \<le> 32768) \<or>
     (unat s1 < unat s2 \<and> unat s2 - unat s1 > 32768)"
  by (auto simp: is_greater_then_def word_less_nat_alt word_le_nat_alt unat_sub_if')

lemma next_seq_of: "next_sequence (seq_of n) = seq_of (Suc n)"
proof -
  have "n mod 65535 < 65535" by simp
  then show ?thesis
    by (auto simp: next_sequence_def word_le_nat_alt word_unat_eq_iff unat_word_ariths mod_Suc)
qed

lemma previous_seq_of: "previous_sequence (seq_of (Suc n)) = seq_of n"
  by (auto simp: previous_sequence_def word_unat_eq_iff unat_sub_if' mod_Suc split: if_splits)

lemma greater_seq_of:
  assumes "i < j" "j \<le> i + 32766"
  shows "is_greater_then (seq_of j) (seq_of i)"
proof -
  define d where "d = j - i"
  with assms have "j = i + d" "d < 65535" "0 < d" "d \<le> 32766" by auto
  moreover have "i mod 65535 < 65535" by simp
  ultimately show ?thesis
    by (auto simp: is_greater_then_nat mod_add_below split: if_splits)
qed

lemma not_greater_seq_of:
  assumes "i \<le> j" "j \<le> i + 32766"
  shows "\<not> is_greater_then (seq_of i) (seq_of j)"
proof -
  define d where "d = j - i"
  with assms have "j = i + d" "d < 65535" "d \<le> 32766" by auto
  moreover have "i mod 65535 < 65535" by simp
  ultimately show ?thesis
    by (auto simp: is_greater_then_nat mod_add_below split: if_splits)
qed

interpretation sn: sequence_space seq_of next_sequence previous_sequence is_greater_then 32766
  by unfold_locales
    (auto simp: next_seq_of previous_seq_of greater_seq_of not_greater_seq_of)

lemmas seq_steps [simp] = sn.nxt_sq sn.prv_sq
lemmas seq_order = sn.gt_sq_iff sn.sq_eq_iff

lemma is_equal_to_or_less_than_seq_of:
  "i \<le> j + 32766 \<Longrightarrow> j \<le> i + 32766 \<Longrightarrow> is_equal_to_or_less_than (seq_of i) (seq_of j) \<longleftrightarrow> i \<le> j"
  by (auto simp: is_equal_to_or_less_than_def seq_order)

subsection \<open>Properties\<close>

text \<open>
  The comparison of sequence numbers is a trichotomy on all of \<open>u16\<close>: of two different
  numbers exactly one is greater than the other, and no number is greater than itself.
\<close>

lemma sequence_trichotomy:
  "is_greater_then a b \<longleftrightarrow> a \<noteq> b \<and> \<not> is_greater_then b a"
proof -
  have "unat a < 65536" "unat b < 65536"
    using unsigned_less [of a, where ?'a = nat] unsigned_less [of b, where ?'a = nat] by simp_all
  then show ?thesis by (auto simp: is_greater_then_nat word_unat_eq_iff)
qed

text \<open>
  C40. The comparisons decide the age of two messages across the wrap-around: for two
  messages sent at most 32766 apart, their 16-bit numbers compare as their unbounded
  counters do.
\<close>

theorem sequence_order:
  assumes "i \<le> j + 32766" "j \<le> i + 32766"
  shows "(is_greater_then (seq_of i) (seq_of j) \<longleftrightarrow> j < i) \<and> (is_less_than (seq_of i) (seq_of j) \<longleftrightarrow> i < j)
    \<and> (is_equal_to_or_less_than (seq_of i) (seq_of j) \<longleftrightarrow> i \<le> j)"
  using sn.gt_sq_iff [OF assms] sn.gt_sq_iff [OF assms(2,1)] is_equal_to_or_less_than_seq_of [OF assms]
  by (simp add: is_less_than_def)

theorem sequence_order_witness:
  "is_greater_then (seq_of 65540) (seq_of 65530) \<and> seq_of 65540 = 5 \<and> seq_of 65530 = 65530"
  using sequence_order [of 65540 65530] by (simp add: seq_of_def)

text \<open>
  Successor and predecessor are inverse to each other on the numbers in use, 0 to 65534,
  and do not leave them.
\<close>

lemma sequence_steps_inverse:
  assumes "s \<noteq> 65535"
  shows "previous_sequence (next_sequence s) = s \<and> next_sequence (previous_sequence s) = s
    \<and> next_sequence s \<noteq> 65535 \<and> previous_sequence s \<noteq> 65535"
proof -
  have "seq_of (Suc (unat s + 65534)) = s"
    using seq_of_unat [OF assms] by (simp add: seq_of_def)
  then obtain n where s: "s = seq_of (Suc n)" by metis
  have ne: "seq_of n \<noteq> 65535" for n
  proof -
    have "unat (seq_of n) < 65535" "unat (65535 :: u16) = 65535" by simp_all
    then show ?thesis by (metis less_irrefl)
  qed
  show ?thesis by (simp add: s ne)
qed

theorem sequence_steps_inverse_witness:
  "previous_sequence (next_sequence 65534) = 65534 \<and> next_sequence (65534 :: u16) = 0"
  using sequence_steps_inverse [of 65534] by (simp add: next_sequence_def)

end
