(* ===== verification/Sequence_Buffer.thy ===== *)
theory Sequence_Buffer
  imports Sequence_Numbers
begin

text \<open>
  \<^verbatim>\<open>src/src/tachyon/sequence_buffer.rs\<close>: a fixed table of slots addressed by a sequence
  number modulo \<open>partition_by\<close>. The methods that hand out a \<open>&mut\<close> into a slot
  (\<open>insert\<close>, \<open>get_mut\<close>) are modelled by the value in the slot; a caller that writes
  through the reference stores the new value with \<open>sb_insert\<close> at the same number.

  The interface the clients rely on is the locale \<open>slot_buffer\<close>, and, for clients that
  only use the numbers of a window, \<open>windowed_buffer\<close>: inside a window whose slots are
  distinct the table is a map from message counters to values.
\<close>

record 'a sequence_buffer =
  sb_values :: "'a option list"
  sb_partition_by :: u16

subsection \<open>The code\<close>

definition sequence_to_index :: "'a sequence_buffer \<Rightarrow> u16 \<Rightarrow> nat option" where
  "sequence_to_index b sequence =
     (if sb_partition_by b = 0 then None else Some (unat (sequence mod sb_partition_by b)))"

definition sb_insert :: "'a sequence_buffer \<Rightarrow> u16 \<Rightarrow> 'a \<Rightarrow> 'a sequence_buffer option" where
  "sb_insert b sequence value = do {
     index \<leftarrow> sequence_to_index b sequence;
     vs \<leftarrow> write_at (sb_values b) index (Some value);
     Some (b\<lparr>sb_values := vs\<rparr>) }"

definition sb_remove :: "'a sequence_buffer \<Rightarrow> u16 \<Rightarrow> 'a sequence_buffer option" where
  "sb_remove b sequence = do {
     index \<leftarrow> sequence_to_index b sequence;
     vs \<leftarrow> write_at (sb_values b) index None;
     Some (b\<lparr>sb_values := vs\<rparr>) }"

definition sb_remove_at_index :: "'a sequence_buffer \<Rightarrow> nat \<Rightarrow> 'a sequence_buffer option" where
  "sb_remove_at_index b index = do {
     vs \<leftarrow> write_at (sb_values b) index None;
     Some (b\<lparr>sb_values := vs\<rparr>) }"

definition sb_is_some :: "'a sequence_buffer \<Rightarrow> u16 \<Rightarrow> bool option" where
  "sb_is_some b sequence = do {
     index \<leftarrow> sequence_to_index b sequence;
     v \<leftarrow> read_at (sb_values b) index;
     Some (v \<noteq> None) }"

definition sb_take :: "'a sequence_buffer \<Rightarrow> u16 \<Rightarrow> ('a option \<times> 'a sequence_buffer) option" where
  "sb_take b sequence = do {
     index \<leftarrow> sequence_to_index b sequence;
     v \<leftarrow> read_at (sb_values b) index;
     vs \<leftarrow> write_at (sb_values b) index None;
     Some (v, b\<lparr>sb_values := vs\<rparr>) }"

text \<open>\<open>get\<close>, \<open>get_at_index\<close> and \<open>get_mut\<close> use \<open>Vec::get\<close>: out of range is no panic but
  the value \<open>None\<close>.\<close>

definition sb_get_at_index :: "'a sequence_buffer \<Rightarrow> nat \<Rightarrow> 'a option" where
  "sb_get_at_index b index =
     (case read_at (sb_values b) index of Some value \<Rightarrow> value | None \<Rightarrow> None)"

definition sb_get :: "'a sequence_buffer \<Rightarrow> u16 \<Rightarrow> 'a option option" where
  "sb_get b sequence = do {
     index \<leftarrow> sequence_to_index b sequence;
     Some (case read_at (sb_values b) index of Some value \<Rightarrow> value | None \<Rightarrow> None) }"

definition sb_get_mut :: "'a sequence_buffer \<Rightarrow> u16 \<Rightarrow> 'a option option" where
  "sb_get_mut b sequence = do {
     index \<leftarrow> sequence_to_index b sequence;
     Some (case read_at (sb_values b) index of Some value \<Rightarrow> value | None \<Rightarrow> None) }"

subsection \<open>The interface\<close>

locale slot_buffer =
  fixes inv :: "'b \<Rightarrow> bool"
    and size_of :: nat
    and slot :: "'s \<Rightarrow> nat"
    and cell :: "'b \<Rightarrow> nat \<Rightarrow> 'v option"
    and put :: "'b \<Rightarrow> nat \<Rightarrow> 'v option \<Rightarrow> 'b"
    and ins :: "'b \<Rightarrow> 's \<Rightarrow> 'v \<Rightarrow> 'b option"
    and rem :: "'b \<Rightarrow> 's \<Rightarrow> 'b option"
    and tak :: "'b \<Rightarrow> 's \<Rightarrow> ('v option \<times> 'b) option"
    and has :: "'b \<Rightarrow> 's \<Rightarrow> bool option"
    and get :: "'b \<Rightarrow> 's \<Rightarrow> 'v option option"
  assumes slot_bound: "slot s < size_of"
    and inv_put: "inv b \<Longrightarrow> i < size_of \<Longrightarrow> inv (put b i v)"
    and cell_put: "inv b \<Longrightarrow> i < size_of \<Longrightarrow> cell (put b i v) = (cell b)(i := v)"
    and ins_eq: "inv b \<Longrightarrow> ins b s x = Some (put b (slot s) (Some x))"
    and rem_eq: "inv b \<Longrightarrow> rem b s = Some (put b (slot s) None)"
    and tak_eq: "inv b \<Longrightarrow> tak b s = Some (cell b (slot s), put b (slot s) None)"
    and has_eq: "inv b \<Longrightarrow> has b s = Some (cell b (slot s) \<noteq> None)"
    and get_eq: "inv b \<Longrightarrow> get b s = Some (cell b (slot s))"
begin

text \<open>No operation panics and each keeps the invariant.\<close>

lemma ins_inv: "inv b \<Longrightarrow> \<exists>b'. ins b s x = Some b' \<and> inv b'"
  by (simp add: ins_eq inv_put slot_bound)

lemma get_after_ins:
  assumes "inv b" "ins b s x = Some b'"
  shows "get b' t = Some (if slot t = slot s then Some x else cell b (slot t))"
  using assms by (auto simp: ins_eq get_eq inv_put cell_put slot_bound)

lemma take_after_ins:
  assumes "inv b" "ins b s x = Some b'"
  shows "\<exists>b''. tak b' s = Some (Some x, b'') \<and> inv b'' \<and> has b'' s = Some False"
  using assms by (auto simp: ins_eq tak_eq has_eq inv_put cell_put slot_bound)

lemma get_after_rem:
  assumes "inv b" "rem b s = Some b'"
  shows "get b' t = Some (if slot t = slot s then None else cell b (slot t))"
  using assms by (auto simp: rem_eq get_eq inv_put cell_put slot_bound)

end

locale windowed_buffer =
  slot_buffer inv size_of slot cell put ins rem tak has get +
  sequence_space sq nxt prv gt reach
  for inv :: "'b \<Rightarrow> bool"
    and size_of :: nat
    and slot :: "'s \<Rightarrow> nat"
    and cell :: "'b \<Rightarrow> nat \<Rightarrow> 'v option"
    and put :: "'b \<Rightarrow> nat \<Rightarrow> 'v option \<Rightarrow> 'b"
    and ins :: "'b \<Rightarrow> 's \<Rightarrow> 'v \<Rightarrow> 'b option"
    and rem :: "'b \<Rightarrow> 's \<Rightarrow> 'b option"
    and tak :: "'b \<Rightarrow> 's \<Rightarrow> ('v option \<times> 'b) option"
    and has :: "'b \<Rightarrow> 's \<Rightarrow> bool option"
    and get :: "'b \<Rightarrow> 's \<Rightarrow> 'v option option"
    and sq :: "nat \<Rightarrow> 's"
    and nxt :: "'s \<Rightarrow> 's"
    and prv :: "'s \<Rightarrow> 's"
    and gt :: "'s \<Rightarrow> 's \<Rightarrow> bool"
    and reach :: nat +
  fixes window :: nat
  assumes slot_window: "i < j \<Longrightarrow> j \<le> i + window \<Longrightarrow> slot (sq i) \<noteq> slot (sq j)"
begin

lemma slot_eq_iff:
  assumes "i \<le> j + window" "j \<le> i + window"
  shows "slot (sq i) = slot (sq j) \<longleftrightarrow> i = j"
  using assms slot_window [of i j] slot_window [of j i] by (cases i j rule: linorder_cases) auto

lemma inj_on_slots: "inj_on (\<lambda>k. slot (sq k)) {n..n + window}"
  by (rule inj_onI) (auto simp: slot_eq_iff)

text \<open>Inside a window the table is a map keyed by the counters.\<close>

lemma get_after_ins_window:
  assumes "inv b" "ins b (sq i) x = Some b'" "i \<le> j + window" "j \<le> i + window"
  shows "get b' (sq j) = Some (if i = j then Some x else cell b (slot (sq j)))"
  using assms slot_eq_iff [of j i] by (auto simp: get_after_ins)

text \<open>An entry survives until the window has moved past it.\<close>

lemma get_after_inserts:
  assumes "inv b" "cell b (slot (sq i)) = Some x" "k \<le> window"
  shows "\<exists>b'. foldl (\<lambda>r j. Option.bind r (\<lambda>b. ins b (sq j) (f j))) (Some b) [Suc i..<Suc (i + k)] = Some b'
           \<and> inv b' \<and> get b' (sq i) = Some (Some x)"
  using assms(3)
proof (induction k)
  case 0
  then show ?case using assms by (simp add: get_eq)
next
  case (Suc k)
  then obtain b' where b': "foldl (\<lambda>r j. Option.bind r (\<lambda>b. ins b (sq j) (f j))) (Some b)
      [Suc i..<Suc (i + k)] = Some b'" "inv b'" "get b' (sq i) = Some (Some x)" by auto
  have ne: "slot (sq i) \<noteq> slot (sq (Suc (i + k)))"
    using Suc.prems by (intro slot_window) auto
  show ?case
    using b' ne
    by (simp add: ins_eq inv_put slot_bound get_eq cell_put)
qed

end

subsection \<open>The tables of the code\<close>

text \<open>
  Every table of the program has 1024 slots (\<open>RECEIVE_BUFFER_SIZE\<close>, \<open>SEND_BUFFER_SIZE\<close>).
\<close>

definition sb_wf :: "'a sequence_buffer \<Rightarrow> bool" where
  "sb_wf b \<longleftrightarrow> sb_partition_by b = 1024 \<and> length (sb_values b) = 1024"

definition slot_of :: "u16 \<Rightarrow> nat" where
  "slot_of s = unat s mod 1024"

definition sb_cell :: "'a sequence_buffer \<Rightarrow> nat \<Rightarrow> 'a option" where
  "sb_cell b i = (if i < 1024 then sb_values b ! i else None)"

definition sb_put :: "'a sequence_buffer \<Rightarrow> nat \<Rightarrow> 'a option \<Rightarrow> 'a sequence_buffer" where
  "sb_put b i v = b\<lparr>sb_values := (sb_values b)[i := v]\<rparr>"

lemma slot_of_less [simp]: "slot_of s < 1024"
  by (simp add: slot_of_def)

lemma sequence_to_index_wf: "sb_wf b \<Longrightarrow> sequence_to_index b s = Some (slot_of s)"
  by (simp add: sb_wf_def sequence_to_index_def slot_of_def unat_mod)

lemma slot_of_window:
  assumes "i < j" "j \<le> i + 1022"
  shows "slot_of (seq_of i) \<noteq> slot_of (seq_of j)"
proof -
  define d where "d = j - i"
  define r where "r = i mod 65535"
  have j: "j = i + d" and d: "0 < d" "d \<le> 1022" using assms by (auto simp: d_def)
  have "j mod 65535 = (if r + d < 65535 then r + d else r + d - 65535)"
    using d by (simp add: j r_def mod_add_below)
  moreover have "(r + d) mod 1024 \<noteq> r mod 1024"
    using d by (intro mod_add_neq) auto
  moreover have "(r + d - 65535) mod 1024 \<noteq> r mod 1024" if "65535 \<le> r + d"
  proof -
    define t where "t = r + d - 65535"
    have "r = t + (1023 - d) + 63 * 1024" using that d by (simp add: t_def)
    then have "r mod 1024 = (t + (1023 - d)) mod 1024" by (metis mod_mult_self1)
    also have "\<dots> \<noteq> t mod 1024" using d by (intro mod_add_neq) auto
    finally show ?thesis by (simp add: t_def)
  qed
  ultimately show ?thesis
    by (auto simp: slot_of_def r_def split: if_splits)
qed

interpretation sb: windowed_buffer sb_wf 1024 slot_of sb_cell sb_put
  sb_insert sb_remove sb_take sb_is_some sb_get
  seq_of next_sequence previous_sequence is_greater_then 32766 1022
proof unfold_locales
  fix b :: "'a sequence_buffer" and i :: nat and v
  assume "sb_wf b" "i < 1024"
  then show "sb_cell (sb_put b i v) = (sb_cell b)(i := v)"
    by (auto simp: sb_wf_def sb_cell_def sb_put_def nth_list_update fun_eq_iff)
qed (auto simp: sb_wf_def sb_put_def sb_insert_def sb_remove_def sb_take_def sb_is_some_def
      sb_get_def sb_cell_def sequence_to_index_wf [unfolded sb_wf_def] slot_of_window)

lemmas sb_ops [simp, no_panic] = sb.ins_eq sb.rem_eq sb.tak_eq sb.has_eq sb.get_eq
lemmas sb_simps [simp] = sb.inv_put sb.cell_put

lemma sb_get_mut_eq [simp]: "sb_get_mut b s = sb_get b s"
  by (simp add: sb_get_mut_def sb_get_def)

text \<open>A table of 1024 empty slots.\<close>

definition sb_empty :: "'a sequence_buffer" where
  "sb_empty = \<lparr>sb_values = replicate 1024 None, sb_partition_by = 1024\<rparr>"

lemma sb_wf_empty [simp]: "sb_wf sb_empty"
  by (simp add: sb_wf_def sb_empty_def)

lemma sb_cell_empty [simp]: "sb_cell sb_empty i = None"
  by (simp add: sb_cell_def sb_empty_def)

subsection \<open>Properties\<close>


text \<open>
  Within 1022 numbers the table is a map: an insert does not panic, a lookup of the same
  number returns the entry, and every other number of the window keeps what it had.
\<close>

lemma insert_then_get:
  assumes "sb_wf b" "i \<le> j + 1022" "j \<le> i + 1022"
  shows "\<exists>b'. sb_insert b (seq_of i) x = Some b' \<and> sb_wf b'
    \<and> sb_get b' (seq_of j) = (if i = j then Some (Some x) else sb_get b (seq_of j))"
  using assms sb.get_after_ins_window [of b i x _ j] by auto

theorem insert_then_get_witness:
  "\<exists>b'. sb_insert sb_empty (seq_of 65534) (7::nat) = Some b' \<and> sb_get b' (seq_of 65534) = Some (Some 7)
     \<and> sb_wf b'"
  using insert_then_get [of sb_empty 65534 65534 7] by auto

end
