(* ===== verification/Int_Buffer.thy ===== *)
theory Int_Buffer
  imports Tachyon_Prelude
begin

text \<open>
  The wire primitives: \<^verbatim>\<open>src/src/tachyon/int_buffer.rs\<close> (a cursor that reads and writes
  little-endian integers in a byte slice, and the length-prefixed records of the pool's
  out buffers) and the data type of \<^verbatim>\<open>src/src/tachyon/network_address.rs\<close>.

  The interface is the locale \<open>byte_codec\<close>: a fixed-width encoding with a writer and a
  reader that panic exactly when the slice is too short. It is interpreted on
  \<open>u8\<close>, \<open>u16\<close>, \<open>u32\<close> and on network addresses.
\<close>

subsection \<open>NetworkAddress\<close>

record network_address =
  na_a :: u16
  na_b :: u16
  na_c :: u16
  na_d :: u16
  na_port :: u32

definition na_default :: network_address where
  "na_default = \<lparr>na_a = 0, na_b = 0, na_c = 0, na_d = 0, na_port = 0\<rparr>"

definition na_eq :: "network_address \<Rightarrow> network_address \<Rightarrow> bool" where
  "na_eq x y \<longleftrightarrow> na_a x = na_a y \<and> na_b x = na_b y \<and> na_c x = na_c y \<and> na_d x = na_d y
     \<and> na_port x = na_port y"

definition na_test_address :: network_address where
  "na_test_address = \<lparr>na_a = 127, na_b = 0, na_c = 0, na_d = 1, na_port = 8265\<rparr>"

definition na_broadcast :: "u8 \<Rightarrow> network_address" where
  "na_broadcast channel =
     \<lparr>na_a = 255, na_b = 255, na_c = 255, na_d = 255, na_port = ucast channel\<rparr>"

definition na_localhost :: "u32 \<Rightarrow> network_address" where
  "na_localhost port = \<lparr>na_a = 127, na_b = 0, na_c = 0, na_d = 1, na_port = port\<rparr>"

definition na_mock_client_address :: network_address where
  "na_mock_client_address = \<lparr>na_a = 127, na_b = 0, na_c = 0, na_d = 1, na_port = 4598\<rparr>"

text \<open>The part of \<open>std::net::SocketAddr\<close> the code looks at.\<close>

datatype socket_addr = SocketV4 u8 u8 u8 u8 u16 | SocketV6 "u8 list" u16

fun from_socket_addr :: "socket_addr \<Rightarrow> network_address" where
  "from_socket_addr (SocketV4 p0 p1 p2 p3 port) =
     \<lparr>na_a = ucast p0, na_b = ucast p1, na_c = ucast p2, na_d = ucast p3, na_port = ucast port\<rparr>"
| "from_socket_addr (SocketV6 _ _) = na_default"

definition to_socket_addr :: "network_address \<Rightarrow> socket_addr" where
  "to_socket_addr x =
     SocketV4 (ucast (na_a x)) (ucast (na_b x)) (ucast (na_c x)) (ucast (na_d x)) (ucast (na_port x))"

definition na_is_default :: "network_address \<Rightarrow> bool" where
  "na_is_default x \<longleftrightarrow> na_eq na_default x"

definition na_is_broadcast :: "network_address \<Rightarrow> bool" where
  "na_is_broadcast x \<longleftrightarrow> na_a x = 255 \<and> na_b x = 255 \<and> na_c x = 255 \<and> na_d x = 255"

definition na_copy_from :: "network_address \<Rightarrow> network_address \<Rightarrow> network_address" where
  "na_copy_from self other =
     self\<lparr>na_a := na_a other, na_b := na_b other, na_c := na_c other, na_d := na_d other,
          na_port := na_port other\<rparr>"

definition na_get_hash :: "network_address \<Rightarrow> u32" where
  "na_get_hash x =
     (let hash = 17;
          hash = hash * 23 + ucast (na_a x);
          hash = hash * 23 + ucast (na_b x);
          hash = hash * 23 + ucast (na_c x);
          hash = hash * 23 + ucast (na_d x);
          hash = hash * 23 + na_port x
      in hash)"

lemma na_eq_iff [simp]: "na_eq x y \<longleftrightarrow> x = y"
  by (cases x, cases y) (simp add: na_eq_def)

subsection \<open>IntBuffer\<close>

record int_buffer =
  ib_index :: nat

definition write_u8 :: "int_buffer \<Rightarrow> u8 \<Rightarrow> bytes \<Rightarrow> (int_buffer \<times> bytes) option" where
  "write_u8 self v data = do {
     data \<leftarrow> write_at data (ib_index self) v;
     Some (self\<lparr>ib_index := ib_index self + 1\<rparr>, data) }"

definition write_u16 :: "int_buffer \<Rightarrow> u16 \<Rightarrow> bytes \<Rightarrow> (int_buffer \<times> bytes) option" where
  "write_u16 self v data = do {
     data \<leftarrow> write_at data (ib_index self) (ucast v);
     let self = self\<lparr>ib_index := ib_index self + 1\<rparr>;
     data \<leftarrow> write_at data (ib_index self) (ucast (drop_bit 8 v));
     let self = self\<lparr>ib_index := ib_index self + 1\<rparr>;
     Some (self, data) }"

definition write_u32 :: "int_buffer \<Rightarrow> u32 \<Rightarrow> bytes \<Rightarrow> (int_buffer \<times> bytes) option" where
  "write_u32 self v data = do {
     data \<leftarrow> write_at data (ib_index self) (ucast v);
     let self = self\<lparr>ib_index := ib_index self + 1\<rparr>;
     data \<leftarrow> write_at data (ib_index self) (ucast (drop_bit 8 v));
     let self = self\<lparr>ib_index := ib_index self + 1\<rparr>;
     data \<leftarrow> write_at data (ib_index self) (ucast (drop_bit 16 v));
     let self = self\<lparr>ib_index := ib_index self + 1\<rparr>;
     data \<leftarrow> write_at data (ib_index self) (ucast (drop_bit 24 v));
     let self = self\<lparr>ib_index := ib_index self + 1\<rparr>;
     Some (self, data) }"

definition read_u8 :: "int_buffer \<Rightarrow> bytes \<Rightarrow> (u8 \<times> int_buffer) option" where
  "read_u8 self data = do {
     value \<leftarrow> read_at data (ib_index self);
     Some (value, self\<lparr>ib_index := ib_index self + 1\<rparr>) }"

definition read_u16 :: "int_buffer \<Rightarrow> bytes \<Rightarrow> (u16 \<times> int_buffer) option" where
  "read_u16 self data = do {
     b0 \<leftarrow> read_at data (ib_index self);
     b1 \<leftarrow> read_at data (ib_index self + 1);
     Some (ucast b0 OR push_bit 8 (ucast b1), self\<lparr>ib_index := ib_index self + 2\<rparr>) }"

definition read_u32 :: "int_buffer \<Rightarrow> bytes \<Rightarrow> (u32 \<times> int_buffer) option" where
  "read_u32 self data = do {
     b0 \<leftarrow> read_at data (ib_index self);
     b1 \<leftarrow> read_at data (ib_index self + 1);
     b2 \<leftarrow> read_at data (ib_index self + 2);
     b3 \<leftarrow> read_at data (ib_index self + 3);
     Some (ucast b0 OR push_bit 8 (ucast b1) OR push_bit 16 (ucast b2) OR push_bit 24 (ucast b3),
           self\<lparr>ib_index := ib_index self + 4\<rparr>) }"

definition write_address :: "int_buffer \<Rightarrow> network_address \<Rightarrow> bytes \<Rightarrow> (int_buffer \<times> bytes) option" where
  "write_address self address data = do {
     (self, data) \<leftarrow> write_u16 self (na_a address) data;
     (self, data) \<leftarrow> write_u16 self (na_b address) data;
     (self, data) \<leftarrow> write_u16 self (na_c address) data;
     (self, data) \<leftarrow> write_u16 self (na_d address) data;
     write_u32 self (na_port address) data }"

definition read_address :: "int_buffer \<Rightarrow> bytes \<Rightarrow> (network_address \<times> int_buffer) option" where
  "read_address self data = do {
     (a, self) \<leftarrow> read_u16 self data;
     (b, self) \<leftarrow> read_u16 self data;
     (c, self) \<leftarrow> read_u16 self data;
     (d, self) \<leftarrow> read_u16 self data;
     (port, self) \<leftarrow> read_u32 self data;
     Some (\<lparr>na_a = a, na_b = b, na_c = c, na_d = d, na_port = port\<rparr>, self) }"

definition u4_to_u8 :: "u8 \<Rightarrow> u8 \<Rightarrow> u8" where
  "u4_to_u8 v1 v2 = v1 OR push_bit 4 v2"

definition u8_to_u4 :: "u8 \<Rightarrow> u8 \<times> u8" where
  "u8_to_u4 byte = (byte AND 0x0F, drop_bit 4 byte)"

subsection \<open>The interface\<close>

locale byte_codec =
  fixes width :: nat
    and enc :: "'v \<Rightarrow> bytes"
    and dec :: "bytes \<Rightarrow> 'v"
    and wr :: "int_buffer \<Rightarrow> 'v \<Rightarrow> bytes \<Rightarrow> (int_buffer \<times> bytes) option"
    and rd :: "int_buffer \<Rightarrow> bytes \<Rightarrow> ('v \<times> int_buffer) option"
  assumes enc_length: "length (enc v) = width"
    and dec_enc: "dec (enc v) = v"
    and wr_eq: "wr b v d = (if ib_index b + width \<le> length d
      then Some (b\<lparr>ib_index := ib_index b + width\<rparr>, overwrite d (ib_index b) (enc v)) else None)"
    and rd_eq: "rd b d = (if ib_index b + width \<le> length d
      then Some (dec (take width (drop (ib_index b) d)), b\<lparr>ib_index := ib_index b + width\<rparr>) else None)"
begin

lemma read_back:
  assumes "wr b v d = Some (b', d')"
  shows "rd b d' = Some (v, b')"
  using assms by (auto simp: wr_eq rd_eq enc_length dec_enc split: if_splits)

lemma write_frame:
  assumes "wr b v d = Some (b', d')"
  shows "length d' = length d"
    and "take (ib_index b) d' = take (ib_index b) d"
    and "drop (ib_index b') d' = drop (ib_index b') d"
  using assms by (auto simp: wr_eq enc_length split: if_splits)

lemma enc_inject: "enc v = enc w \<longleftrightarrow> v = w"
  by (metis dec_enc)

text \<open>Reading a field that lies in front of, or behind, the bytes that were written last.\<close>

lemma read_elsewhere:
  assumes "wr b v d = Some (b', d')"
    and "ib_index c + width \<le> ib_index b \<or> ib_index b' \<le> ib_index c"
  shows "rd c d' = rd c d"
proof -
  have le: "ib_index b + width \<le> length d" and b': "b' = b\<lparr>ib_index := ib_index b + width\<rparr>"
    and d': "d' = overwrite d (ib_index b) (enc v)"
    using assms(1) by (auto simp: wr_eq split: if_splits)
  have "take width (drop (ib_index c) d') = take width (drop (ib_index c) d)"
    using assms(2)
  proof
    assume "ib_index c + width \<le> ib_index b"
    then show ?thesis using le by (simp add: d' take_drop)
  qed (use le in \<open>simp add: d' b' enc_length\<close>)
  then show ?thesis using le by (simp add: rd_eq d' enc_length)
qed

end

definition enc_u8 :: "u8 \<Rightarrow> bytes" where
  "enc_u8 v = [v]"

definition enc_u16 :: "u16 \<Rightarrow> bytes" where
  "enc_u16 v = [ucast v, ucast (drop_bit 8 v)]"

definition enc_u32 :: "u32 \<Rightarrow> bytes" where
  "enc_u32 v = [ucast v, ucast (drop_bit 8 v), ucast (drop_bit 16 v), ucast (drop_bit 24 v)]"

definition enc_address :: "network_address \<Rightarrow> bytes" where
  "enc_address x = enc_u16 (na_a x) @ enc_u16 (na_b x) @ enc_u16 (na_c x) @ enc_u16 (na_d x)
     @ enc_u32 (na_port x)"

definition dec_u8 :: "bytes \<Rightarrow> u8" where
  "dec_u8 xs = xs ! 0"

definition dec_u16 :: "bytes \<Rightarrow> u16" where
  "dec_u16 xs = ucast (xs ! 0) OR push_bit 8 (ucast (xs ! 1))"

definition dec_u32 :: "bytes \<Rightarrow> u32" where
  "dec_u32 xs = ucast (xs ! 0) OR push_bit 8 (ucast (xs ! 1)) OR push_bit 16 (ucast (xs ! 2))
     OR push_bit 24 (ucast (xs ! 3))"

definition dec_address :: "bytes \<Rightarrow> network_address" where
  "dec_address xs = \<lparr>na_a = dec_u16 (take 2 xs), na_b = dec_u16 (take 2 (drop 2 xs)),
     na_c = dec_u16 (take 2 (drop 4 xs)), na_d = dec_u16 (take 2 (drop 6 xs)),
     na_port = dec_u32 (take 4 (drop 8 xs))\<rparr>"

lemma join_u16: "(ucast (ucast v :: u8) :: u16) OR push_bit 8 (ucast (ucast (drop_bit 8 v) :: u8)) = v"
  by (rule bit_word_eqI) (auto simp: bit_simps)

lemma join_u32:
  "(ucast (ucast v :: u8) :: u32) OR push_bit 8 (ucast (ucast (drop_bit 8 v) :: u8))
     OR push_bit 16 (ucast (ucast (drop_bit 16 v) :: u8))
     OR push_bit 24 (ucast (ucast (drop_bit 24 v) :: u8)) = v"
proof (rule bit_word_eqI)
  fix n assume "n < LENGTH(32)"
  then show "bit ((ucast (ucast v :: u8) :: u32) OR push_bit 8 (ucast (ucast (drop_bit 8 v) :: u8))
     OR push_bit 16 (ucast (ucast (drop_bit 16 v) :: u8))
     OR push_bit 24 (ucast (ucast (drop_bit 24 v) :: u8))) n = bit v n"
    by (cases "n < 16"; cases "n < 24"; auto simp: bit_simps)
qed

lemma overwrite_pair:
  "i + 2 \<le> length d \<Longrightarrow> overwrite d i [x, y] = d[i := x, Suc i := y]"
  using overwrite_append [of i "[x]" d "[y]"] by (simp add: overwrite_single)

lemma overwrite_quad:
  "i + 4 \<le> length d \<Longrightarrow>
   overwrite d i [x, y, z, w] = d[i := x, Suc i := y, Suc (Suc i) := z, Suc (Suc (Suc i)) := w]"
  using overwrite_append [of i "[x, y]" d "[z, w]"] by (simp add: overwrite_pair)

interpretation c8: byte_codec 1 enc_u8 dec_u8 write_u8 read_u8
  by unfold_locales
    (auto simp: enc_u8_def dec_u8_def write_u8_def read_u8_def overwrite_single write_at_def read_at_def)

interpretation c16: byte_codec 2 enc_u16 dec_u16 write_u16 read_u16
  by unfold_locales
    (auto simp: enc_u16_def dec_u16_def write_u16_def read_u16_def write_at_def read_at_def
      overwrite_pair Let_def join_u16)

interpretation c32: byte_codec 4 enc_u32 dec_u32 write_u32 read_u32
  by unfold_locales
    (auto simp: enc_u32_def dec_u32_def write_u32_def read_u32_def write_at_def read_at_def
      overwrite_quad Let_def join_u32)

lemmas codec_simps [simp] = c8.enc_length c16.enc_length c32.enc_length
  c8.dec_enc c16.dec_enc c32.dec_enc
lemmas codec_writes = c8.wr_eq c16.wr_eq c32.wr_eq
lemmas codec_reads = c8.rd_eq c16.rd_eq c32.rd_eq

interpretation ca: byte_codec 12 enc_address dec_address write_address read_address
  by unfold_locales
    (auto simp: enc_address_def dec_address_def write_address_def read_address_def codec_writes
      codec_reads take_drop add.commute)

lemmas address_codec_simps [simp] = ca.enc_length ca.dec_enc

subsection \<open>LengthPrefixed\<close>

record length_prefixed =
  lp_reader :: int_buffer
  lp_writer :: int_buffer

definition lp_default :: length_prefixed where
  "lp_default = \<lparr>lp_reader = \<lparr>ib_index = 0\<rparr>, lp_writer = \<lparr>ib_index = 0\<rparr>\<rparr>"

definition lp_write ::
  "length_prefixed \<Rightarrow> u16 \<Rightarrow> network_address \<Rightarrow> bytes \<Rightarrow> bytes \<Rightarrow> (length_prefixed \<times> bytes) option" where
  "lp_write self channel src_address src dst = do {
     (w, dst) \<leftarrow> write_u32 (lp_writer self) (word_of_nat (length src)) dst;
     (w, dst) \<leftarrow> write_u16 w channel dst;
     (w, dst) \<leftarrow> write_address w src_address dst;
     dst \<leftarrow> copy_into dst (ib_index w) (ib_index w + length src) src;
     Some (self\<lparr>lp_writer := w\<lparr>ib_index := ib_index w + length src\<rparr>\<rparr>, dst) }"

definition lp_read ::
  "length_prefixed \<Rightarrow> bytes \<Rightarrow> ((u16 \<times> network_address \<times> (nat \<times> nat)) \<times> length_prefixed) option" where
  "lp_read self data = do {
     (len, r) \<leftarrow> read_u32 (lp_reader self) data;
     (channel, r) \<leftarrow> read_u16 r data;
     (address, r) \<leftarrow> read_address r data;
     let range = (ib_index r, ib_index r + unat len);
     Some ((channel, address, range), self\<lparr>lp_reader := r\<lparr>ib_index := ib_index r + unat len\<rparr>\<rparr>) }"

text \<open>The bytes of one record of the stream.\<close>

definition lp_record :: "u16 \<Rightarrow> network_address \<Rightarrow> bytes \<Rightarrow> bytes" where
  "lp_record channel address src =
     enc_u32 (word_of_nat (length src)) @ enc_u16 channel @ enc_address address @ src"

lemma length_lp_record [simp]: "length (lp_record c a src) = 18 + length src"
  by (simp add: lp_record_def)

lemma lp_write_eq:
  "lp_write self c a src dst =
     (if ib_index (lp_writer self) + 18 + length src \<le> length dst
      then Some (self\<lparr>lp_writer := lp_writer self\<lparr>ib_index := ib_index (lp_writer self) + 18 + length src\<rparr>\<rparr>,
                 overwrite dst (ib_index (lp_writer self)) (lp_record c a src))
      else None)"
  by (auto simp: lp_write_def codec_writes ca.wr_eq lp_record_def copy_into_def add.commute)

lemma lp_read_record:
  assumes "take (18 + length src) (drop (ib_index (lp_reader self)) data) = lp_record c a src"
    and "ib_index (lp_reader self) + 18 + length src \<le> length data"
    and "length src < 2 ^ 32"
  shows "lp_read self data = Some ((c, a, (ib_index (lp_reader self) + 18,
           ib_index (lp_reader self) + 18 + length src)),
         self\<lparr>lp_reader := lp_reader self\<lparr>ib_index := ib_index (lp_reader self) + 18 + length src\<rparr>\<rparr>)"
proof -
  let ?i = "ib_index (lp_reader self)"
  have pick: "take k (drop (?i + j) data) = take k (drop j (lp_record c a src))"
    if "j + k \<le> 18 + length src" for j k
    using that by (simp flip: assms(1) add: drop_take add.commute)
  have "take 4 (drop ?i data) = enc_u32 (word_of_nat (length src))"
    "take 2 (drop (?i + 4) data) = enc_u16 c"
    "take 12 (drop (?i + 6) data) = enc_address a"
    using pick [of 0 4] pick [of 4 2] pick [of 6 12] by (simp_all add: lp_record_def)
  then show ?thesis
    using assms(2,3)
    by (simp add: lp_read_def codec_reads ca.rd_eq unat_of_nat add.commute)
qed

subsection \<open>Properties\<close>

text \<open>
  Integers and addresses survive the wire: what \<open>write_address\<close> writes at the cursor,
  \<open>read_address\<close> reads back from the same position with the same final cursor, and the
  bytes before and after the twelve it wrote are unchanged.
\<close>

lemma address_roundtrip:
  assumes "write_address b x d = Some (b', d')"
  shows "read_address b d' = Some (x, b') \<and> ib_index b' = ib_index b + 12 \<and> length d' = length d
    \<and> take (ib_index b) d' = take (ib_index b) d \<and> drop (ib_index b') d' = drop (ib_index b') d"
  using ca.read_back [OF assms] ca.write_frame [OF assms] assms by (auto simp: ca.wr_eq split: if_splits)

theorem address_roundtrip_witness:
  "\<exists>b' d'. write_address \<lparr>ib_index = 1\<rparr> na_test_address (replicate 14 9) = Some (b', d')
     \<and> read_address \<lparr>ib_index = 1\<rparr> d' = Some (na_test_address, b')"
proof -
  obtain b' d' where w: "write_address \<lparr>ib_index = 1\<rparr> na_test_address (replicate 14 9) = Some (b', d')"
    by (auto simp: ca.wr_eq)
  from w address_roundtrip [OF w] show ?thesis by auto
qed

text \<open>
  The integer writers of the cursor are inverted by its readers: \<open>u16\<close> and \<open>u32\<close>
  values written at a position are read back from it, and a write panics exactly when the
  slice has no room.
\<close>

lemma integers_roundtrip:
  "(case write_u32 b v d of None \<Rightarrow> length d < ib_index b + 4
     | Some (b', d') \<Rightarrow> read_u32 b d' = Some (v, b') \<and> ib_index b' = ib_index b + 4)
   \<and> (case write_u16 b u d of None \<Rightarrow> length d < ib_index b + 2
     | Some (b', d') \<Rightarrow> read_u16 b d' = Some (u, b') \<and> ib_index b' = ib_index b + 2)"
  by (simp add: c32.wr_eq c16.wr_eq c32.rd_eq c16.rd_eq)

text \<open>
  An IPv4 socket address survives the conversion to a \<open>NetworkAddress\<close> and back.
\<close>

lemma socket_addr_roundtrip:
  "to_socket_addr (from_socket_addr (SocketV4 a b c d port)) = SocketV4 a b c d port"
  by (simp add: to_socket_addr_def ucast_down_ucast_id is_down)

text \<open>
  Records written to a stream are read back: after \<open>LengthPrefixed::write\<close>, \<open>read\<close> at
  the position where the record was written returns its channel and address, a range that
  holds exactly the payload, and the position behind it.
\<close>

lemma length_prefixed_roundtrip:
  assumes "lp_write self channel address src dst = Some (self', dst')" "length src < 2 ^ 32"
    "ib_index (lp_reader self) = ib_index (lp_writer self)"
  shows "\<exists>lo hi r. lp_read self' dst' = Some ((channel, address, (lo, hi)), r)
    \<and> slice dst' lo hi = Some src \<and> ib_index (lp_reader r) = ib_index (lp_writer self')"
proof -
  let ?i = "ib_index (lp_writer self)"
  have room: "?i + 18 + length src \<le> length dst"
    and self': "self' = self\<lparr>lp_writer := lp_writer self\<lparr>ib_index := ?i + 18 + length src\<rparr>\<rparr>"
    and dst': "dst' = overwrite dst ?i (lp_record channel address src)"
    using assms(1) by (auto simp: lp_write_eq split: if_splits)
  have pick: "take (18 + length src) (drop ?i dst') = lp_record channel address src"
    using room by (simp add: dst')
  have "drop (?i + 18) dst' = drop 18 (drop ?i dst')" by (simp add: add.commute)
  then have "take (length src) (drop (?i + 18) dst') = drop 18 (take (18 + length src) (drop ?i dst'))"
    by (simp add: drop_take)
  also have "\<dots> = src" unfolding pick by (simp add: lp_record_def)
  finally have src: "slice dst' (?i + 18) (?i + 18 + length src) = Some src"
    using room by (simp add: slice_def dst')
  have "lp_read self' dst' = Some ((channel, address, (?i + 18, ?i + 18 + length src)),
      self'\<lparr>lp_reader := lp_reader self'\<lparr>ib_index := ?i + 18 + length src\<rparr>\<rparr>)"
    using lp_read_record [of src self' dst' channel address] pick room assms(2,3)
    by (simp add: self' dst')
  with src show ?thesis by (simp add: self')
qed

theorem length_prefixed_roundtrip_witness:
  "\<exists>self' dst' lo hi r. lp_write lp_default 7 na_test_address [1, 2, 3] (replicate 40 0) = Some (self', dst')
     \<and> lp_read self' dst' = Some ((7, na_test_address, (lo, hi)), r) \<and> slice dst' lo hi = Some [1, 2, 3]"
proof -
  obtain self' dst' where w: "lp_write lp_default 7 na_test_address [1, 2, 3] (replicate 40 0) = Some (self', dst')"
    by (auto simp: lp_write_eq lp_default_def)
  from w length_prefixed_roundtrip [OF w] show ?thesis by (auto simp: lp_default_def)
qed

end
