(* ===== verification/Header.thy ===== *)
theory Header
  imports Int_Buffer
begin

text \<open>
  The packet headers of \<^verbatim>\<open>src/src/tachyon/header.rs\<close>. Every writer starts at offset 0 of
  the buffer and leaves the bytes behind the header alone.
\<close>

abbreviation (input) MESSAGE_TYPE_UNRELIABLE :: u8 where "MESSAGE_TYPE_UNRELIABLE \<equiv> 0"
abbreviation (input) MESSAGE_TYPE_RELIABLE :: u8 where "MESSAGE_TYPE_RELIABLE \<equiv> 1"
abbreviation (input) MESSAGE_TYPE_FRAGMENT :: u8 where "MESSAGE_TYPE_FRAGMENT \<equiv> 2"
abbreviation (input) MESSAGE_TYPE_NONE :: u8 where "MESSAGE_TYPE_NONE \<equiv> 3"
abbreviation (input) MESSAGE_TYPE_NACK :: u8 where "MESSAGE_TYPE_NACK \<equiv> 4"
abbreviation (input) MESSAGE_TYPE_RELIABLE_WITH_NACK :: u8 where "MESSAGE_TYPE_RELIABLE_WITH_NACK \<equiv> 5"
abbreviation (input) MESSAGE_TYPE_LINK_IDENTITY :: u8 where "MESSAGE_TYPE_LINK_IDENTITY \<equiv> 6"
abbreviation (input) MESSAGE_TYPE_UNLINK_IDENTITY :: u8 where "MESSAGE_TYPE_UNLINK_IDENTITY \<equiv> 7"
abbreviation (input) MESSAGE_TYPE_IDENTITY_LINKED :: u8 where "MESSAGE_TYPE_IDENTITY_LINKED \<equiv> 8"
abbreviation (input) MESSAGE_TYPE_IDENTITY_UNLINKED :: u8 where "MESSAGE_TYPE_IDENTITY_UNLINKED \<equiv> 9"

abbreviation (input) TACHYON_HEADER_SIZE :: nat where "TACHYON_HEADER_SIZE \<equiv> 4"
abbreviation (input) TACHYON_NACKED_HEADER_SIZE :: nat where "TACHYON_NACKED_HEADER_SIZE \<equiv> 10"
abbreviation (input) TACHYON_FRAGMENTED_HEADER_SIZE :: nat where "TACHYON_FRAGMENTED_HEADER_SIZE \<equiv> 10"

subsection \<open>ConnectionHeader\<close>

record connection_header =
  ch_message_type :: u8
  ch_id :: u32
  ch_session_id :: u32

definition ch_read :: "bytes \<Rightarrow> connection_header option" where
  "ch_read buffer = do {
     let reader = \<lparr>ib_index = 0\<rparr>;
     (mt, reader) \<leftarrow> read_u8 reader buffer;
     (i, reader) \<leftarrow> read_u32 reader buffer;
     (sid, reader) \<leftarrow> read_u32 reader buffer;
     Some \<lparr>ch_message_type = mt, ch_id = i, ch_session_id = sid\<rparr> }"

definition ch_write :: "connection_header \<Rightarrow> bytes \<Rightarrow> bytes option" where
  "ch_write self buffer = do {
     let writer = \<lparr>ib_index = 0\<rparr>;
     (writer, buffer) \<leftarrow> write_u8 writer (ch_message_type self) buffer;
     (writer, buffer) \<leftarrow> write_u32 writer (ch_id self) buffer;
     (writer, buffer) \<leftarrow> write_u32 writer (ch_session_id self) buffer;
     Some buffer }"

subsection \<open>Header\<close>

record header =
  h_message_type :: u8
  h_channel :: u8
  h_sequence :: u16
  h_fragment_group :: u16
  h_fragment_start_sequence :: u16
  h_fragment_count :: u16
  h_start_sequence :: u16
  h_flags :: u32

definition header_default :: header where
  "header_default = \<lparr>h_message_type = 0, h_channel = 0, h_sequence = 0, h_fragment_group = 0,
     h_fragment_start_sequence = 0, h_fragment_count = 0, h_start_sequence = 0, h_flags = 0\<rparr>"

definition header_write_unreliable :: "header \<Rightarrow> bytes \<Rightarrow> bytes option" where
  "header_write_unreliable self buffer = do {
     (_, buffer) \<leftarrow> write_u8 \<lparr>ib_index = 0\<rparr> (h_message_type self) buffer;
     Some buffer }"

definition header_write_nacked :: "header \<Rightarrow> bytes \<Rightarrow> bytes option" where
  "header_write_nacked self buffer = do {
     (writer, buffer) \<leftarrow> write_u8 \<lparr>ib_index = 0\<rparr> (h_message_type self) buffer;
     (writer, buffer) \<leftarrow> write_u8 writer (h_channel self) buffer;
     (writer, buffer) \<leftarrow> write_u16 writer (h_sequence self) buffer;
     (writer, buffer) \<leftarrow> write_u16 writer (h_start_sequence self) buffer;
     (writer, buffer) \<leftarrow> write_u32 writer (h_flags self) buffer;
     Some buffer }"

definition header_write :: "header \<Rightarrow> bytes \<Rightarrow> bytes option" where
  "header_write self buffer = do {
     (writer, buffer) \<leftarrow> write_u8 \<lparr>ib_index = 0\<rparr> (h_message_type self) buffer;
     (writer, buffer) \<leftarrow> write_u8 writer (h_channel self) buffer;
     (writer, buffer) \<leftarrow> write_u16 writer (h_sequence self) buffer;
     Some buffer }"

definition header_read :: "bytes \<Rightarrow> header option" where
  "header_read buffer = do {
     (mt, reader) \<leftarrow> read_u8 \<lparr>ib_index = 0\<rparr> buffer;
     (channel, reader) \<leftarrow> read_u8 reader buffer;
     (sequence, reader) \<leftarrow> read_u16 reader buffer;
     Some (header_default\<lparr>h_message_type := mt, h_channel := channel, h_sequence := sequence\<rparr>) }"

definition header_write_fragmented :: "header \<Rightarrow> bytes \<Rightarrow> bytes option" where
  "header_write_fragmented self buffer = do {
     (writer, buffer) \<leftarrow> write_u8 \<lparr>ib_index = 0\<rparr> (h_message_type self) buffer;
     (writer, buffer) \<leftarrow> write_u8 writer (h_channel self) buffer;
     (writer, buffer) \<leftarrow> write_u16 writer (h_sequence self) buffer;
     (writer, buffer) \<leftarrow> write_u16 writer (h_fragment_group self) buffer;
     (writer, buffer) \<leftarrow> write_u16 writer (h_fragment_start_sequence self) buffer;
     (writer, buffer) \<leftarrow> write_u16 writer (h_fragment_count self) buffer;
     Some buffer }"

definition header_read_fragmented :: "bytes \<Rightarrow> header option" where
  "header_read_fragmented buffer = do {
     (mt, reader) \<leftarrow> read_u8 \<lparr>ib_index = 0\<rparr> buffer;
     (channel, reader) \<leftarrow> read_u8 reader buffer;
     (sequence, reader) \<leftarrow> read_u16 reader buffer;
     (grp, reader) \<leftarrow> read_u16 reader buffer;
     (start, reader) \<leftarrow> read_u16 reader buffer;
     (count, reader) \<leftarrow> read_u16 reader buffer;
     Some (header_default\<lparr>h_message_type := mt, h_channel := channel, h_sequence := sequence,
       h_fragment_group := grp, h_fragment_start_sequence := start, h_fragment_count := count\<rparr>) }"

definition header_create_fragmented :: "u16 \<Rightarrow> u8 \<Rightarrow> u16 \<Rightarrow> u16 \<Rightarrow> u16 \<Rightarrow> header" where
  "header_create_fragmented sequence channel grp start count =
     header_default\<lparr>h_message_type := MESSAGE_TYPE_FRAGMENT, h_sequence := sequence,
       h_channel := channel, h_fragment_group := grp, h_fragment_start_sequence := start,
       h_fragment_count := count\<rparr>"

subsection \<open>What the writers write and the readers read\<close>

definition hdr_bytes :: "u8 \<Rightarrow> u8 \<Rightarrow> u16 \<Rightarrow> bytes" where
  "hdr_bytes mt channel sequence = enc_u8 mt @ enc_u8 channel @ enc_u16 sequence"

definition frag_bytes :: "header \<Rightarrow> bytes" where
  "frag_bytes h = hdr_bytes (h_message_type h) (h_channel h) (h_sequence h)
     @ enc_u16 (h_fragment_group h) @ enc_u16 (h_fragment_start_sequence h)
     @ enc_u16 (h_fragment_count h)"

definition ch_bytes :: "connection_header \<Rightarrow> bytes" where
  "ch_bytes h = enc_u8 (ch_message_type h) @ enc_u32 (ch_id h) @ enc_u32 (ch_session_id h)"

lemma length_hdr_bytes [simp]: "length (hdr_bytes mt c s) = 4"
  by (simp add: hdr_bytes_def)

lemma length_frag_bytes [simp]: "length (frag_bytes h) = 10"
  by (simp add: frag_bytes_def)

lemma length_ch_bytes [simp]: "length (ch_bytes h) = 9"
  by (simp add: ch_bytes_def)

lemma header_write_eq:
  "header_write h buf = (if 4 \<le> length buf
     then Some (overwrite buf 0 (hdr_bytes (h_message_type h) (h_channel h) (h_sequence h))) else None)"
  by (auto simp: header_write_def codec_writes hdr_bytes_def)

lemma header_write_fragmented_eq:
  "header_write_fragmented h buf =
     (if 10 \<le> length buf then Some (overwrite buf 0 (frag_bytes h)) else None)"
  by (auto simp: header_write_fragmented_def codec_writes frag_bytes_def hdr_bytes_def)

lemma header_write_nacked_eq:
  "header_write_nacked h buf =
     (if 10 \<le> length buf
      then Some (overwrite buf 0 (hdr_bytes (h_message_type h) (h_channel h) (h_sequence h)
             @ enc_u16 (h_start_sequence h) @ enc_u32 (h_flags h))) else None)"
  by (auto simp: header_write_nacked_def codec_writes hdr_bytes_def)

lemma ch_write_eq:
  "ch_write h buf = (if 9 \<le> length buf then Some (overwrite buf 0 (ch_bytes h)) else None)"
  by (auto simp: ch_write_def codec_writes ch_bytes_def Let_def)

lemma header_read_eq:
  "header_read buf = (if 4 \<le> length buf
     then Some (header_default\<lparr>h_message_type := dec_u8 (take 1 buf),
       h_channel := dec_u8 (take 1 (drop 1 buf)), h_sequence := dec_u16 (take 2 (drop 2 buf))\<rparr>)
     else None)"
  by (auto simp: header_read_def codec_reads numeral_2_eq_2)

lemma header_read_prefix:
  "header_read (hdr_bytes mt c s @ rest) =
     Some (header_default\<lparr>h_message_type := mt, h_channel := c, h_sequence := s\<rparr>)"
  by (simp add: header_read_eq hdr_bytes_def)

lemma header_read_fragmented_prefix:
  "header_read_fragmented (frag_bytes h @ rest) =
     Some (h\<lparr>h_start_sequence := 0, h_flags := 0\<rparr>)"
  by (cases h) (simp add: header_read_fragmented_def codec_reads frag_bytes_def hdr_bytes_def
      header_default_def)

lemma ch_read_prefix: "ch_read (ch_bytes h @ rest) = Some h"
  by (simp add: ch_read_def codec_reads ch_bytes_def)

subsection \<open>Properties\<close>

text \<open>
  C38. Packet headers survive the wire: the header a sender writes in front of a packet is
  the header a receiver reads, the plain one and the one of a fragment, and the payload
  behind it is not touched.
\<close>

theorem header_roundtrip:
  assumes "10 \<le> length buf"
  shows "(\<exists>p. header_write h buf = Some p \<and> drop 4 p = drop 4 buf
      \<and> header_read p = Some (header_default\<lparr>h_message_type := h_message_type h, h_channel := h_channel h,
           h_sequence := h_sequence h\<rparr>))
    \<and> (\<exists>p. header_write_fragmented h buf = Some p \<and> drop 10 p = drop 10 buf
      \<and> header_read_fragmented p = Some (h\<lparr>h_start_sequence := 0, h_flags := 0\<rparr>))"
proof -
  have "overwrite buf 0 (hdr_bytes (h_message_type h) (h_channel h) (h_sequence h)) =
      hdr_bytes (h_message_type h) (h_channel h) (h_sequence h) @ drop 4 buf"
    "overwrite buf 0 (frag_bytes h) = frag_bytes h @ drop 10 buf"
    by (simp_all add: overwrite_def)
  with assms show ?thesis
    by (simp add: header_write_eq header_write_fragmented_eq header_read_prefix header_read_fragmented_prefix)
qed

theorem header_roundtrip_witness:
  "\<exists>p. header_write_fragmented (header_create_fragmented 9 1 2 8 3) (replicate 12 5) = Some p
     \<and> header_read_fragmented p = Some (header_create_fragmented 9 1 2 8 3)"
  using header_roundtrip [of "replicate 12 5" "header_create_fragmented 9 1 2 8 3"]
  by (auto simp: header_create_fragmented_def header_default_def)

text \<open>
  Identity messages survive the wire: the \<open>ConnectionHeader\<close> a client writes is the one
  the server reads.
\<close>

lemma connection_header_roundtrip:
  assumes "9 \<le> length buf"
  shows "\<exists>p. ch_write h buf = Some p \<and> ch_read p = Some h \<and> length p = length buf"
proof -
  have "overwrite buf 0 (ch_bytes h) = ch_bytes h @ drop 9 buf" by (simp add: overwrite_def)
  with assms show ?thesis by (simp add: ch_write_eq ch_read_prefix)
qed

theorem connection_header_roundtrip_witness:
  "\<exists>p. ch_write \<lparr>ch_message_type = 6, ch_id = 70000, ch_session_id = 5\<rparr> (replicate 12 0) = Some p
     \<and> ch_read p = Some \<lparr>ch_message_type = 6, ch_id = 70000, ch_session_id = 5\<rparr>"
  using connection_header_roundtrip [of "replicate 12 0" "\<lparr>ch_message_type = 6, ch_id = 70000, ch_session_id = 5\<rparr>"]
  by auto

end
