(* ===== verification/Nack.thy ===== *)
theory Nack
  imports Sequence_Buffer Header
begin

text \<open>
  \<^verbatim>\<open>src/src/tachyon/nack.rs\<close>: a nack names one missing sequence number and, by the bits
  of \<open>flags\<close>, which of the 32 numbers before it are missing too. The varint encoding comes
  from the crate \<open>varuint\<close>, which is not part of the repository: the bytes it writes for a
  value (\<open>vw\<close>) and what it reads at a cursor (\<open>vr\<close>, for a width in bits) are arguments of
  the definitions that use it. A cursor that runs past the slice is an error, on which the
  code's \<open>unwrap\<close> panics.
\<close>

record nack =
  n_start_sequence :: u16
  n_flags :: u32
  n_nacked_count :: u32
  n_sent_count :: u32

definition nack_default :: nack where
  "nack_default = \<lparr>n_start_sequence = 0, n_flags = 0, n_nacked_count = 0, n_sent_count = 0\<rparr>"

text \<open>The shift amount of \<open>1 << index\<close> is taken modulo the width of \<open>u32\<close>.\<close>

definition nack_mask :: "nat \<Rightarrow> u32" where
  "nack_mask index = push_bit (index mod 32) 1"

definition get_bits :: "nack \<Rightarrow> nat \<Rightarrow> bool" where
  "get_bits self index = ((n_flags self AND nack_mask index) = nack_mask index)"

definition set_bits :: "nack \<Rightarrow> nat \<Rightarrow> bool \<Rightarrow> nack" where
  "set_bits self index value =
     (if value then self\<lparr>n_flags := n_flags self OR nack_mask index\<rparr>
      else self\<lparr>n_flags := n_flags self AND NOT (nack_mask index)\<rparr>)"

fun get_flagged_loop :: "nack \<Rightarrow> nat list \<Rightarrow> u16 \<Rightarrow> u16 list \<Rightarrow> u16 list" where
  "get_flagged_loop self [] seq sequences = sequences"
| "get_flagged_loop self (i # is) seq sequences =
     get_flagged_loop self is (previous_sequence seq)
       (if get_bits self i then sequences @ [seq] else sequences)"

definition get_flagged :: "nack \<Rightarrow> u16 list \<Rightarrow> u16 list" where
  "get_flagged self sequences =
     get_flagged_loop self [0..<32] (previous_sequence (n_start_sequence self)) sequences"

definition get_nacked :: "nack \<Rightarrow> u16 list \<Rightarrow> u16 list" where
  "get_nacked self sequences = get_flagged self (sequences @ [n_start_sequence self])"

fun is_flagged_loop :: "nack \<Rightarrow> u16 \<Rightarrow> nat list \<Rightarrow> u16 \<Rightarrow> bool" where
  "is_flagged_loop self sequence [] seq = False"
| "is_flagged_loop self sequence (i # is) seq =
     (if seq = sequence then get_bits self i
      else is_flagged_loop self sequence is (previous_sequence seq))"

definition is_flagged :: "nack \<Rightarrow> u16 \<Rightarrow> bool" where
  "is_flagged self sequence =
     is_flagged_loop self sequence [0..<32] (previous_sequence (n_start_sequence self))"

definition is_nacked :: "nack \<Rightarrow> u16 \<Rightarrow> bool" where
  "is_nacked self sequence \<longleftrightarrow>
     (if n_start_sequence self = sequence then True else is_flagged self sequence)"

fun set_flagged_loop :: "nack \<Rightarrow> u16 \<Rightarrow> nat list \<Rightarrow> u16 \<Rightarrow> nack" where
  "set_flagged_loop self sequence [] seq = self"
| "set_flagged_loop self sequence (i # is) seq =
     (if seq = sequence then set_bits self i True
      else set_flagged_loop self sequence is (previous_sequence seq))"

definition set_flagged :: "nack \<Rightarrow> u16 \<Rightarrow> nack" where
  "set_flagged self sequence =
     set_flagged_loop self sequence [0..<32] (previous_sequence (n_start_sequence self))"

subsection \<open>Encodings\<close>

fun nack_write_loop :: "int_buffer \<Rightarrow> nack list \<Rightarrow> bytes \<Rightarrow> (int_buffer \<times> bytes) option" where
  "nack_write_loop buffer [] data = Some (buffer, data)"
| "nack_write_loop buffer (nack # nacks) data = do {
     (buffer, data) \<leftarrow> write_u16 buffer (n_start_sequence nack) data;
     (buffer, data) \<leftarrow> write_u32 buffer (n_flags nack) data;
     nack_write_loop buffer nacks data }"

definition nack_write :: "nack list \<Rightarrow> bytes \<Rightarrow> nat \<Rightarrow> (nat \<times> bytes) option" where
  "nack_write nacks data position =
     (if length nacks = 0 then Some (0, data)
      else do {
        (buffer, data) \<leftarrow> write_u8 \<lparr>ib_index = position\<rparr> (word_of_nat (length nacks)) data;
        (buffer, data) \<leftarrow> nack_write_loop buffer nacks data;
        Some (ib_index buffer, data) })"

fun nack_read_loop :: "nat \<Rightarrow> int_buffer \<Rightarrow> u16 list \<Rightarrow> bytes \<Rightarrow> u16 list option" where
  "nack_read_loop 0 buffer sequences data = Some sequences"
| "nack_read_loop (Suc n) buffer sequences data = do {
     (s, buffer) \<leftarrow> read_u16 buffer data;
     (f, buffer) \<leftarrow> read_u32 buffer data;
     nack_read_loop n buffer
       (get_nacked (nack_default\<lparr>n_start_sequence := s, n_flags := f\<rparr>) sequences) data }"

definition nack_read :: "u16 list \<Rightarrow> bytes \<Rightarrow> nat \<Rightarrow> u16 list option" where
  "nack_read sequences data position = do {
     (count, buffer) \<leftarrow> read_u8 \<lparr>ib_index = position\<rparr> data;
     nack_read_loop (unat count) buffer sequences data }"

definition nack_read_single :: "u16 list \<Rightarrow> bytes \<Rightarrow> nat \<Rightarrow> u16 list option" where
  "nack_read_single sequences data position = do {
     (s, buffer) \<leftarrow> read_u16 \<lparr>ib_index = position\<rparr> data;
     if s = 0 then Some sequences
     else do {
       (f, buffer) \<leftarrow> read_u32 buffer data;
       Some (get_nacked (nack_default\<lparr>n_start_sequence := s, n_flags := f\<rparr>) sequences) } }"

definition nack_write_single :: "nack \<Rightarrow> bytes \<Rightarrow> nat \<Rightarrow> (nat \<times> bytes) option" where
  "nack_write_single nack data position = do {
     (buffer, data) \<leftarrow> write_u16 \<lparr>ib_index = position\<rparr> (n_start_sequence nack) data;
     (buffer, data) \<leftarrow> write_u32 buffer (n_flags nack) data;
     Some (ib_index buffer, data) }"

text \<open>\<open>cursor.write_varint(v).unwrap()\<close> and \<open>ReadVarint::read_varint(&mut cursor).unwrap()\<close>.\<close>

definition cursor_write :: "(nat \<Rightarrow> bytes) \<Rightarrow> nat \<Rightarrow> bytes \<Rightarrow> nat \<Rightarrow> (nat \<times> bytes) option" where
  "cursor_write vw v data pos =
     (if pos + length (vw v) \<le> length data
      then Some (pos + length (vw v), overwrite data pos (vw v)) else None)"

definition cursor_read :: "(nat \<Rightarrow> bytes \<Rightarrow> (nat \<times> nat) option) \<Rightarrow> nat \<Rightarrow> bytes \<Rightarrow> nat \<Rightarrow> (nat \<times> nat) option" where
  "cursor_read vr width data pos = do {
     (v, n) \<leftarrow> vr width (drop pos data);
     Some (v, pos + n) }"

fun nack_write_varint_loop :: "(nat \<Rightarrow> bytes) \<Rightarrow> nack list \<Rightarrow> bytes \<Rightarrow> nat \<Rightarrow> (nat \<times> bytes) option" where
  "nack_write_varint_loop vw [] data pos = Some (pos, data)"
| "nack_write_varint_loop vw (nack # nacks) data pos = do {
     (pos, data) \<leftarrow> cursor_write vw (unat (n_start_sequence nack)) data pos;
     (pos, data) \<leftarrow> cursor_write vw (unat (n_flags nack)) data pos;
     nack_write_varint_loop vw nacks data pos }"

definition nack_write_varint :: "(nat \<Rightarrow> bytes) \<Rightarrow> nack list \<Rightarrow> bytes \<Rightarrow> nat \<Rightarrow> (nat \<times> bytes) option" where
  "nack_write_varint vw nacks data position =
     (if length nacks = 0 then Some (0, data)
      else do {
        (pos, data) \<leftarrow> cursor_write vw (unat (word_of_nat (length nacks) :: u16)) data position;
        nack_write_varint_loop vw nacks data pos })"

fun nack_read_varint_loop ::
  "(nat \<Rightarrow> bytes \<Rightarrow> (nat \<times> nat) option) \<Rightarrow> nat \<Rightarrow> u16 list \<Rightarrow> bytes \<Rightarrow> nat \<Rightarrow> u16 list option" where
  "nack_read_varint_loop vr 0 sequences data pos = Some sequences"
| "nack_read_varint_loop vr (Suc n) sequences data pos = do {
     (s, pos) \<leftarrow> cursor_read vr 16 data pos;
     (f, pos) \<leftarrow> cursor_read vr 32 data pos;
     nack_read_varint_loop vr n
       (get_nacked (nack_default\<lparr>n_start_sequence := word_of_nat s, n_flags := word_of_nat f\<rparr>) sequences)
       data pos }"

definition nack_read_varint ::
  "(nat \<Rightarrow> bytes \<Rightarrow> (nat \<times> nat) option) \<Rightarrow> u16 list \<Rightarrow> bytes \<Rightarrow> nat \<Rightarrow> u16 list option" where
  "nack_read_varint vr sequences data position = do {
     (count, pos) \<leftarrow> cursor_read vr 32 data position;
     nack_read_varint_loop vr count sequences data pos }"

subsection \<open>Bits\<close>

lemma bit_nack_mask: "i < 32 \<Longrightarrow> j < 32 \<Longrightarrow> bit (nack_mask i) j \<longleftrightarrow> i = j"
  by (auto simp: nack_mask_def bit_simps)

lemma get_bits_bit: "i < 32 \<Longrightarrow> get_bits n i \<longleftrightarrow> bit (n_flags n) i"
proof -
  assume i: "i < 32"
  have "get_bits n i \<longleftrightarrow> (\<forall>j<32. bit (nack_mask i) j \<longrightarrow> bit (n_flags n) j)"
    unfolding get_bits_def bit_eq_iff
    by (auto simp: bit_and_iff dest: bit_imp_le_length)
  then show ?thesis using i by (auto simp: bit_nack_mask)
qed

lemma get_bits_set_bits:
  "i < 32 \<Longrightarrow> j < 32 \<Longrightarrow> get_bits (set_bits n i v) j \<longleftrightarrow> (if i = j then v else get_bits n j)"
  by (auto simp: get_bits_bit set_bits_def bit_or_iff bit_and_iff bit_not_iff bit_nack_mask)

lemma set_bits_frame [simp, frame_simps]:
  "n_start_sequence (set_bits n i v) = n_start_sequence n"
  "n_nacked_count (set_bits n i v) = n_nacked_count n"
  "n_sent_count (set_bits n i v) = n_sent_count n"
  by (simp_all add: set_bits_def)

subsection \<open>The window of a nack\<close>

text \<open>The \<open>i\<close>-th number before the start of the nack.\<close>

definition nack_seq :: "nack \<Rightarrow> nat \<Rightarrow> u16" where
  "nack_seq n i = (previous_sequence ^^ Suc i) (n_start_sequence n)"

lemma previous_walk:
  "k < 65534 \<Longrightarrow> (previous_sequence ^^ Suc k) s = seq_of (unat s + 65534 - k)"
proof -
  assume k: "k < 65534"
  have "previous_sequence s = seq_of (unat s + 65534)"
  proof (cases "s = 65535")
    case False
    then have "seq_of (Suc (unat s + 65534)) = s"
      using seq_of_unat [of s] by (simp add: seq_of_def)
    with previous_seq_of [of "unat s + 65534"] show ?thesis by simp
  qed (simp add: previous_sequence_def seq_of_def)
  with k sn.prv_walk [of k "unat s + 65534"] show ?thesis
    by (simp add: funpow_swap1 del: funpow.simps) (simp add: funpow_Suc_right del: funpow.simps)
qed

lemma nack_seq_seq_of: "i < 65534 \<Longrightarrow> nack_seq n i = seq_of (unat (n_start_sequence n) + 65534 - i)"
  by (simp add: nack_seq_def previous_walk del: funpow.simps)

lemma nack_seq_inject: "i < 32 \<Longrightarrow> j < 32 \<Longrightarrow> nack_seq n i = nack_seq n j \<longleftrightarrow> i = j"
  using sn.sq_eq_iff [of "unat (n_start_sequence n) + 65534 - i" "unat (n_start_sequence n) + 65534 - j"]
  by (auto simp: nack_seq_seq_of)

lemma get_flagged_loop_eq:
  "get_flagged_loop n [a..<a + k] (nack_seq n a) xs =
     xs @ map (nack_seq n) (filter (get_bits n) [a..<a + k])"
proof (induction k arbitrary: a xs)
  case (Suc k)
  have "previous_sequence (nack_seq n a) = nack_seq n (Suc a)" by (simp add: nack_seq_def)
  with Suc.IH [of "Suc a"] show ?case
    by (simp add: upt_conv_Cons del: upt_Suc)
qed simp

lemma nack_seq_0: "previous_sequence (n_start_sequence n) = nack_seq n 0"
  by (simp add: nack_seq_def)

lemma get_flagged_eq: "get_flagged n xs = xs @ map (nack_seq n) (filter (get_bits n) [0..<32])"
  using get_flagged_loop_eq [of n 0 32 xs] by (simp add: get_flagged_def nack_seq_0 del: upt_Suc)

lemma get_nacked_eq:
  "get_nacked n xs = xs @ n_start_sequence n # map (nack_seq n) (filter (get_bits n) [0..<32])"
  by (simp add: get_nacked_def get_flagged_eq del: upt_Suc)

lemma get_nacked_append: "get_nacked n xs = xs @ get_nacked n []"
  by (simp add: get_nacked_eq del: upt_Suc)

lemma is_flagged_loop_eq:
  "a + k \<le> 32 \<Longrightarrow> is_flagged_loop n s [a..<a + k] (nack_seq n a) \<longleftrightarrow>
     (\<exists>i. a \<le> i \<and> i < a + k \<and> s = nack_seq n i \<and> get_bits n i)"
proof (induction k arbitrary: a)
  case (Suc k)
  have "previous_sequence (nack_seq n a) = nack_seq n (Suc a)" by (simp add: nack_seq_def)
  moreover have "[a..<a + Suc k] = a # [Suc a..<Suc a + k]" by (simp add: upt_conv_Cons del: upt_Suc)
  moreover have "\<not> (a \<le> i \<and> i < a + Suc k \<and> nack_seq n a = nack_seq n i \<and> i \<noteq> a)" for i
    using Suc.prems nack_seq_inject [of a i n] by auto
  ultimately show ?case
    using Suc.IH [of "Suc a"] Suc.prems
    by (auto simp del: upt_Suc simp: Suc_le_eq) (metis order_le_less)+
qed simp

lemma is_flagged_iff: "is_flagged n s \<longleftrightarrow> (\<exists>i<32. s = nack_seq n i \<and> get_bits n i)"
  using is_flagged_loop_eq [of 0 32 n s] by (auto simp: is_flagged_def nack_seq_0 simp del: upt_Suc)

lemma is_nacked_iff: "is_nacked n s \<longleftrightarrow> s \<in> set (get_nacked n [])"
  by (auto simp: is_nacked_def is_flagged_iff get_nacked_eq simp del: upt_Suc)

lemma set_flagged_loop_hit:
  "a + k \<le> 32 \<Longrightarrow> a \<le> i \<Longrightarrow> i < a + k \<Longrightarrow>
   set_flagged_loop n (nack_seq n i) [a..<a + k] (nack_seq n a) = set_bits n i True"
proof (induction k arbitrary: a)
  case (Suc k)
  have "previous_sequence (nack_seq n a) = nack_seq n (Suc a)" by (simp add: nack_seq_def)
  moreover have "[a..<a + Suc k] = a # [Suc a..<Suc a + k]" by (simp add: upt_conv_Cons del: upt_Suc)
  ultimately show ?case
    using Suc.IH [of "Suc a"] Suc.prems nack_seq_inject [of a i n] by (cases "i = a") (auto simp del: upt_Suc)
qed simp

lemma set_flagged_loop_miss:
  "\<forall>i. a \<le> i \<and> i < a + k \<longrightarrow> s \<noteq> nack_seq n i \<Longrightarrow>
   set_flagged_loop n s [a..<a + k] (nack_seq n a) = n"
proof (induction k arbitrary: a)
  case (Suc k)
  have "previous_sequence (nack_seq n a) = nack_seq n (Suc a)" by (simp add: nack_seq_def)
  moreover have "[a..<a + Suc k] = a # [Suc a..<Suc a + k]" by (simp add: upt_conv_Cons del: upt_Suc)
  moreover have "nack_seq n a \<noteq> s" using Suc.prems by fastforce
  ultimately show ?case
    using Suc.IH [of "Suc a"] Suc.prems by (simp del: upt_Suc)
qed simp

lemma set_flagged_hit: "i < 32 \<Longrightarrow> set_flagged n (nack_seq n i) = set_bits n i True"
  using set_flagged_loop_hit [of 0 32 i n] by (simp add: set_flagged_def nack_seq_0 del: upt_Suc)

lemma set_flagged_miss: "\<forall>i<32. s \<noteq> nack_seq n i \<Longrightarrow> set_flagged n s = n"
  using set_flagged_loop_miss [of 0 32 s n] by (simp add: set_flagged_def nack_seq_0 del: upt_Suc)

lemma nack_seq_set_bits [simp]: "nack_seq (set_bits n i v) = nack_seq n"
  by (simp add: nack_seq_def fun_eq_iff)

lemma is_flagged_set_flagged:
  "is_flagged (set_flagged n s) t \<longleftrightarrow> is_flagged n t \<or> (t = s \<and> (\<exists>i<32. s = nack_seq n i))"
proof (cases "\<exists>i<32. s = nack_seq n i")
  case True
  then obtain i where i: "i < 32" "s = nack_seq n i" by blast
  then show ?thesis
    by (auto simp: set_flagged_hit is_flagged_iff get_bits_set_bits nack_seq_inject)
qed (auto simp: set_flagged_miss)

subsection \<open>The encodings are inverse to each other\<close>

definition nack_bytes :: "nack \<Rightarrow> bytes" where
  "nack_bytes n = enc_u16 (n_start_sequence n) @ enc_u32 (n_flags n)"

definition nack_vbytes :: "(nat \<Rightarrow> bytes) \<Rightarrow> nack \<Rightarrow> bytes" where
  "nack_vbytes vw n = vw (unat (n_start_sequence n)) @ vw (unat (n_flags n))"

lemma length_nack_bytes [simp]: "length (nack_bytes n) = 6"
  by (simp add: nack_bytes_def)

lemma length_concat_nack_bytes [simp]: "length (concat (map nack_bytes ns)) = 6 * length ns"
  by (induction ns) simp_all

lemma get_nacked_default:
  "get_nacked (nack_default\<lparr>n_start_sequence := n_start_sequence n, n_flags := n_flags n\<rparr>) xs = get_nacked n xs"
proof -
  let ?m = "nack_default\<lparr>n_start_sequence := n_start_sequence n, n_flags := n_flags n\<rparr>"
  have "get_bits ?m = get_bits n" "nack_seq ?m = nack_seq n"
    by (simp_all add: fun_eq_iff get_bits_def nack_seq_def)
  then show ?thesis by (simp add: get_nacked_eq del: upt_Suc)
qed

lemma nack_write_loop_eq:
  "nack_write_loop b ns d = (if ib_index b + 6 * length ns \<le> length d
     then Some (b\<lparr>ib_index := ib_index b + 6 * length ns\<rparr>, overwrite d (ib_index b) (concat (map nack_bytes ns)))
     else if ns = [] then Some (b, d) else None)"
proof (induction ns arbitrary: b d)
  case (Cons n ns)
  then show ?case
    by (auto simp: codec_writes nack_bytes_def [of n])
qed simp

lemma nack_read_loop_eq:
  assumes "drop (ib_index b) d = concat (map nack_bytes ns) @ rest"
  shows "nack_read_loop (length ns) b xs d = Some (xs @ concat (map (\<lambda>n. get_nacked n []) ns))"
  using assms
proof (induction ns arbitrary: b xs)
  case (Cons n ns)
  have len: "ib_index b + 6 \<le> length d"
    using arg_cong [OF Cons.prems, of length] by simp
  have "drop (ib_index b + 2) d = drop 2 (drop (ib_index b) d)"
    "drop (ib_index b + 6) d = drop 6 (drop (ib_index b) d)" by (simp_all add: add.commute)
  then have "take 2 (drop (ib_index b) d) = enc_u16 (n_start_sequence n)"
    "take 4 (drop (ib_index b + 2) d) = enc_u32 (n_flags n)"
    "drop (ib_index b + 6) d = concat (map nack_bytes ns) @ rest"
    using Cons.prems by (simp_all add: nack_bytes_def [of n])
  then show ?case
    using len Cons.IH [of "b\<lparr>ib_index := ib_index b + 6\<rparr>"]
    by (simp add: codec_reads get_nacked_default get_nacked_append [of n xs] add.commute)
qed simp

lemma nack_write_varint_loop_eq:
  "nack_write_varint_loop vw ns d p = Some (p', d') \<Longrightarrow> p \<le> length d \<Longrightarrow>
     p' = p + length (concat (map (nack_vbytes vw) ns)) \<and> p' \<le> length d
     \<and> d' = overwrite d p (concat (map (nack_vbytes vw) ns))"
proof (induction ns arbitrary: d p)
  case (Cons n ns)
  then show ?case
    by (auto simp: cursor_write_def nack_vbytes_def [of vw n] split: if_splits dest!: Cons.IH)
qed simp

lemma nack_read_varint_loop_eq:
  assumes vr: "\<And>w v rest. w \<le> 32 \<Longrightarrow> v < 2 ^ w \<Longrightarrow> vr w (vw v @ rest) = Some (v, length (vw v))"
    and "drop p d = concat (map (nack_vbytes vw) ns) @ rest"
  shows "nack_read_varint_loop vr (length ns) xs d p = Some (xs @ concat (map (\<lambda>n. get_nacked n []) ns))"
  using assms(2)
proof (induction ns arbitrary: p xs)
  case (Cons n ns)
  let ?s = "vw (unat (n_start_sequence n))" and ?f = "vw (unat (n_flags n))"
  have "drop (p + length ?s) d = drop (length ?s) (drop p d)"
    "drop (p + length ?s + length ?f) d = drop (length ?f) (drop (length ?s) (drop p d))"
    by (simp_all add: add.commute add.left_commute)
  with Cons.prems have
    "drop p d = ?s @ ?f @ concat (map (nack_vbytes vw) ns) @ rest"
    "drop (p + length ?s) d = ?f @ concat (map (nack_vbytes vw) ns) @ rest"
    "drop (p + length ?s + length ?f) d = concat (map (nack_vbytes vw) ns) @ rest"
    by (simp_all add: nack_vbytes_def [of vw n])
  moreover have "unat (n_start_sequence n) < 2 ^ 16" "unat (n_flags n) < 2 ^ 32"
    using unsigned_less [of "n_start_sequence n", where ?'a = nat]
      unsigned_less [of "n_flags n", where ?'a = nat] by simp_all
  ultimately show ?case
    using Cons.IH [of "p + length ?s + length ?f"]
    by (simp add: cursor_read_def vr get_nacked_default get_nacked_append [of n xs])
qed simp

lemma nack_write_varint_loop_room:
  "p + length (concat (map (nack_vbytes vw) ns)) \<le> length d \<Longrightarrow>
   nack_write_varint_loop vw ns d p = Some (p + length (concat (map (nack_vbytes vw) ns)),
     overwrite d p (concat (map (nack_vbytes vw) ns)))"
proof (induction ns arbitrary: d p)
  case (Cons n ns)
  then show ?case by (simp add: cursor_write_def nack_vbytes_def [of vw n])
qed simp

definition nack_list_vbytes :: "(nat \<Rightarrow> bytes) \<Rightarrow> nack list \<Rightarrow> bytes" where
  "nack_list_vbytes vw ns = vw (length ns) @ concat (map (nack_vbytes vw) ns)"

lemma nack_write_varint_room:
  assumes "ns \<noteq> []" "length ns < 65536" "pos + length (nack_list_vbytes vw ns) \<le> length d"
  shows "nack_write_varint vw ns d pos =
    Some (pos + length (nack_list_vbytes vw ns), overwrite d pos (nack_list_vbytes vw ns))"
  using assms nack_write_varint_loop_room [of "pos + length (vw (length ns))" vw ns "overwrite d pos (vw (length ns))"]
  by (simp add: nack_write_varint_def cursor_write_def nack_list_vbytes_def unat_of_nat)

lemma nack_read_varint_prefix:
  assumes vr: "\<And>w v rest. w \<le> 32 \<Longrightarrow> v < 2 ^ w \<Longrightarrow> vr w (vw v @ rest) = Some (v, length (vw v))"
    and "length ns < 65536" and at: "drop pos d = nack_list_vbytes vw ns @ rest"
  shows "nack_read_varint vr xs d pos = Some (xs @ concat (map (\<lambda>n. get_nacked n []) ns))"
proof -
  have "drop (pos + length (vw (length ns))) d = drop (length (vw (length ns))) (drop pos d)"
    by (simp add: add.commute)
  then have "drop (pos + length (vw (length ns))) d = concat (map (nack_vbytes vw) ns) @ rest"
    by (simp add: at nack_list_vbytes_def)
  from nack_read_varint_loop_eq [where xs = xs, OF vr this] show ?thesis
    using vr [of 32 "length ns" "concat (map (nack_vbytes vw) ns) @ rest"] assms(2)
    by (simp add: nack_read_varint_def cursor_read_def at nack_list_vbytes_def)
qed

subsection \<open>Properties\<close>

text \<open>
  A nack names exactly the numbers it was told: \<open>is_nacked\<close> holds of precisely the
  numbers \<open>get_nacked\<close> lists, and flagging a number inside the window of a nack adds that
  number and no other.
\<close>

lemma nack_flags_exact:
  assumes "i < 32" "s = (previous_sequence ^^ Suc i) (n_start_sequence n)"
  shows "set (get_nacked (set_flagged n s) []) = insert s (set (get_nacked n []))
    \<and> (is_nacked (set_flagged n s) t \<longleftrightarrow> is_nacked n t \<or> t = s)"
proof -
  have s: "s = nack_seq n i" using assms(2) by (simp add: nack_seq_def)
  have "is_nacked (set_flagged n s) t \<longleftrightarrow> is_nacked n t \<or> t = s" for t
    using is_flagged_set_flagged [of n s t] assms(1) s by (auto simp: is_nacked_def set_flagged_hit)
  then show ?thesis using is_nacked_iff by blast
qed

theorem nack_flags_exact_witness:
  "set (get_nacked (set_flagged (nack_default\<lparr>n_start_sequence := 0\<rparr>) 65534) []) = {0, 65534}"
proof -
  have "get_nacked (nack_default\<lparr>n_start_sequence := 0\<rparr>) [] = [0]"
    by (simp add: get_nacked_eq nack_default_def get_bits_def nack_mask_def filter_empty_conv del: upt_Suc)
  then show ?thesis
    using nack_flags_exact [of 0 65534 "nack_default\<lparr>n_start_sequence := 0\<rparr>" 0]
    by (auto simp: previous_sequence_def)
qed

text \<open>
  Nack lists survive the wire: what \<open>Nack::write\<close> writes for up to 255 nacks,
  \<open>Nack::read\<close> turns into exactly the numbers the nacks name, in order.
\<close>

lemma nack_list_roundtrip:
  assumes "ns \<noteq> []" "length ns < 256" "pos + 1 + 6 * length ns \<le> length data"
  shows "\<exists>data'. nack_write ns data pos = Some (pos + 1 + 6 * length ns, data')
    \<and> nack_read xs data' pos = Some (xs @ concat (map (\<lambda>n. get_nacked n []) ns))"
proof -
  let ?bs = "enc_u8 (word_of_nat (length ns)) @ concat (map nack_bytes ns)"
  have "nack_write ns data pos = Some (pos + 1 + 6 * length ns, overwrite data pos ?bs)"
    using assms by (simp add: nack_write_def codec_writes nack_write_loop_eq)
  moreover have "nack_read xs (overwrite data pos ?bs) pos = Some (xs @ concat (map (\<lambda>n. get_nacked n []) ns))"
  proof -
    let ?d = "overwrite data pos ?bs" and ?b = "\<lparr>ib_index = pos + 1\<rparr>"
    have at: "drop pos ?d = ?bs @ drop (pos + length ?bs) data"
      using assms(3) by (simp add: overwrite_def)
    have "drop (pos + 1) ?d = drop 1 (drop pos ?d)" by (simp add: add.commute)
    then have "drop (ib_index ?b) ?d = concat (map nack_bytes ns) @ drop (pos + length ?bs) data"
      unfolding at by simp
    from nack_read_loop_eq [OF this] have
      "nack_read_loop (length ns) ?b xs ?d = Some (xs @ concat (map (\<lambda>n. get_nacked n []) ns))" .
    moreover have "take 1 (drop pos ?d) = enc_u8 (word_of_nat (length ns))" unfolding at by simp
    ultimately show ?thesis
      using assms by (simp add: nack_read_def codec_reads unat_of_nat)
  qed
  ultimately show ?thesis by blast
qed

theorem nack_list_roundtrip_witness:
  "\<exists>data'. nack_write [nack_default\<lparr>n_start_sequence := 9\<rparr>] (replicate 8 0) 1 = Some (8, data')
     \<and> nack_read [] data' 1 = Some [9]"
proof -
  have "get_nacked (nack_default\<lparr>n_start_sequence := 9\<rparr>) [] = [9]"
    by (simp add: get_nacked_eq nack_default_def get_bits_def nack_mask_def filter_empty_conv del: upt_Suc)
  then show ?thesis
    using nack_list_roundtrip [of "[nack_default\<lparr>n_start_sequence := 9\<rparr>]" 1 "replicate 8 0" "[]"] by simp
qed

lemma nack_varint_ok:
  assumes vr: "\<And>w v rest. w \<le> 32 \<Longrightarrow> v < 2 ^ w \<Longrightarrow> vr w (vw v @ rest) = Some (v, length (vw v))"
    and "ns \<noteq> []" "length ns < 65536" "pos \<le> length data"
    and w: "nack_write_varint vw ns data pos = Some (pos', data')"
  shows "nack_read_varint vr xs data' pos = Some (xs @ concat (map (\<lambda>n. get_nacked n []) ns))
    \<and> pos' \<le> length data \<and> length data' = length data"
proof -
  let ?c = "vw (length ns)" and ?b = "concat (map (nack_vbytes vw) ns)"
  have len: "unat (word_of_nat (length ns) :: u16) = length ns" using assms(3) by (simp add: unat_of_nat)
  have room: "pos + length ?c \<le> length data"
    and loop: "nack_write_varint_loop vw ns (overwrite data pos ?c) (pos + length ?c) = Some (pos', data')"
    using w assms(2) by (auto simp: nack_write_varint_def cursor_write_def len split: if_splits)
  have end': "pos' = pos + length ?c + length ?b" "pos' \<le> length data"
    "data' = overwrite (overwrite data pos ?c) (pos + length ?c) ?b"
    using nack_write_varint_loop_eq [OF loop] room by auto
  have at: "drop pos data' = ?c @ ?b @ drop pos' data"
    using end' room by (simp add: overwrite_def add.commute)
  have "drop (pos + length ?c) data' = drop (length ?c) (drop pos data')" by (simp add: add.commute)
  then have "drop (pos + length ?c) data' = ?b @ drop pos' data" unfolding at by simp
  from nack_read_varint_loop_eq [where xs = xs, OF vr this] show ?thesis
    using vr [of 32 "length ns" "?b @ drop pos' data"] assms(3) at end' room
    by (simp add: nack_read_varint_def cursor_read_def)
qed

text \<open>
  C37. Varint nack lists survive the wire: for a varint codec whose reader returns the value
  its writer wrote, with the number of bytes it took, for values of up to 32 bits,
  \<open>Nack::read_varint\<close> turns the bytes of \<open>Nack::write_varint\<close> into exactly the numbers the
  nacks name, whatever follows them.
\<close>

theorem nack_varint_roundtrip:
  assumes vr: "\<And>w v rest. w \<le> 32 \<Longrightarrow> v < 2 ^ w \<Longrightarrow> vr w (vw v @ rest) = Some (v, length (vw v))"
    and "ns \<noteq> []" "length ns < 65536" "pos \<le> length data"
    and w: "nack_write_varint vw ns data pos = Some (pos', data')"
  shows "nack_read_varint vr xs data' pos = Some (xs @ concat (map (\<lambda>n. get_nacked n []) ns))
    \<and> pos' \<le> length data \<and> length data' = length data"
  using assms by (rule nack_varint_ok)

text \<open>A codec of four bytes per value, and a list of one nack.\<close>

theorem nack_varint_roundtrip_witness:
  "\<exists>pos' data'. nack_write_varint (\<lambda>v. enc_u32 (word_of_nat v)) [nack_default\<lparr>n_start_sequence := 9\<rparr>]
       (replicate 20 0) 4 = Some (pos', data')
     \<and> nack_read_varint (\<lambda>w d. if 4 \<le> length d then Some (unat (dec_u32 (take 4 d)), 4) else None) [] data' 4 = Some [9]"
proof -
  let ?vw = "\<lambda>v. enc_u32 (word_of_nat v)"
  let ?vr = "\<lambda>w d. if 4 \<le> length d then Some (unat (dec_u32 (take 4 d)), 4) else None"
  let ?ns = "[nack_default\<lparr>n_start_sequence := 9\<rparr>]"
  have vr: "?vr w (?vw v @ rest) = Some (v, length (?vw v))" if "w \<le> 32" "v < 2 ^ w" for w v :: nat and rest
  proof -
    have "v < 2 ^ 32" using that by (meson less_le_trans one_le_numeral power_increasing)
    then show ?thesis by (simp add: unat_of_nat)
  qed
  have nacked: "get_nacked (nack_default\<lparr>n_start_sequence := 9\<rparr>) [] = [9]"
    by (simp add: get_nacked_eq nack_default_def get_bits_def nack_mask_def filter_empty_conv del: upt_Suc)
  obtain pos' data' where w: "nack_write_varint ?vw ?ns (replicate 20 0) 4 = Some (pos', data')"
    by (auto simp: nack_write_varint_def cursor_write_def)
  have "nack_read_varint ?vr [] data' 4 = Some [9]"
    using nack_varint_roundtrip [where vr = ?vr and vw = ?vw and xs = "[]", OF vr _ _ _ w] by (simp add: nacked)
  with w show ?thesis by blast
qed

end
