(* ===== verification/Byte_Buffer_Pool.thy ===== *)
theory Byte_Buffer_Pool
  imports Tachyon_Prelude
begin

text \<open>
  \<^verbatim>\<open>src/src/tachyon/byte_buffer_pool.rs\<close>: byte buffers with a logical length, and a pool
  that recycles those of the standard size. The locale \<open>buffer_source\<close> is what the
  receiver and the send buffer manager rely on: a request is answered by a buffer that
  has room for the requested length, and a buffer that is handed back keeps the pool
  well-formed.
\<close>

abbreviation (input) BYTE_BUFFER_SIZE_DEFAULT :: nat where "BYTE_BUFFER_SIZE_DEFAULT \<equiv> 1240"
abbreviation (input) POOL_SIZE_DEFAULT :: nat where "POOL_SIZE_DEFAULT \<equiv> 512"

record byte_buffer =
  bb_data :: bytes
  bb_length :: nat
  bb_pooled :: bool
  bb_version :: u64

definition bb_create :: "nat \<Rightarrow> byte_buffer" where
  "bb_create len = \<lparr>bb_data = replicate len 0, bb_length = len, bb_pooled = False, bb_version = 0\<rparr>"

record byte_buffer_pool =
  bp_buffer_size :: nat
  bp_pool_size :: nat
  bp_buffers :: "byte_buffer list"
  bp_count :: nat

definition bp_create :: "nat \<Rightarrow> nat \<Rightarrow> byte_buffer_pool" where
  "bp_create buffer_size max_buffers =
     \<lparr>bp_buffer_size = buffer_size, bp_pool_size = max_buffers, bp_buffers = [], bp_count = 0\<rparr>"

definition bp_default :: byte_buffer_pool where
  "bp_default = bp_create BYTE_BUFFER_SIZE_DEFAULT POOL_SIZE_DEFAULT"

definition bp_len :: "byte_buffer_pool \<Rightarrow> nat" where
  "bp_len self = length (bp_buffers self)"

definition return_buffer :: "byte_buffer_pool \<Rightarrow> byte_buffer \<Rightarrow> bool \<times> byte_buffer_pool" where
  "return_buffer self byte_buffer =
     (if bb_length byte_buffer \<le> bp_buffer_size self then
        if bp_count self < bp_pool_size self then
          let byte_buffer = byte_buffer\<lparr>bb_version := bb_version byte_buffer + 1\<rparr>
          in (True, self\<lparr>bp_buffers := bp_buffers self @ [byte_buffer], bp_count := bp_count self + 1\<rparr>)
        else (False, self)
      else (False, self))"

definition get_buffer :: "byte_buffer_pool \<Rightarrow> nat \<Rightarrow> (byte_buffer \<times> byte_buffer_pool) option" where
  "get_buffer self len =
     (if len > bp_buffer_size self then
        Some (\<lparr>bb_data = replicate len 0, bb_length = len, bb_pooled = False, bb_version = 0\<rparr>, self)
      else case bp_buffers self of
        pooled # rest \<Rightarrow> do {
          count \<leftarrow> usize_sub (bp_count self) 1;
          Some (pooled\<lparr>bb_length := len\<rparr>, self\<lparr>bp_buffers := rest, bp_count := count\<rparr>) }
      | [] \<Rightarrow>
          Some (\<lparr>bb_data = replicate (bp_buffer_size self) 0, bb_length = len, bb_pooled = True,
                 bb_version = 0\<rparr>, self))"

subsection \<open>Well-formedness\<close>

text \<open>The bytes a buffer stands for.\<close>

definition bb_content :: "byte_buffer \<Rightarrow> bytes" where
  "bb_content b = take (bb_length b) (bb_data b)"

text \<open>
  A buffer made for a pool of buffers of size \<open>n\<close>: of exactly that size and marked as
  pooled, or an oversized one of exactly its own length.
\<close>

definition bb_ok :: "nat \<Rightarrow> byte_buffer \<Rightarrow> bool" where
  "bb_ok n b \<longleftrightarrow>
     (if bb_pooled b then bb_length b \<le> n \<and> length (bb_data b) = n
      else n < bb_length b \<and> length (bb_data b) = bb_length b)"

definition bp_wf :: "byte_buffer_pool \<Rightarrow> bool" where
  "bp_wf p \<longleftrightarrow> bp_count p = length (bp_buffers p) \<and> bp_count p \<le> bp_pool_size p
     \<and> (\<forall>b \<in> set (bp_buffers p). bb_pooled b \<and> bb_ok (bp_buffer_size p) b)"

lemma bb_ok_room: "bb_ok n b \<Longrightarrow> bb_length b \<le> length (bb_data b)"
  by (auto simp: bb_ok_def split: if_splits)

lemma length_bb_content [simp]: "bb_ok n b \<Longrightarrow> length (bb_content b) = bb_length b"
  by (simp add: bb_content_def bb_ok_room min_absorb2)

subsection \<open>The interface\<close>

locale buffer_source =
  fixes inv :: "'p \<Rightarrow> bool"
    and size_of :: "'p \<Rightarrow> nat"
    and ok :: "nat \<Rightarrow> 'b \<Rightarrow> bool"
    and len :: "'b \<Rightarrow> nat"
    and data :: "'b \<Rightarrow> bytes"
    and set_data :: "'b \<Rightarrow> bytes \<Rightarrow> 'b"
    and get :: "'p \<Rightarrow> nat \<Rightarrow> ('b \<times> 'p) option"
    and ret :: "'p \<Rightarrow> 'b \<Rightarrow> bool \<times> 'p"
  assumes get_law: "inv p \<Longrightarrow>
      \<exists>b p'. get p n = Some (b, p') \<and> inv p' \<and> size_of p' = size_of p \<and> ok (size_of p) b \<and> len b = n"
    and ret_law: "inv p \<Longrightarrow> ok (size_of p) b \<Longrightarrow> inv (snd (ret p b)) \<and> size_of (snd (ret p b)) = size_of p"
    and ok_room: "ok m b \<Longrightarrow> len b \<le> length (data b)"
    and ok_set_data: "ok m b \<Longrightarrow> length xs = length (data b) \<Longrightarrow> ok m (set_data b xs)"
    and data_set_data: "data (set_data b xs) = xs"
    and len_set_data: "len (set_data b xs) = len b"
begin

text \<open>
  A client that takes a buffer for a message and copies the message to its front holds
  exactly the message, whatever the recycled buffer contained before.
\<close>

lemma fill:
  assumes "inv p" "length src = n"
  obtains b p' where "get p n = Some (b, p')" "inv p'" "size_of p' = size_of p"
    "ok (size_of p) b" "len b = n" "copy_into (data b) 0 n src = Some (overwrite (data b) 0 src)"
    "ok (size_of p) (set_data b (overwrite (data b) 0 src))"
    "take n (overwrite (data b) 0 src) = src"
proof -
  obtain b p' where b: "get p n = Some (b, p')" "inv p'" "size_of p' = size_of p"
    "ok (size_of p) b" "len b = n"
    using get_law [OF assms(1)] by blast
  then have "n \<le> length (data b)" using ok_room by blast
  with b assms(2) show ?thesis
    by (intro that [of b p']) (auto intro: ok_set_data simp: overwrite_def)
qed

text \<open>Recycling: a buffer that goes back can be requested again.\<close>

lemma ret_then_get:
  assumes "inv p" "ok (size_of p) b"
  shows "\<exists>b' p'. get (snd (ret p b)) n = Some (b', p') \<and> inv p' \<and> len b' = n"
  using get_law [of "snd (ret p b)" n] ret_law [OF assms] by metis

end

interpretation bp: buffer_source bp_wf bp_buffer_size bb_ok bb_length bb_data
  "\<lambda>b xs. b\<lparr>bb_data := xs\<rparr>" get_buffer return_buffer
proof unfold_locales
  fix p n
  assume "bp_wf p"
  then show "\<exists>b p'. get_buffer p n = Some (b, p') \<and> bp_wf p' \<and> bp_buffer_size p' = bp_buffer_size p
      \<and> bb_ok (bp_buffer_size p) b \<and> bb_length b = n"
    by (cases "bp_buffers p") (auto simp: get_buffer_def bp_wf_def bb_ok_def)
next
  fix p b
  assume "bp_wf p" "bb_ok (bp_buffer_size p) b"
  then show "bp_wf (snd (return_buffer p b))
      \<and> bp_buffer_size (snd (return_buffer p b)) = bp_buffer_size p"
    by (auto simp: return_buffer_def bp_wf_def bb_ok_def Let_def split: if_splits)
qed (auto simp: bb_ok_def split: if_splits)

lemma bp_wf_create [simp]: "bp_wf (bp_create n m)"
  by (simp add: bp_create_def bp_wf_def)

lemma bp_buffer_size_create [simp]: "bp_buffer_size (bp_create n m) = n"
  by (simp add: bp_create_def)

subsection \<open>Properties\<close>

text \<open>
  The pool always answers: on a well-formed pool a request does not panic, the buffer
  has room for the requested length, and pool and buffer are again well-formed; and a
  buffer that came from the pool can be handed back.
\<close>

lemma pool_invariant:
  assumes "bp_wf p" "bb_ok (bp_buffer_size p) old"
  shows "\<exists>b p'. get_buffer p n = Some (b, p') \<and> bp_wf p' \<and> bb_ok (bp_buffer_size p') b \<and> bb_length b = n
    \<and> n \<le> length (bb_data b) \<and> bp_wf (snd (return_buffer p old))"
  using bp.get_law [OF assms(1), of n] bp.ret_law [OF assms] bp.ok_room by metis

theorem pool_invariant_witness:
  "\<exists>b p'. get_buffer bp_default 2000 = Some (b, p') \<and> bb_length b = 2000 \<and> 2000 \<le> length (bb_data b)"
proof -
  have "bp_wf bp_default" "bb_ok (bp_buffer_size bp_default) (bb_create 1300)"
    by (simp_all add: bp_default_def bp_create_def bp_wf_def bb_ok_def bb_create_def)
  from pool_invariant [OF this, of 2000] show ?thesis by blast
qed

text \<open>
  No stale bytes: a message copied into a requested buffer, whatever the buffer held
  before, is exactly the content the buffer stands for.
\<close>

lemma no_stale_bytes:
  assumes "bp_wf p" "get_buffer p (length src) = Some (b, p')"
  shows "\<exists>d. copy_into (bb_data b) 0 (length src) src = Some d \<and> bb_content (b\<lparr>bb_data := d\<rparr>) = src"
proof -
  obtain c q where "get_buffer p (length src) = Some (c, q)" "bb_length c = length src"
    "copy_into (bb_data c) 0 (length src) src = Some (overwrite (bb_data c) 0 src)"
    "take (length src) (overwrite (bb_data c) 0 src) = src"
    by (rule bp.fill [OF assms(1) refl])
  with assms(2) show ?thesis by (simp add: bb_content_def)
qed

theorem no_stale_bytes_witness:
  "\<exists>b p' d. get_buffer bp_default 2 = Some (b, p') \<and> copy_into (bb_data b) 0 2 [4, 5] = Some d
     \<and> bb_content (b\<lparr>bb_data := d\<rparr>) = [4, 5]"
proof -
  obtain b p' where g: "get_buffer bp_default (length [4, 5 :: u8]) = Some (b, p')"
    by (auto simp: get_buffer_def bp_default_def bp_create_def)
  have wf: "bp_wf bp_default" by (simp add: bp_default_def)
  have two: "length [4, 5 :: u8] = 2" by simp
  from no_stale_bytes [OF wf g] g show ?thesis unfolding two by blast
qed

end
