(* ===== verification/Receiver.thy ===== *)
theory Receiver
  imports Nack Byte_Buffer_Pool
begin

text \<open>
  \<^verbatim>\<open>src/src/tachyon/receiver.rs\<close>: the receive window of a channel. \<open>current_sequence\<close> is
  the last number that was delivered in order, \<open>last_sequence\<close> the newest number seen;
  \<open>received\<close> flags the numbers in between that have arrived, \<open>buffered\<close> holds their
  packets until \<open>publish\<close> moves them to the queue \<open>published\<close>.
\<close>

abbreviation (input) RECEIVE_BUFFER_SIZE :: u16 where "RECEIVE_BUFFER_SIZE \<equiv> 1024"
abbreviation (input) RECEIVE_WINDOW_SIZE_DEFAULT :: u32 where "RECEIVE_WINDOW_SIZE_DEFAULT \<equiv> 512"

record receiver =
  r_is_ordered :: bool
  r_receive_window_size :: u32
  r_last_sequence :: u16
  r_current_sequence :: u16
  r_buffered :: "byte_buffer sequence_buffer"
  r_published :: "byte_buffer list"
  r_received :: "bool sequence_buffer"
  r_resend_list :: "u16 list"
  r_nack_list :: "nack list"
  r_nack_queue :: "nack list"
  r_skipped_sequences :: u64
  r_buffer_pool :: byte_buffer_pool

definition receiver_create :: "bool \<Rightarrow> u32 \<Rightarrow> receiver" where
  "receiver_create is_ordered receive_window_size =
     \<lparr>r_is_ordered = is_ordered,
      r_receive_window_size = receive_window_size,
      r_last_sequence = 0,
      r_current_sequence = 0,
      r_buffered = \<lparr>sb_values = replicate (unat RECEIVE_BUFFER_SIZE) None,
                    sb_partition_by = RECEIVE_BUFFER_SIZE\<rparr>,
      r_published = [],
      r_received = \<lparr>sb_values = replicate (unat RECEIVE_BUFFER_SIZE) None,
                    sb_partition_by = RECEIVE_BUFFER_SIZE\<rparr>,
      r_resend_list = [],
      r_nack_list = [],
      r_nack_queue = [],
      r_skipped_sequences = 0,
      r_buffer_pool = bp_default\<rparr>"

definition receiver_default :: "bool \<Rightarrow> receiver" where
  "receiver_default is_ordered = receiver_create is_ordered RECEIVE_WINDOW_SIZE_DEFAULT"

text \<open>The start of the window is computed in \<open>i32\<close>, moved up by 65535 when it is
  negative, and truncated to \<open>u16\<close>.\<close>

definition window_start :: "u16 \<Rightarrow> u32 \<Rightarrow> u16" where
  "window_start lst window =
     (let start = (ucast lst :: u32) - window;
          start = (if sint start < 0 then 65535 + start else start)
      in ucast start)"

definition calculate_current_in_window :: "u16 \<Rightarrow> u16 \<Rightarrow> u16" where
  "calculate_current_in_window current lst =
     (if current = lst then current
      else if is_greater_then (window_start lst RECEIVE_WINDOW_SIZE_DEFAULT) current
      then window_start lst RECEIVE_WINDOW_SIZE_DEFAULT
      else current)"

definition should_increment_current :: "u16 \<Rightarrow> u16 \<Rightarrow> u32 \<Rightarrow> bool" where
  "should_increment_current current lst receive_window_size =
     (if current = lst then False
      else if is_greater_then (window_start lst receive_window_size) current then True
      else False)"

definition receiver_return_buffer :: "receiver \<Rightarrow> byte_buffer \<Rightarrow> receiver" where
  "receiver_return_buffer self byte_buffer =
     self\<lparr>r_buffer_pool := snd (return_buffer (r_buffer_pool self) byte_buffer)\<rparr>"

definition take_published :: "receiver \<Rightarrow> byte_buffer option \<times> receiver" where
  "take_published self =
     (case r_published self of
        [] \<Rightarrow> (None, self)
      | b # rest \<Rightarrow> (Some b, self\<lparr>r_published := rest\<rparr>))"

definition is_buffered :: "receiver \<Rightarrow> u16 \<Rightarrow> bool option" where
  "is_buffered self sequence = sb_is_some (r_buffered self) sequence"

definition is_received :: "receiver \<Rightarrow> u16 \<Rightarrow> bool option" where
  "is_received self sequence = sb_is_some (r_received self) sequence"

definition set_received :: "receiver \<Rightarrow> u16 \<Rightarrow> receiver option" where
  "set_received self sequence = do {
     b \<leftarrow> sb_insert (r_received self) sequence True;
     Some (self\<lparr>r_received := b\<rparr>) }"

definition set_buffered :: "receiver \<Rightarrow> u16 \<Rightarrow> bytes \<Rightarrow> nat \<Rightarrow> receiver option" where
  "set_buffered self sequence data len = do {
     (byte_buffer, pool) \<leftarrow> get_buffer (r_buffer_pool self) len;
     let self = self\<lparr>r_buffer_pool := pool\<rparr>;
     src \<leftarrow> slice data 0 len;
     d \<leftarrow> copy_into (bb_data byte_buffer) 0 len src;
     b \<leftarrow> sb_insert (r_buffered self) sequence (byte_buffer\<lparr>bb_data := d\<rparr>);
     Some (self\<lparr>r_buffered := b\<rparr>) }"

text \<open>The clearing of a flag: \<open>self.received.take(s);\<close> and \<open>self.received.remove(s);\<close>.\<close>

definition remove_received :: "receiver \<Rightarrow> u16 \<Rightarrow> receiver option" where
  "remove_received self sequence = do {
     b \<leftarrow> sb_remove (r_received self) sequence;
     Some (self\<lparr>r_received := b\<rparr>) }"

definition publish_advance :: "receiver \<Rightarrow> bool \<Rightarrow> u16 \<Rightarrow> receiver option" where
  "publish_advance self step_sequence seq =
     (if r_current_sequence self = seq then remove_received self seq
      else if step_sequence \<and> is_greater_then seq (r_current_sequence self)
      then remove_received (self\<lparr>r_current_sequence := seq\<rparr>) seq
      else Some self)"

definition publish_move :: "receiver \<Rightarrow> u16 \<Rightarrow> receiver option" where
  "publish_move self seq = do {
     buffered \<leftarrow> is_buffered self seq;
     if buffered then do {
       (v, b) \<leftarrow> sb_take (r_buffered self) seq;
       let self = self\<lparr>r_buffered := b\<rparr>;
       Some (case v of Some byte_buffer \<Rightarrow> self\<lparr>r_published := r_published self @ [byte_buffer]\<rparr>
             | None \<Rightarrow> self) }
     else Some self }"

fun publish_loop :: "nat \<Rightarrow> u16 \<Rightarrow> bool \<Rightarrow> u16 \<Rightarrow> receiver \<Rightarrow> receiver option" where
  "publish_loop 0 stop step_sequence seq self = Some self"
| "publish_loop (Suc n) stop step_sequence seq self = do {
     received \<leftarrow> is_received self seq;
     if received then do {
       self \<leftarrow> publish_advance self step_sequence seq;
       self \<leftarrow> publish_move self seq;
       if next_sequence seq = stop then Some self
       else publish_loop n stop step_sequence (next_sequence seq) self }
     else if r_is_ordered self then Some self
     else if next_sequence seq = stop then Some self
     else publish_loop n stop False (next_sequence seq) self }"

definition publish :: "receiver \<Rightarrow> receiver option" where
  "publish self =
     publish_loop (unat (r_receive_window_size self)) (next_sequence (r_last_sequence self)) True
       (r_current_sequence self) self"

text \<open>
  \<open>receive_packet\<close> in its steps: the window moves up by one when it is too wide, the
  newest and the current number are updated, and a packet that is new is stored.
\<close>

definition increment_current :: "receiver \<Rightarrow> receiver option" where
  "increment_current self =
     (if should_increment_current (r_current_sequence self) (r_last_sequence self)
           (r_receive_window_size self)
      then do {
        self \<leftarrow> remove_received self (r_current_sequence self);
        Some (self\<lparr>r_current_sequence := next_sequence (r_current_sequence self),
                   r_skipped_sequences := r_skipped_sequences self + 1\<rparr>) }
      else Some self)"

definition note_sequence :: "receiver \<Rightarrow> u16 \<Rightarrow> receiver option" where
  "note_sequence self sequence =
     (let self = (if is_greater_then sequence (r_last_sequence self)
                  then self\<lparr>r_last_sequence := sequence\<rparr> else self)
      in if sequence = next_sequence (r_current_sequence self)
         then remove_received (self\<lparr>r_current_sequence := sequence\<rparr>) (r_current_sequence self)
         else Some self)"

definition receive_packet :: "receiver \<Rightarrow> u16 \<Rightarrow> bytes \<Rightarrow> nat \<Rightarrow> (bool \<times> receiver) option" where
  "receive_packet self sequence data len = do {
     self \<leftarrow> increment_current self;
     if \<not> is_greater_then sequence (r_current_sequence self) then Some (False, self)
     else do {
       self \<leftarrow> note_sequence self sequence;
       received \<leftarrow> is_received self sequence;
       if received then Some (False, self)
       else do {
         self \<leftarrow> set_buffered self sequence data len;
         self \<leftarrow> set_received self sequence;
         self \<leftarrow> publish self;
         Some (True, self) } } }"

fun resend_loop :: "nat \<Rightarrow> u16 \<Rightarrow> u16 \<Rightarrow> receiver \<Rightarrow> receiver option" where
  "resend_loop 0 stop seq self = Some self"
| "resend_loop (Suc n) stop seq self = do {
     received \<leftarrow> is_received self seq;
     let self = (if \<not> received then self\<lparr>r_resend_list := r_resend_list self @ [seq]\<rparr> else self);
     if previous_sequence seq = stop then Some self
     else resend_loop n stop (previous_sequence seq) self }"

definition set_resend_list :: "receiver \<Rightarrow> receiver option" where
  "set_resend_list self =
     (let self = self\<lparr>r_resend_list := []\<rparr>
      in if r_current_sequence self = r_last_sequence self then Some self
         else resend_loop (unat (r_receive_window_size self)) (r_current_sequence self)
                (previous_sequence (r_last_sequence self)) self)"

text \<open>
  The inner loop of \<open>create_nacks\<close> returns whether it left the function, the number it
  stopped at, the nack it built and the running count.
\<close>

fun nack_inner :: "receiver \<Rightarrow> nat list \<Rightarrow> u16 \<Rightarrow> nack \<Rightarrow> u32 \<Rightarrow> (bool \<times> u16 \<times> nack \<times> u32) option" where
  "nack_inner self [] seq current nacked_count = Some (False, seq, current, nacked_count)"
| "nack_inner self (i # is) seq current nacked_count =
     (let seq = previous_sequence seq
      in if is_equal_to_or_less_than seq (r_current_sequence self)
         then Some (True, seq, current, nacked_count)
         else do {
           received \<leftarrow> is_received self seq;
           if \<not> received
           then nack_inner self is seq
                  ((set_bits current i True)\<lparr>n_nacked_count := nacked_count + 1\<rparr>) (nacked_count + 1)
           else nack_inner self is seq current nacked_count })"

definition push_nack :: "receiver \<Rightarrow> nack \<Rightarrow> receiver" where
  "push_nack self current =
     self\<lparr>r_nack_list := r_nack_list self @ [current], r_nack_queue := r_nack_queue self @ [current]\<rparr>"

fun nack_outer :: "nat \<Rightarrow> receiver \<Rightarrow> u16 \<Rightarrow> u32 \<Rightarrow> (u32 \<times> receiver) option" where
  "nack_outer 0 self seq nacked_count = Some (nacked_count, self)"
| "nack_outer (Suc n) self seq nacked_count =
     (if is_equal_to_or_less_than seq (r_current_sequence self) then Some (nacked_count, self)
      else do {
        received \<leftarrow> is_received self seq;
        if received then
          (let seq = previous_sequence seq
           in if is_equal_to_or_less_than seq (r_current_sequence self) then Some (nacked_count, self)
              else nack_outer n self seq nacked_count)
        else do {
          let current = nack_default\<lparr>n_start_sequence := seq, n_nacked_count := nacked_count + 1\<rparr>;
          (returned, seq, current, nacked_count) \<leftarrow> nack_inner self [0..<32] seq current (nacked_count + 1);
          let self = push_nack self current;
          if returned then Some (nacked_count, self)
          else nack_outer n self (previous_sequence seq) nacked_count } })"

definition create_nacks :: "receiver \<Rightarrow> (u32 \<times> receiver) option" where
  "create_nacks self =
     (let self = self\<lparr>r_nack_list := [], r_nack_queue := []\<rparr>;
          seq = previous_sequence (r_last_sequence self)
      in if is_equal_to_or_less_than seq (r_current_sequence self) then Some (0, self)
         else nack_outer (unat (r_receive_window_size self div 32)) self seq 0)"

end
