(* ===== verification/Receive_Window.thy ===== *)
theory Receive_Window
  imports Main
begin

text \<open>
  The abstract specification of a channel's receive window: messages are numbered by an
  unbounded counter from 1 on, a state is the number delivered in order so far, the newest
  number seen, the set of numbers that arrived ahead of it, their messages while they wait,
  and the queue of published messages with their numbers. No wrap-around, no table, no
  buffers: theory \<open>Receiver_Refinement\<close> proves that the code implements it.
\<close>

record 'd window =
  w_cur :: nat
  w_last :: nat
  w_rcv :: "nat set"
  w_pend :: "nat \<rightharpoonup> 'd"
  w_out :: "(nat \<times> 'd) list"

definition w_init :: "'d window" where
  "w_init = \<lparr>w_cur = 0, w_last = 0, w_rcv = {}, w_pend = Map.empty, w_out = []\<rparr>"

definition w_forget :: "nat \<Rightarrow> 'd window \<Rightarrow> 'd window" where
  "w_forget j w = w\<lparr>w_rcv := w_rcv w - {j}, w_pend := (w_pend w)(j := None)\<rparr>"

definition w_emit :: "nat \<Rightarrow> 'd window \<Rightarrow> 'd window" where
  "w_emit j w =
     (case w_pend w j of
        None \<Rightarrow> w
      | Some d \<Rightarrow> w\<lparr>w_pend := (w_pend w)(j := None), w_out := w_out w @ [(j, d)]\<rparr>)"

definition w_visit :: "bool \<Rightarrow> nat \<Rightarrow> 'd window \<Rightarrow> 'd window" where
  "w_visit step j w =
     (if w_cur w = j \<or> step \<and> w_cur w < j
      then (w_emit j w)\<lparr>w_cur := j, w_rcv := w_rcv w - {j}\<rparr>
      else w_emit j w)"

fun w_walk :: "bool \<Rightarrow> nat \<Rightarrow> bool \<Rightarrow> nat \<Rightarrow> 'd window \<Rightarrow> 'd window" where
  "w_walk ordered 0 step j w = w"
| "w_walk ordered (Suc n) step j w =
     (if j \<in> w_rcv w then
        (if j = w_last w then w_visit step j w else w_walk ordered n step (Suc j) (w_visit step j w))
      else if ordered \<or> j = w_last w then w
      else w_walk ordered n False (Suc j) w)"

definition w_publish :: "bool \<Rightarrow> nat \<Rightarrow> 'd window \<Rightarrow> 'd window" where
  "w_publish ordered W w = w_walk ordered W True (w_cur w) w"

definition w_skip :: "nat \<Rightarrow> 'd window \<Rightarrow> 'd window" where
  "w_skip W w = (if w_cur w + W < w_last w then (w_forget (w_cur w) w)\<lparr>w_cur := Suc (w_cur w)\<rparr> else w)"

definition w_note :: "nat \<Rightarrow> 'd window \<Rightarrow> 'd window" where
  "w_note k w =
     (let w = w\<lparr>w_last := max (w_last w) k\<rparr>
      in if k = Suc (w_cur w) then (w_forget (w_cur w) w)\<lparr>w_cur := k\<rparr> else w)"

definition w_store :: "nat \<Rightarrow> 'd \<Rightarrow> 'd window \<Rightarrow> 'd window" where
  "w_store k d w = w\<lparr>w_rcv := insert k (w_rcv w), w_pend := (w_pend w)(k \<mapsto> d)\<rparr>"

definition w_receive :: "bool \<Rightarrow> nat \<Rightarrow> nat \<Rightarrow> 'd \<Rightarrow> 'd window \<Rightarrow> bool \<times> 'd window" where
  "w_receive ordered W k d w =
     (let w = w_skip W w
      in if k \<le> w_cur w then (False, w)
         else let w = w_note k w
              in if k \<in> w_rcv w then (False, w)
                 else (True, w_publish ordered W (w_store k d w)))"

text \<open>
  The shape every state of the window has: whatever arrived lies between the current and
  the newest number, and only what arrived can be waiting.
\<close>

definition w_shape :: "nat \<Rightarrow> 'd window \<Rightarrow> bool" where
  "w_shape B w \<longleftrightarrow> w_cur w \<le> w_last w \<and> w_last w \<le> w_cur w + B
     \<and> (\<forall>k \<in> w_rcv w. w_cur w \<le> k \<and> k \<le> w_last w) \<and> (\<forall>k. w_pend w k \<noteq> None \<longrightarrow> k \<in> w_rcv w)"

text \<open>While numbers are stepped, everything before the walker has been consumed.\<close>

definition w_stepping :: "bool \<Rightarrow> nat \<Rightarrow> 'd window \<Rightarrow> bool" where
  "w_stepping step j w \<longleftrightarrow>
     w_cur w \<le> j \<and> j \<le> w_last w \<and> (step \<longrightarrow> (\<forall>k \<in> w_rcv w. j \<le> k) \<and> j \<le> Suc (w_cur w))"

lemma w_emit_frame [simp]:
  "w_cur (w_emit j w) = w_cur w" "w_last (w_emit j w) = w_last w" "w_rcv (w_emit j w) = w_rcv w"
  "w_pend (w_emit j w) = (w_pend w)(j := None)"
  by (auto simp: w_emit_def split: option.split)

lemma w_forget_frame [simp]:
  "w_cur (w_forget j w) = w_cur w" "w_last (w_forget j w) = w_last w"
  "w_rcv (w_forget j w) = w_rcv w - {j}" "w_pend (w_forget j w) = (w_pend w)(j := None)"
  "w_out (w_forget j w) = w_out w"
  by (simp_all add: w_forget_def)

lemma w_visit_frame [simp]:
  "w_last (w_visit step j w) = w_last w" "w_pend (w_visit step j w) = (w_pend w)(j := None)"
  by (auto simp: w_visit_def)

lemma w_visit_shape:
  assumes "w_shape B w" "w_stepping step j w" "j \<in> w_rcv w"
  shows "w_shape B (w_visit step j w)"
  using assms by (auto simp: w_shape_def w_stepping_def w_visit_def)

lemma above: "(a::nat) \<le> b \<Longrightarrow> b \<noteq> a \<Longrightarrow> Suc a \<le> b"
  by simp

lemma w_visit_stepping:
  assumes "w_shape B w" "w_stepping step j w" "j \<in> w_rcv w" "j \<noteq> w_last w"
  shows "w_stepping step (Suc j) (w_visit step j w)"
  using assms unfolding w_stepping_def w_visit_def by (auto simp: above)

lemma w_shape_skip: "w_shape B w \<Longrightarrow> w_shape B (w_skip W w)"
  unfolding w_shape_def w_skip_def by (auto simp: above)

lemma w_shape_note:
  assumes "w_shape B w" "w_cur w < k" "k \<le> w_cur w + B"
  shows "w_shape B (w_note k w)"
  using assms unfolding w_shape_def w_note_def Let_def by (auto simp: above le_max_iff_disj)

lemma w_shape_store: "w_shape B w \<Longrightarrow> w_cur w \<le> k \<Longrightarrow> k \<le> w_last w \<Longrightarrow> w_shape B (w_store k d w)"
  by (auto simp: w_shape_def w_store_def)

lemma w_note_bounds: "w_cur w < k \<Longrightarrow> w_cur (w_note k w) \<le> k \<and> k \<le> w_last (w_note k w)"
  by (auto simp: w_note_def Let_def)

lemma w_stepping_start: "w_shape B w \<Longrightarrow> w_stepping True (w_cur w) w"
  by (auto simp: w_shape_def w_stepping_def)

end
