(* ===== verification/Receiver_Refinement.thy ===== *)
theory Receiver_Refinement
  imports Receiver Receive_Window
begin

text \<open>
  The receiver of the code implements the abstract window of \<open>Receive_Window\<close>: a
  simulation relation, and one lemma per operation. The numbers of the code wrap at 65535
  and its tables at 1024, so the relation bounds the window by 1022 numbers, the most for
  which all slots are distinct also across the wrap-around.
\<close>

abbreviation wslot :: "nat \<Rightarrow> nat" where
  "wslot k \<equiv> slot_of (seq_of k)"

definition flags_of :: "nat set \<Rightarrow> bool sequence_buffer \<Rightarrow> bool" where
  "flags_of A b \<longleftrightarrow> sb_wf b \<and> (\<forall>i. sb_cell b i \<noteq> None \<longleftrightarrow> i \<in> wslot ` A)"

definition bufs_of :: "nat \<Rightarrow> nat set \<Rightarrow> (nat \<rightharpoonup> bytes) \<Rightarrow> byte_buffer sequence_buffer \<Rightarrow> bool" where
  "bufs_of n A P b \<longleftrightarrow> sb_wf b \<and> (\<forall>k \<in> A. map_option bb_content (sb_cell b (wslot k)) = P k)
     \<and> (\<forall>i x. sb_cell b i = Some x \<longrightarrow> bb_ok n x)"

definition recv_rel :: "bool \<Rightarrow> nat \<Rightarrow> bytes window \<Rightarrow> receiver \<Rightarrow> bool" where
  "recv_rel ordered W w r \<longleftrightarrow>
     w_shape 1022 w \<and> r_is_ordered r = ordered \<and> unat (r_receive_window_size r) = W
     \<and> r_current_sequence r = seq_of (w_cur w) \<and> r_last_sequence r = seq_of (w_last w)
     \<and> flags_of (w_rcv w) (r_received r)
     \<and> bufs_of (bp_buffer_size (r_buffer_pool r)) (w_rcv w) (w_pend w) (r_buffered r)
     \<and> bp_wf (r_buffer_pool r) \<and> map bb_content (r_published r) = map snd (w_out w)
     \<and> (\<forall>b \<in> set (r_published r). bb_ok (bp_buffer_size (r_buffer_pool r)) b)"

subsection \<open>Flags and buffers inside a window\<close>

definition in_window :: "nat \<Rightarrow> nat set \<Rightarrow> bool" where
  "in_window c A \<longleftrightarrow> (\<forall>k \<in> A. c \<le> k \<and> k \<le> c + 1022)"

lemma wslot_eq:
  assumes "in_window c A" "j \<in> A" "k \<in> A"
  shows "wslot j = wslot k \<longleftrightarrow> j = k"
proof -
  have "c \<le> j" "j \<le> c + 1022" "c \<le> k" "k \<le> c + 1022"
    using assms by (auto simp: in_window_def)
  then show ?thesis by (intro sb.slot_eq_iff) auto
qed

lemma in_window_insert [simp]: "in_window c (insert k A) \<longleftrightarrow> c \<le> k \<and> k \<le> c + 1022 \<and> in_window c A"
  by (auto simp: in_window_def)

lemma wslot_insert: "in_window c (insert j A) \<Longrightarrow> k \<in> A \<Longrightarrow> wslot k = wslot j \<longleftrightarrow> k = j"
  using wslot_eq [of c "insert j A" k j] by simp

lemma wslot_image: "in_window c (insert j A) \<Longrightarrow> wslot j \<in> wslot ` A \<longleftrightarrow> j \<in> A"
  using wslot_insert [of c j A] by force

lemma flags_query:
  "flags_of A b \<Longrightarrow> in_window c (insert j A) \<Longrightarrow> sb_is_some b (seq_of j) = Some (j \<in> A)"
  using wslot_image [of c j A] by (simp add: flags_of_def del: in_window_insert)

lemma flags_remove:
  assumes "flags_of A b" "in_window c (insert j A)"
  shows "flags_of (A - {j}) (sb_put b (wslot j) None)"
proof -
  have "inj_on wslot (insert j A)"
    by (rule inj_onI) (simp only: wslot_eq [OF assms(2)])
  then have "wslot ` (A - {j}) = wslot ` A - {wslot j}"
    by (subst inj_on_image_set_diff [of _ "insert j A"]) auto
  then show ?thesis using assms(1) by (simp add: flags_of_def)
qed

lemma flags_insert: "flags_of A b \<Longrightarrow> flags_of (insert j A) (sb_put b (wslot j) (Some x))"
  by (auto simp: flags_of_def)

lemma bufs_mono: "bufs_of n A P b \<Longrightarrow> B \<subseteq> A \<Longrightarrow> (\<And>k. k \<in> B \<Longrightarrow> Q k = P k) \<Longrightarrow> bufs_of n B Q b"
  by (auto simp: bufs_of_def)

lemma bufs_clear:
  assumes "bufs_of n A P b" "in_window c (insert j A)"
  shows "bufs_of n A (P(j := None)) (sb_put b (wslot j) None)"
  using assms(1) by (auto simp: bufs_of_def wslot_insert [OF assms(2)])

lemma bufs_store:
  assumes "bufs_of n A P b" "in_window c (insert j A)" "bb_ok n x"
  shows "bufs_of n (insert j A) (P(j \<mapsto> bb_content x)) (sb_put b (wslot j) (Some x))"
  using assms(1,3) by (auto simp: bufs_of_def wslot_insert [OF assms(2)])

lemma shape_in_window: "w_shape 1022 w \<Longrightarrow> in_window (w_cur w) (w_rcv w)"
  by (fastforce simp: w_shape_def in_window_def)

lemma rel_in_window:
  "recv_rel ordered W w r \<Longrightarrow> w_cur w \<le> j \<Longrightarrow> j \<le> w_cur w + 1022 \<Longrightarrow> in_window (w_cur w) (insert j (w_rcv w))"
  by (simp add: recv_rel_def shape_in_window)

subsection \<open>publish\<close>

lemma rel_is_received:
  assumes "recv_rel ordered W w r" "w_cur w \<le> j" "j \<le> w_cur w + 1022"
  shows "is_received r (seq_of j) = Some (j \<in> w_rcv w)"
  using assms flags_query [OF _ rel_in_window [OF assms]] by (simp add: is_received_def recv_rel_def)

lemma publish_visit_refines:
  assumes rel: "recv_rel ordered W w r" and st: "w_stepping step j w" and j: "j \<in> w_rcv w"
  shows "\<exists>r1 r2. publish_advance r step (seq_of j) = Some r1 \<and> publish_move r1 (seq_of j) = Some r2
           \<and> recv_rel ordered W (w_visit step j w) r2"
proof -
  note R = rel [unfolded recv_rel_def]
  have shape: "w_shape 1022 w" using R by blast
  have win: "in_window (w_cur w) (insert j (w_rcv w))"
    using shape_in_window [OF shape] j by (simp add: insert_absorb)
  then have b: "w_cur w \<le> j" "j \<le> w_cur w + 1022" by simp_all
  have cmp: "seq_of (w_cur w) = seq_of j \<longleftrightarrow> w_cur w = j"
    "is_greater_then (seq_of j) (seq_of (w_cur w)) \<longleftrightarrow> w_cur w < j"
    using b by (auto simp: seq_order)
  define moves where "moves \<longleftrightarrow> w_cur w = j \<or> step \<and> w_cur w < j"
  define r1 where "r1 = (if moves then r\<lparr>r_current_sequence := seq_of j,
      r_received := sb_put (r_received r) (wslot j) None\<rparr> else r)"
  have adv: "publish_advance r step (seq_of j) = Some r1"
    using R cmp by (auto simp: publish_advance_def remove_received_def r1_def moves_def flags_of_def)
  have wf: "sb_wf (r_buffered r1)" using R by (simp add: r1_def bufs_of_def)
  define r2 where "r2 = (case sb_cell (r_buffered r) (wslot j) of None \<Rightarrow> r1
      | Some x \<Rightarrow> r1\<lparr>r_buffered := sb_put (r_buffered r) (wslot j) None,
                    r_published := r_published r @ [x]\<rparr>)"
  have mv: "publish_move r1 (seq_of j) = Some r2"
    using wf by (auto simp: publish_move_def is_buffered_def r2_def r1_def split: option.splits)
  have flags: "flags_of (w_rcv (w_visit step j w)) (r_received r2)"
    using R flags_remove [OF _ win] by (auto simp: w_visit_def r2_def r1_def moves_def split: option.splits)
  let ?n = "bp_buffer_size (r_buffer_pool r)"
  have pend: "map_option bb_content (sb_cell (r_buffered r) (wslot j)) = w_pend w j"
    and ok: "\<And>x. sb_cell (r_buffered r) (wslot j) = Some x \<Longrightarrow> bb_ok ?n x"
    and bufs: "bufs_of ?n (w_rcv w) (w_pend w) (r_buffered r)"
    using R j by (auto simp: bufs_of_def)
  have "bufs_of ?n (w_rcv w) ((w_pend w)(j := None)) (r_buffered r2)"
    using bufs bufs_clear [OF bufs win] pend
    by (auto simp: r2_def r1_def fun_upd_idem split: option.splits)
  then have bufs': "bufs_of ?n (w_rcv (w_visit step j w)) (w_pend (w_visit step j w)) (r_buffered r2)"
    by (rule bufs_mono) (auto simp: w_visit_def)
  have out: "map bb_content (r_published r2) = map snd (w_out (w_visit step j w))"
    using R pend by (auto simp: r2_def r1_def w_visit_def w_emit_def split: option.splits)
  have "recv_rel ordered W (w_visit step j w) r2"
    unfolding recv_rel_def
    using w_visit_shape [OF shape st j] flags bufs' out R ok
    by (auto simp: r2_def r1_def moves_def w_visit_def split: option.splits)
  with adv mv show ?thesis by blast
qed

lemma publish_loop_refines:
  assumes "recv_rel ordered W w r" "w_stepping step j w"
  shows "\<exists>r'. publish_loop n (next_sequence (r_last_sequence r)) step (seq_of j) r = Some r'
           \<and> recv_rel ordered W (w_walk ordered n step j w) r'"
  using assms
proof (induction n arbitrary: step j w r)
  case (Suc n)
  note R = Suc.prems(1) [unfolded recv_rel_def]
  have b: "w_cur w \<le> j" "j \<le> w_last w" "w_last w \<le> w_cur w + 1022"
    using Suc.prems(2) R by (auto simp: w_stepping_def w_shape_def)
  have q: "is_received r (seq_of j) = Some (j \<in> w_rcv w)"
    using b rel_is_received [OF Suc.prems(1)] by simp
  have last: "r_last_sequence r = seq_of (w_last w)" and ord: "r_is_ordered r = ordered"
    using R by simp_all
  have stop: "seq_of (Suc j) = seq_of (Suc (w_last w)) \<longleftrightarrow> j = w_last w"
    using b sn.sq_eq_iff [of "Suc j" "Suc (w_last w)"] by simp
  show ?case
  proof (cases "j \<in> w_rcv w")
    case True
    obtain r1 r2 where r: "publish_advance r step (seq_of j) = Some r1"
      "publish_move r1 (seq_of j) = Some r2" "recv_rel ordered W (w_visit step j w) r2"
      using publish_visit_refines [OF Suc.prems True] by blast
    then have "r_last_sequence r2 = seq_of (w_last w)" by (simp add: recv_rel_def)
    moreover have "w_stepping step (Suc j) (w_visit step j w)" if "j \<noteq> w_last w"
      using w_visit_stepping [OF _ Suc.prems(2) True that] R by blast
    ultimately show ?thesis
      using True r Suc.IH [OF r(3), of step "Suc j"] by (auto simp: q last stop)
  next
    case False
    have "w_stepping False (Suc j) w" if "j \<noteq> w_last w"
      using that Suc.prems(2) by (auto simp: w_stepping_def)
    then show ?thesis
      using False Suc.prems(1) Suc.IH [OF Suc.prems(1), of False "Suc j"]
      by (auto simp: q ord last stop)
  qed
qed simp

lemma publish_refines:
  assumes "recv_rel ordered W w r"
  shows "\<exists>r'. publish r = Some r' \<and> recv_rel ordered W (w_publish ordered W w) r'"
  using publish_loop_refines [OF assms, of True "w_cur w" W] assms
  by (auto simp: publish_def w_publish_def recv_rel_def w_stepping_start)

subsection \<open>The start of the window\<close>

lemma sint_small_32: "- (2 ^ 31) \<le> x \<Longrightarrow> x < 2 ^ 31 \<Longrightarrow> sint (word_of_int x :: 32 word) = x"
  by (simp add: sint_sbintrunc' signed_take_bit_int_eq_self)

lemma seq_of_add_period: "seq_of (n + 65535) = seq_of n"
  by (simp add: seq_of_def del: of_nat_mod)

lemma ucast_as_int: "(ucast (s::u16) :: u32) - W = word_of_int (int (unat s) - int (unat W))"
  by simp

lemma unat_ucast_of_int:
  "0 \<le> y \<Longrightarrow> y < 65536 \<Longrightarrow> unat (ucast (word_of_int y :: u32) :: u16) = nat y"
  by (simp add: unsigned_ucast_eq unsigned_of_int take_bit_int_eq_self take_bit_nat_eq_self nat_less_iff)

lemma window_start_nat:
  assumes "unat W \<le> 1022" "unat s < 65535"
  shows "unat (window_start s W) = (if unat s < unat W then unat s + 65535 - unat W else unat s - unat W)"
proof -
  define a b where "a = unat s" and "b = unat W"
  let ?x = "int a - int b"
  let ?y = "if ?x < 0 then 65535 + ?x else ?x"
  have ab: "b \<le> 1022" "a < 65535" using assms by (simp_all add: a_def b_def)
  then have "sint (word_of_int ?x :: 32 word) = ?x"
    by (intro sint_small_32) auto
  moreover have "(ucast s :: u32) - W = word_of_int ?x"
    by (simp only: ucast_as_int a_def b_def)
  ultimately have "window_start s W = ucast (word_of_int ?y :: u32)"
    unfolding window_start_def Let_def by simp
  then have "unat (window_start s W) = nat ?y"
    using ab unat_ucast_of_int [of ?y] by simp
  also have "\<dots> = (if a < b then a + 65535 - b else a - b)"
    using ab by auto
  finally show ?thesis by (simp add: a_def b_def)
qed

lemma window_start_seq_of:
  assumes "unat W \<le> 1022"
  shows "window_start (seq_of n) W = seq_of (n + 65535 - unat W)"
proof -
  have eq: "n + 65535 - unat W = n + (65535 - unat W)" using assms by simp
  have "(n + (65535 - unat W)) mod 65535 =
      (if n mod 65535 < unat W then n mod 65535 + 65535 - unat W else n mod 65535 - unat W)"
  proof (cases "unat W = 0")
    case False
    then show ?thesis using assms by (subst mod_add_below) auto
  qed simp
  then show ?thesis
    using window_start_nat [OF assms, of "seq_of n"] by (simp add: word_unat_eq_iff eq)
qed

lemma should_increment_current_iff:
  assumes "unat W \<le> 1022" "c \<le> l" "l \<le> c + 1022"
  shows "should_increment_current (seq_of c) (seq_of l) W \<longleftrightarrow> c + unat W < l"
proof -
  have "is_greater_then (seq_of (l + 65535 - unat W)) (seq_of (c + 65535)) \<longleftrightarrow> c + 65535 < l + 65535 - unat W"
    using assms by (intro sn.gt_sq_iff) auto
  moreover have "c + 65535 < l + 65535 - unat W \<longleftrightarrow> c + unat W < l" using assms by auto
  moreover have "seq_of c \<noteq> seq_of l" if "c + unat W < l"
    using assms that by (simp add: seq_order)
  ultimately show ?thesis
    by (auto simp: should_increment_current_def window_start_seq_of [OF assms(1)] seq_of_add_period)
qed

subsection \<open>receive_packet\<close>

lemma rel_step_current:
  assumes "recv_rel ordered W w r" "w_cur w < w_last w"
  shows "\<exists>r1. remove_received r (r_current_sequence r) = Some r1
     \<and> recv_rel ordered W ((w_forget (w_cur w) w)\<lparr>w_cur := Suc (w_cur w)\<rparr>)
         (r1\<lparr>r_current_sequence := seq_of (Suc (w_cur w))\<rparr>)
     \<and> r1 = r\<lparr>r_received := sb_put (r_received r) (wslot (w_cur w)) None\<rparr>"
proof -
  note R = assms(1) [unfolded recv_rel_def]
  have win: "in_window (w_cur w) (insert (w_cur w) (w_rcv w))"
    using rel_in_window [OF assms(1), of "w_cur w"] by simp
  have "w_shape 1022 ((w_forget (w_cur w) w)\<lparr>w_cur := Suc (w_cur w)\<rparr>)"
    using R assms(2) by (auto simp: w_shape_def above)
  moreover have "bufs_of n (w_rcv w - {w_cur w}) ((w_pend w)(w_cur w := None)) b"
    if "bufs_of n (w_rcv w) (w_pend w) b" for n b
    using that by (rule bufs_mono) auto
  ultimately show ?thesis
    using R flags_remove [OF _ win, of "r_received r"]
    by (auto simp: remove_received_def recv_rel_def flags_of_def)
qed

lemma receiver_swap:
  "r\<lparr>r_received := a, r_current_sequence := c\<rparr> = r\<lparr>r_current_sequence := c, r_received := a\<rparr>"
  by simp

lemma increment_current_refines:
  assumes "recv_rel ordered W w r" "W \<le> 1022"
  shows "\<exists>r1. increment_current r = Some r1 \<and> recv_rel ordered W (w_skip W w) r1"
proof -
  note R = assms(1) [unfolded recv_rel_def]
  have inc: "should_increment_current (r_current_sequence r) (r_last_sequence r) (r_receive_window_size r)
      \<longleftrightarrow> w_cur w + W < w_last w"
    using R assms(2) should_increment_current_iff by (auto simp: w_shape_def)
  show ?thesis
  proof (cases "w_cur w + W < w_last w")
    case True
    then show ?thesis
      using inc rel_step_current [OF assms(1)] R
      by (auto simp: increment_current_def w_skip_def recv_rel_def)
  next
    case False
    with inc assms show ?thesis by (simp add: increment_current_def w_skip_def)
  qed
qed

lemma note_sequence_refines:
  assumes rel: "recv_rel ordered W w r" and k: "w_cur w < k" "k \<le> w_cur w + 1022"
  shows "\<exists>r1. note_sequence r (seq_of k) = Some r1 \<and> recv_rel ordered W (w_note k w) r1"
proof -
  note R = rel [unfolded recv_rel_def]
  let ?w = "w\<lparr>w_last := max (w_last w) k\<rparr>"
  define r0 where "r0 = (if is_greater_then (seq_of k) (r_last_sequence r)
      then r\<lparr>r_last_sequence := seq_of k\<rparr> else r)"
  have "is_greater_then (seq_of k) (r_last_sequence r) \<longleftrightarrow> w_last w < k"
    using R k by (auto simp: seq_order w_shape_def)
  then have rel0: "recv_rel ordered W ?w r0"
    using R k by (auto simp: r0_def recv_rel_def w_shape_def le_max_iff_disj max_def)
  have wf0: "sb_wf (r_received r0)" "r_current_sequence r0 = seq_of (w_cur w)"
    using rel0 by (simp_all add: recv_rel_def flags_of_def)
  have nxt: "seq_of k = next_sequence (r_current_sequence r0) \<longleftrightarrow> k = Suc (w_cur w)"
    using R k by (auto simp: r0_def seq_order)
  have eq: "note_sequence r (seq_of k) =
      (if k = Suc (w_cur w)
       then remove_received (r0\<lparr>r_current_sequence := seq_of k\<rparr>) (r_current_sequence r0) else Some r0)"
    unfolding note_sequence_def Let_def r0_def [symmetric] nxt ..
  show ?thesis
  proof (cases "k = Suc (w_cur w)")
    case True
    then have "w_cur ?w < w_last ?w" by simp
    from rel_step_current [OF rel0 this] wf0 True show ?thesis
      unfolding eq by (auto simp: w_note_def remove_received_def receiver_swap)
  next
    case False
    then show ?thesis
      using rel0 unfolding eq by (simp add: w_note_def)
  qed
qed

lemma store_refines:
  assumes rel: "recv_rel ordered W w r" and k: "w_cur w \<le> k" "k \<le> w_last w" and len: "len \<le> length data"
  shows "\<exists>r1 r2. set_buffered r (seq_of k) data len = Some r1 \<and> set_received r1 (seq_of k) = Some r2
     \<and> recv_rel ordered W (w_store k (take len data) w) r2"
proof -
  note R = rel [unfolded recv_rel_def]
  let ?n = "bp_buffer_size (r_buffer_pool r)" and ?src = "take len data"
  have win: "in_window (w_cur w) (insert k (w_rcv w))"
    using rel_in_window [OF rel] k R by (auto simp: w_shape_def)
  obtain b p where b: "get_buffer (r_buffer_pool r) len = Some (b, p)" "bp_wf p" "bp_buffer_size p = ?n"
    "bb_length b = len" "copy_into (bb_data b) 0 len ?src = Some (overwrite (bb_data b) 0 ?src)"
    "bb_ok ?n (b\<lparr>bb_data := overwrite (bb_data b) 0 ?src\<rparr>)" "take len (overwrite (bb_data b) 0 ?src) = ?src"
    by (rule bp.fill [of "r_buffer_pool r" ?src len]) (use R len in \<open>auto simp: min_absorb2\<close>)
  let ?b = "b\<lparr>bb_data := overwrite (bb_data b) 0 ?src\<rparr>"
  have content: "bb_content ?b = ?src" using b by (simp add: bb_content_def)
  have wf: "sb_wf (r_buffered r)" "sb_wf (r_received r)" using R by (auto simp: bufs_of_def flags_of_def)
  have shape: "w_shape 1022 (w_store k ?src w)" using R k by (intro w_shape_store) auto
  have bufs: "bufs_of ?n (insert k (w_rcv w)) ((w_pend w)(k \<mapsto> ?src)) (sb_put (r_buffered r) (wslot k) (Some ?b))"
    using bufs_store [OF _ win b(6)] R content by auto
  have flags: "flags_of (insert k (w_rcv w)) (sb_put (r_received r) (wslot k) (Some True))"
    using R by (auto intro: flags_insert)
  show ?thesis
    using b wf len shape bufs flags R
    by (simp add: set_buffered_def set_received_def recv_rel_def w_store_def)
qed

lemma receive_packet_refines:
  assumes rel: "recv_rel ordered W w r" and W: "W \<le> 1022"
    and k: "k \<le> w_cur w + 1022" "w_cur w \<le> k + 30000" and len: "len \<le> length data"
  shows "\<exists>b r'. receive_packet r (seq_of k) data len = Some (b, r')
     \<and> b = fst (w_receive ordered W k (take len data) w)
     \<and> recv_rel ordered W (snd (w_receive ordered W k (take len data) w)) r'"
proof -
  define w1 where "w1 = w_skip W w"
  obtain r1 where r1: "increment_current r = Some r1" "recv_rel ordered W w1 r1"
    using increment_current_refines [OF rel W] by (auto simp: w1_def)
  have c1: "w_cur w \<le> w_cur w1" "w_cur w1 \<le> Suc (w_cur w)" by (auto simp: w1_def w_skip_def)
  have gt: "is_greater_then (seq_of k) (r_current_sequence r1) \<longleftrightarrow> w_cur w1 < k"
    using r1(2) k c1 by (auto simp: recv_rel_def seq_order)
  show ?thesis
  proof (cases "w_cur w1 < k")
    case False
    with gt r1 show ?thesis
      by (auto simp: receive_packet_def w_receive_def Let_def w1_def [symmetric])
  next
    case True
    define w2 where "w2 = w_note k w1"
    obtain r2 where r2: "note_sequence r1 (seq_of k) = Some r2" "recv_rel ordered W w2 r2"
      using note_sequence_refines [OF r1(2) True] k c1 by (auto simp: w2_def)
    have c2: "w_cur w2 \<le> k" "k \<le> w_last w2" "k \<le> w_cur w2 + 1022"
      using w_note_bounds [OF True] r2(2) by (auto simp: w2_def recv_rel_def w_shape_def)
    have rc: "is_received r2 (seq_of k) = Some (k \<in> w_rcv w2)"
      using rel_is_received [OF r2(2)] c2 by simp
    show ?thesis
    proof (cases "k \<in> w_rcv w2")
      case True
      with \<open>w_cur w1 < k\<close> gt r1 r2 rc show ?thesis
        by (auto simp: receive_packet_def w_receive_def Let_def w1_def [symmetric] w2_def [symmetric])
    next
      case False
      obtain r3 r4 where r34: "set_buffered r2 (seq_of k) data len = Some r3" "set_received r3 (seq_of k) = Some r4"
        "recv_rel ordered W (w_store k (take len data) w2) r4"
        using store_refines [OF r2(2) c2(1,2) len] by blast
      obtain r5 where "publish r4 = Some r5"
        "recv_rel ordered W (w_publish ordered W (w_store k (take len data) w2)) r5"
        using publish_refines [OF r34(3)] by blast
      with False \<open>w_cur w1 < k\<close> gt r1 r2 rc r34 show ?thesis
        by (auto simp: receive_packet_def w_receive_def Let_def w1_def [symmetric] w2_def [symmetric])
    qed
  qed
qed

end
