(* ===== verification/Window_Delivery.thy ===== *)
theory Window_Delivery
  imports Receive_Window
begin

text \<open>
  What the abstract receive window guarantees: in-order delivery, delivery on arrival, and the
  safety that remains when packets are given up.
\<close>

section \<open>In-order delivery\<close>

text \<open>
  The state of an ordered window that has delivered 1, ..., \<open>c\<close>, when \<open>S\<close> is the set
  of the numbers that arrived so far.
\<close>

definition w_at :: "nat set \<Rightarrow> (nat \<Rightarrow> 'd) \<Rightarrow> nat \<Rightarrow> nat \<Rightarrow> 'd window" where
  "w_at S msg L c =
     \<lparr>w_cur = c, w_last = L, w_rcv = {k \<in> S. c < k},
      w_pend = (\<lambda>k. if k \<in> S \<and> c < k then Some (msg k) else None),
      w_out = map (\<lambda>k. (k, msg k)) [1..<Suc c]\<rparr>"

text \<open>The numbers 1, ..., \<open>m\<close> have all arrived, and the next one has not.\<close>

definition reaches :: "nat set \<Rightarrow> nat \<Rightarrow> nat \<Rightarrow> bool" where
  "reaches S c m \<longleftrightarrow> c \<le> m \<and> (\<forall>j. c < j \<and> j \<le> m \<longrightarrow> j \<in> S) \<and> Suc m \<notin> S"

lemma reaches_stay: "Suc c \<notin> S \<Longrightarrow> reaches S c m \<longleftrightarrow> m = c"
  by (metis Suc_leI dual_order.strict_iff_order leD lessI linorder_not_le not_less_eq_eq reaches_def)

lemma reaches_step: "Suc c \<in> S \<Longrightarrow> reaches S c m \<longleftrightarrow> reaches S (Suc c) m"
  unfolding reaches_def by (metis Suc_leD Suc_leI le_antisym le_neq_implies_less lessI less_Suc_eq_le not_less_eq_eq)

lemma reaches_le:
  assumes "reaches S c m" "\<forall>k \<in> S. k \<le> L" "c \<le> L"
  shows "m \<le> L"
  using assms by (cases "m = c") (simp_all add: reaches_def)

lemma w_visit_at:
  "Suc c \<in> S \<Longrightarrow> w_visit True (Suc c) (w_at S msg L c) = w_at S msg L (Suc c)"
  "Suc c \<in> S \<Longrightarrow> w_visit step (Suc c) ((w_at S msg L c)\<lparr>w_cur := Suc c\<rparr>) = w_at S msg L (Suc c)"
  by (auto simp: w_visit_def w_emit_def w_at_def fun_eq_iff)

lemma w_at_sel [simp]:
  "w_cur (w_at S msg L c) = c" "w_last (w_at S msg L c) = L" "w_rcv (w_at S msg L c) = {k \<in> S. c < k}"
  by (simp_all add: w_at_def)

lemma w_walk_at:
  assumes "reaches S c m" "\<forall>k \<in> S. k \<le> L" "c < L" "m \<le> c + n"
  shows "w_walk True n True (Suc c) (w_at S msg L c) = w_at S msg L m"
  using assms
proof (induction n arbitrary: c)
  case 0
  then show ?case by (simp add: reaches_def)
next
  case (Suc n)
  show ?case
  proof (cases "Suc c \<in> S")
    case True
    then have r: "reaches S (Suc c) m" using Suc.prems(1) by (simp add: reaches_step)
    show ?thesis
    proof (cases "Suc c = L")
      case True
      then have "Suc (Suc c) \<notin> S" using Suc.prems(2) by auto
      with r have "m = Suc c" by (simp add: reaches_stay)
      with \<open>Suc c \<in> S\<close> True [symmetric] show ?thesis by (simp add: w_visit_at)
    next
      case False
      with \<open>Suc c \<in> S\<close> r Suc show ?thesis by (simp add: w_visit_at)
    qed
  next
    case False
    with Suc.prems(1) show ?thesis by (simp add: reaches_stay)
  qed
qed

lemma w_publish_next:
  assumes "Suc c \<in> S" "reaches S c m" "\<forall>k \<in> S. k \<le> L" "L \<le> c + W" "0 < W"
  shows "w_publish True W ((w_at S msg L c)\<lparr>w_cur := Suc c\<rparr>) = w_at S msg L m"
proof -
  obtain n where n: "W = Suc n" using assms(5) by (cases W) auto
  have r: "reaches S (Suc c) m" using assms(1,2) by (simp add: reaches_step)
  have L: "Suc c \<le> L" using assms(1,3) by simp
  have m: "m \<le> L"
    using reaches_le [OF r assms(3) L] .
  show ?thesis
  proof (cases "Suc c = L")
    case True
    then have "Suc (Suc c) \<notin> S" using assms(3) by auto
    with r have "m = Suc c" by (simp add: reaches_stay)
    with True [symmetric] assms(1) show ?thesis by (simp add: w_publish_def n w_visit_at)
  next
    case False
    then have "w_walk True n True (Suc (Suc c)) (w_at S msg L (Suc c)) = w_at S msg L m"
      using r assms(3,4) L m n by (intro w_walk_at) auto
    with False assms(1) show ?thesis by (simp add: w_publish_def n w_visit_at)
  qed
qed

text \<open>One arrival within the window, on every branch of the code.\<close>

lemma w_receive_ordered:
  assumes S: "Suc c \<notin> S" "\<forall>k \<in> S. k \<le> L" "c \<le> L" "L \<le> c + W" and W: "0 < W" and k: "k \<le> c + W"
    and m: "reaches (insert k S) c m"
  shows "w_receive True W k (msg k) (w_at S msg L c) =
     (c < k \<and> k \<notin> S, w_at (insert k S) msg (max L k) m)"
proof -
  have skip: "w_skip W (w_at S msg L c) = w_at S msg L c"
    using S by (simp add: w_skip_def)
  have old: "w_at (insert k S) msg (max L k) c = w_at S msg L c" if "k \<in> S \<or> k \<le> c"
    using that S by (auto simp: w_at_def fun_eq_iff insert_absorb max_def)
  have stay: "m = c" if "k \<noteq> Suc c"
    using m S(1) that by (simp add: reaches_stay)
  consider "k \<le> c" | "k = Suc c" | "Suc c < k" "k \<in> S" | "Suc c < k" "k \<notin> S" by linarith
  then show ?thesis
  proof cases
    case 2
    let ?S = "insert k S"
    have eq: "w_store k (msg k) (w_note k (w_at S msg L c)) = (w_at ?S msg (max L k) c)\<lparr>w_cur := Suc c\<rparr>"
      using 2 S(1) by (auto simp: w_store_def w_note_def w_at_def w_forget_def fun_eq_iff)
    have "w_publish True W ((w_at ?S msg (max L k) c)\<lparr>w_cur := Suc c\<rparr>) = w_at ?S msg (max L k) m"
      using 2 S W m by (intro w_publish_next) (auto simp: max_def)
    moreover have "c < k" "k \<notin> S" "k \<notin> w_rcv (w_note k (w_at S msg L c))"
      using 2 S(1) by (simp_all add: w_note_def)
    ultimately show ?thesis by (simp add: w_receive_def skip eq)
  next
    case 4
    have eq: "w_store k (msg k) (w_note k (w_at S msg L c)) = w_at (insert k S) msg (max L k) c"
      using 4 by (auto simp: w_store_def w_note_def w_at_def fun_eq_iff)
    have "w_publish True W (w_at (insert k S) msg (max L k) c) = w_at (insert k S) msg (max L k) c"
      using W by (cases W) (auto simp: w_publish_def)
    moreover have "k \<notin> w_rcv (w_note k (w_at S msg L c))" using 4 by (simp add: w_note_def)
    ultimately show ?thesis using 4 stay by (simp add: w_receive_def skip eq)
  qed (use stay old S in \<open>auto simp: w_receive_def skip w_note_def\<close>)
qed


section \<open>Delivery on arrival\<close>

text \<open>
  The state of an unordered window: whatever arrived has been published at once, so nothing
  waits.
\<close>

definition w_flat :: "nat set \<Rightarrow> nat \<Rightarrow> (nat \<times> 'd) list \<Rightarrow> nat \<Rightarrow> 'd window" where
  "w_flat S L out c =
     \<lparr>w_cur = c, w_last = L, w_rcv = {k \<in> S. c < k}, w_pend = Map.empty, w_out = out\<rparr>"

lemma w_flat_sel [simp]:
  "w_cur (w_flat S L out c) = c" "w_last (w_flat S L out c) = L"
  "w_rcv (w_flat S L out c) = {k \<in> S. c < k}" "w_pend (w_flat S L out c) = Map.empty"
  by (simp_all add: w_flat_def)

lemma w_visit_idle: "w_pend w j = None \<Longrightarrow> w_cur w < j \<Longrightarrow> w_visit False j w = w"
  by (simp add: w_visit_def w_emit_def)

lemma w_walk_idle:
  "w_pend w = Map.empty \<Longrightarrow> w_cur w < j \<Longrightarrow> w_walk False n False j w = w"
  by (induction n arbitrary: j) (simp_all add: w_visit_idle)

lemma w_walk_flat:
  assumes "reaches S c m" "\<forall>k \<in> S. k \<le> L" "c < L" "m \<le> c + n"
  shows "w_walk False n True (Suc c) (w_flat S L out c) = w_flat S L out m"
  using assms
proof (induction n arbitrary: c)
  case 0
  then show ?case by (simp add: reaches_def)
next
  case (Suc n)
  show ?case
  proof (cases "Suc c \<in> S")
    case True
    have visit: "w_visit True (Suc c) (w_flat S L out c) = w_flat S L out (Suc c)"
      by (auto simp: w_visit_def w_emit_def w_flat_def)
    have r: "reaches S (Suc c) m" using Suc.prems(1) True by (simp add: reaches_step)
    show ?thesis
    proof (cases "Suc c = L")
      case True
      then have "Suc (Suc c) \<notin> S" using Suc.prems(2) by auto
      with r have "m = Suc c" by (simp add: reaches_stay)
      with \<open>Suc c \<in> S\<close> True [symmetric] visit show ?thesis by simp
    next
      case False
      with \<open>Suc c \<in> S\<close> r Suc visit show ?thesis by simp
    qed
  next
    case False
    with Suc.prems(1) show ?thesis by (simp add: reaches_stay w_walk_idle)
  qed
qed

text \<open>Past a gap the walk only publishes, so it reaches the one message that waits.\<close>

lemma w_walk_reach:
  assumes "w_pend w = [k \<mapsto> d]" "w_cur w < j" "j \<le> k" "k \<in> w_rcv w" "k \<le> w_last w" "k < j + n"
  shows "w_walk False n False j w = w\<lparr>w_pend := Map.empty, w_out := w_out w @ [(k, d)]\<rparr>"
  using assms
proof (induction n arbitrary: j)
  case (Suc n)
  show ?case
  proof (cases "j = k")
    case True
    have "w_visit False k w = w\<lparr>w_pend := Map.empty, w_out := w_out w @ [(k, d)]\<rparr>"
      using Suc.prems True by (simp add: w_visit_def w_emit_def fun_eq_iff)
    with Suc.prems True show ?thesis by (cases "k = w_last w") (simp_all add: w_walk_idle)
  next
    case False
    then have "w_visit False j w = w" using Suc.prems by (intro w_visit_idle) auto
    with False Suc show ?thesis by auto
  qed
qed simp

lemma w_receive_unordered:
  assumes S: "Suc c \<notin> S" "\<forall>k \<in> S. k \<le> L" "c \<le> L" "L < c + W" and k: "k < c + W"
    and m: "reaches (insert k S) c m"
  shows "w_receive False W k d (w_flat S L out c) =
     (if c < k \<and> k \<notin> S then (True, w_flat (insert k S) (max L k) (out @ [(k, d)]) m)
      else (False, w_flat S L out c))"
proof -
  have skip: "w_skip W (w_flat S L out c) = w_flat S L out c"
    using S by (simp add: w_skip_def)
  let ?S = "insert k S" and ?L = "max L k"
  obtain n where n: "W = Suc n" using S by (cases W) auto
  consider "k \<le> c" | "k = Suc c" | "Suc c < k" "k \<in> S" | "Suc c < k" "k \<notin> S" by linarith
  then show ?thesis
  proof cases
    case 2
    let ?w = "w_store k d (w_note k (w_flat S L out c))"
    have w: "w_visit True k ?w = w_flat ?S ?L (out @ [(k, d)]) k"
      "w_cur ?w = k" "k \<in> w_rcv ?w" "w_last ?w = ?L"
      using 2 by (auto simp: w_visit_def w_emit_def w_store_def w_note_def w_flat_def w_forget_def fun_eq_iff)
    have r: "reaches ?S k m" using 2 m by (simp add: reaches_step)
    have "w_publish False W ?w = w_flat ?S ?L (out @ [(k, d)]) m"
    proof (cases "k = ?L")
      case True
      then have "Suc k \<notin> ?S" using S(2) by (auto simp: max_def split: if_splits)
      with r have "m = k" by (simp add: reaches_stay)
      with True w show ?thesis by (simp add: w_publish_def n)
    next
      case False
      have "m \<le> ?L" by (rule reaches_le [OF r]) (use S(2) in auto)
      then have "w_walk False n True (Suc k) (w_flat ?S ?L (out @ [(k, d)]) k) = w_flat ?S ?L (out @ [(k, d)]) m"
        using False r S k m 2 n by (intro w_walk_flat) (auto simp: reaches_def max_def split: if_splits)
      with False w show ?thesis by (simp add: w_publish_def n)
    qed
    moreover have "c < k" "k \<notin> S" "k \<notin> w_rcv (w_note k (w_flat S L out c))"
      using 2 S(1) by (simp_all add: w_note_def)
    ultimately show ?thesis by (simp add: w_receive_def skip)
  next
    case 4
    let ?w = "(w_flat ?S ?L out c)\<lparr>w_pend := [k \<mapsto> d]\<rparr>"
    have eq: "w_store k d (w_note k (w_flat S L out c)) = ?w"
      using 4 by (auto simp: w_store_def w_note_def w_flat_def)
    have mc: "m = c" using m S(1) 4 by (simp add: reaches_stay)
    have "w_walk False n False (Suc c) ?w = ?w\<lparr>w_pend := Map.empty, w_out := w_out ?w @ [(k, d)]\<rparr>"
      using 4 k n by (intro w_walk_reach) auto
    then have "w_publish False W ?w = w_flat ?S ?L (out @ [(k, d)]) m"
      using 4 mc by (simp add: w_publish_def n) (simp add: w_flat_def)
    moreover have "k \<notin> w_rcv (w_note k (w_flat S L out c))" using 4 by (simp add: w_note_def)
    ultimately show ?thesis using 4 by (simp add: w_receive_def skip eq)
  next
    case 3
    then have "w_note k (w_flat S L out c) = w_flat S L out c"
      using S(2) by (auto simp: w_note_def max_def w_flat_def)
    with 3 show ?thesis by (simp add: w_receive_def skip)
  qed (simp add: w_receive_def skip)
qed


section \<open>Safety under any loss\<close>

text \<open>
  What holds of every run, whatever is lost, repeated or skipped: a number is published at
  most once, with a message that arrived under it, and an ordered window publishes in
  increasing order.
\<close>

definition w_safe :: "bool \<Rightarrow> (nat \<times> 'd) set \<Rightarrow> 'd window \<Rightarrow> bool" where
  "w_safe ordered A w \<longleftrightarrow>
     distinct (map fst (w_out w)) \<and> set (w_out w) \<subseteq> A
     \<and> (\<forall>j d. w_pend w j = Some d \<longrightarrow> (j, d) \<in> A)
     \<and> (\<forall>j \<in> fst ` set (w_out w). (j \<le> w_cur w \<or> j \<in> w_rcv w) \<and> w_pend w j = None)
     \<and> (ordered \<longrightarrow> sorted_wrt (<) (map fst (w_out w)) \<and> (\<forall>j \<in> fst ` set (w_out w). j \<le> w_cur w))"

lemma w_safe_init: "w_safe ordered {} w_init"
  by (simp add: w_safe_def w_init_def)

lemma w_safe_mono: "w_safe ordered A w \<Longrightarrow> A \<subseteq> B \<Longrightarrow> w_safe ordered B w"
  by (auto simp: w_safe_def)

lemma w_safe_cong:
  assumes "w_safe ordered A w" "w_out w' = w_out w" "w_cur w \<le> w_cur w'"
    "\<And>j. w_pend w' j = w_pend w j \<or> w_pend w' j = None"
    "\<And>j. j \<in> w_rcv w \<Longrightarrow> w_cur w' < j \<Longrightarrow> j \<in> w_rcv w'"
  shows "w_safe ordered A w'"
proof -
  have out: "(j \<le> w_cur w' \<or> j \<in> w_rcv w') \<and> w_pend w' j = None" if "j \<in> fst ` set (w_out w)" for j
  proof -
    have "(j \<le> w_cur w \<or> j \<in> w_rcv w) \<and> w_pend w j = None"
      using assms(1) that by (auto simp: w_safe_def)
    with assms(3) assms(4) [of j] assms(5) [of j] show ?thesis by (cases "w_cur w' < j") auto
  qed
  have pend: "(j, d) \<in> A" if "w_pend w' j = Some d" for j d
    using assms(1) assms(4) [of j] that by (simp add: w_safe_def)
  have cur: "j \<le> w_cur w'" if "ordered" "j \<in> fst ` set (w_out w)" for j
    using assms(1,3) that by (metis le_trans w_safe_def)
  show ?thesis
    using assms(1) out pend cur unfolding w_safe_def assms(2) by simp
qed

lemma w_safe_step_cur:
  "w_safe ordered A w \<Longrightarrow> w_safe ordered A ((w_forget (w_cur w) w)\<lparr>w_cur := Suc (w_cur w)\<rparr>)"
  by (erule w_safe_cong) auto

lemma w_safe_skip: "w_safe ordered A w \<Longrightarrow> w_safe ordered A (w_skip W w)"
  by (simp add: w_skip_def w_safe_step_cur)

lemma w_safe_note: "w_safe ordered A w \<Longrightarrow> w_safe ordered A (w_note k w)"
  by (erule w_safe_cong) (auto simp: w_note_def Let_def)

lemma w_safe_store:
  assumes "w_safe ordered A w" "w_cur w < k \<or> k \<notin> fst ` set (w_out w)" "k \<notin> w_rcv w"
  shows "w_safe ordered (insert (k, d) A) (w_store k d w)"
proof -
  have "k \<notin> fst ` set (w_out w)" using assms unfolding w_safe_def by (meson leD)
  with assms(1) show ?thesis by (auto simp: w_safe_def w_store_def)
qed

lemma w_safe_visit:
  assumes "w_safe ordered A w" "w_cur w \<le> j" "j \<in> w_rcv w" "ordered \<longrightarrow> step"
  shows "w_safe ordered A (w_visit step j w)"
proof (cases "w_pend w j")
  case None
  with assms show ?thesis by (auto simp: w_safe_def w_visit_def w_emit_def)
next
  case (Some d)
  then have new: "j \<notin> fst ` set (w_out w)" using assms(1) by (auto simp: w_safe_def)
  then have "\<forall>i \<in> fst ` set (w_out w). i < j" if ordered
    using that assms(1,2) unfolding w_safe_def by (metis le_trans nless_le)
  with new Some assms show ?thesis
    by (auto simp: w_safe_def w_visit_def w_emit_def sorted_wrt_append)
qed

lemma w_safe_walk:
  assumes "w_safe ordered A w" "w_shape B w" "w_stepping step j w" "ordered \<longrightarrow> step"
  shows "w_safe ordered A (w_walk ordered n step j w)"
  using assms
proof (induction n arbitrary: step j w)
  case (Suc n)
  have cur: "w_cur w \<le> j" using Suc.prems(3) by (simp add: w_stepping_def)
  show ?case
  proof (cases "j \<in> w_rcv w")
    case True
    have "w_safe ordered A (w_visit step j w)"
      using Suc.prems cur True by (intro w_safe_visit) auto
    moreover have "w_shape B (w_visit step j w)"
      using Suc.prems(2,3) True by (rule w_visit_shape)
    ultimately show ?thesis
      using True Suc w_visit_stepping [OF Suc.prems(2,3) True] by (cases "j = w_last w") simp_all
  next
    case False
    have "w_stepping False (Suc j) w" if "j \<noteq> w_last w"
      using that Suc.prems(3) by (auto simp: w_stepping_def)
    with False Suc.prems Suc.IH [of w False "Suc j"] show ?thesis by simp
  qed
qed simp

lemma w_receive_safe:
  assumes "w_safe ordered A w" "w_shape B w" "k \<le> w_cur w + B"
  shows "w_safe ordered (insert (k, d) A) (snd (w_receive ordered W k d w))"
proof -
  let ?w1 = "w_skip W w"
  have s1: "w_safe ordered A ?w1" and h1: "w_shape B ?w1" and k1: "k \<le> w_cur ?w1 + B"
    using assms by (auto simp: w_safe_skip w_shape_skip) (simp add: w_skip_def)
  show ?thesis
  proof (cases "k \<le> w_cur ?w1")
    case True
    then show ?thesis using w_safe_mono [OF s1] by (auto simp: w_receive_def)
  next
    case False
    let ?w2 = "w_note k ?w1"
    have s2: "w_safe ordered A ?w2" and h2: "w_shape B ?w2" 
      using s1 h1 k1 False by (auto simp: w_safe_note w_shape_note)
    have b: "w_cur ?w2 \<le> k" "k \<le> w_last ?w2" using w_note_bounds [of ?w1 k] False by auto
    show ?thesis
    proof (cases "k \<in> w_rcv ?w2")
      case True
      with False show ?thesis using w_safe_mono [OF s2] by (auto simp: w_receive_def)
    next
      case nk: False
      have "k \<notin> fst ` set (w_out ?w1)"
        using s1 False nk unfolding w_safe_def w_note_def Let_def by (auto split: if_splits)
      then have s3: "w_safe ordered (insert (k, d) A) (w_store k d ?w2)"
        using s2 nk by (intro w_safe_store) (auto simp: w_note_def Let_def)
      have h3: "w_shape B (w_store k d ?w2)" using h2 b by (rule w_shape_store)
      have "w_safe ordered (insert (k, d) A) (w_publish ordered W (w_store k d ?w2))"
        unfolding w_publish_def using s3 h3 w_stepping_start [OF h3] by (rule w_safe_walk) simp
      with False nk show ?thesis by (simp add: w_receive_def)
    qed
  qed
qed

section \<open>Progress of the current number\<close>

lemma w_walk_cur:
  assumes "w_shape B w" "w_stepping step j w"
  shows "w_cur w \<le> w_cur (w_walk ordered n step j w) \<and> w_shape B (w_walk ordered n step j w)
     \<and> w_last (w_walk ordered n step j w) = w_last w"
  using assms
proof (induction n arbitrary: step j w)
  case (Suc n)
  show ?case
  proof (cases "j \<in> w_rcv w")
    case True
    have shape: "w_shape B (w_visit step j w)" using Suc.prems True by (rule w_visit_shape)
    have le: "w_cur w \<le> w_cur (w_visit step j w)" by (auto simp: w_visit_def)
    show ?thesis
    proof (cases "j = w_last w")
      case False
      with True Suc.IH [OF shape w_visit_stepping [OF Suc.prems True False]] le show ?thesis by auto
    qed (use True shape le in auto)
  next
    case False
    have "w_stepping False (Suc j) w" if "j \<noteq> w_last w"
      using that Suc.prems(2) by (auto simp: w_stepping_def)
    with False Suc.prems Suc.IH [of w False "Suc j"] show ?thesis by auto
  qed
qed simp

lemma w_receive_cur:
  assumes "w_shape 1022 w" "k \<le> w_cur w + 1022"
  shows "w_cur w \<le> w_cur (snd (w_receive ordered W k d w))
     \<and> w_cur (snd (w_receive ordered W k d w)) \<le> w_cur w + 2000"
proof -
  let ?w1 = "w_skip W w" and ?w2 = "w_note k (w_skip W w)"
  have h1: "w_shape 1022 ?w1" "w_cur w \<le> w_cur ?w1" "w_cur ?w1 \<le> Suc (w_cur w)" "w_last ?w1 = w_last w"
    using w_shape_skip [OF assms(1)] by (auto simp: w_skip_def)
  have L: "w_last w \<le> w_cur w + 1022" using assms(1) by (simp add: w_shape_def)
  show ?thesis
  proof (cases "k \<le> w_cur ?w1")
    case True
    with h1 show ?thesis by (simp add: w_receive_def)
  next
    case False
    have h2: "w_shape 1022 ?w2" using h1 assms(2) False by (intro w_shape_note) auto
    have c2: "w_cur ?w1 \<le> w_cur ?w2" "w_last ?w2 = max (w_last w) k" "w_cur ?w2 \<le> k" "k \<le> w_last ?w2"
      using False h1(4) by (auto simp: w_note_def Let_def)
    let ?w3 = "w_publish ordered W (w_store k d ?w2)"
    have h3: "w_shape 1022 (w_store k d ?w2)" using h2 c2 by (intro w_shape_store)
    have w3: "w_cur (w_store k d ?w2) \<le> w_cur ?w3 \<and> w_shape 1022 ?w3 \<and> w_last ?w3 = w_last (w_store k d ?w2)"
      unfolding w_publish_def by (rule w_walk_cur [OF h3 w_stepping_start [OF h3]])
    moreover have "w_cur ?w3 \<le> w_last ?w3" "w_cur ?w2 \<le> w_last ?w2" using w3 h2 by (auto simp: w_shape_def)
    moreover have "w_cur (w_store k d ?w2) = w_cur ?w2" "w_last (w_store k d ?w2) = w_last ?w2"
      by (simp_all add: w_store_def)
    ultimately show ?thesis
      using False h1 c2 L assms(2) by (auto simp: w_receive_def Let_def)
  qed
qed

end
