(* ===== verification/Receive_Session.thy ===== *)
theory Receive_Session
  imports Receiver_Refinement Window_Delivery
begin

text \<open>
  Runs of the receiver of the code over arbitrary arrivals: the inductive relations
  \<open>window_run\<close> (every packet lies inside the window) and \<open>lossy_run\<close> (gaps may be given up),
  and the delivery guarantees of both, by rule induction over the refinement of
  \<open>Receiver_Refinement\<close> and the guarantees of \<open>Window_Delivery\<close>.
\<close>

section \<open>Messages that the application has taken\<close>

text \<open>The window does not depend on the messages that were published and taken before.\<close>

definition w_taken :: "(nat \<times> 'd) list \<Rightarrow> 'd window \<Rightarrow> 'd window" where
  "w_taken xs w = w\<lparr>w_out := xs @ w_out w\<rparr>"

lemma w_taken_sel [simp]:
  "w_cur (w_taken xs w) = w_cur w" "w_last (w_taken xs w) = w_last w" "w_rcv (w_taken xs w) = w_rcv w"
  "w_pend (w_taken xs w) = w_pend w" "w_out (w_taken xs w) = xs @ w_out w"
  by (simp_all add: w_taken_def)

lemma w_taken_upd [simp]:
  "(w_taken xs w)\<lparr>w_cur := c\<rparr> = w_taken xs (w\<lparr>w_cur := c\<rparr>)"
  "(w_taken xs w)\<lparr>w_last := c\<rparr> = w_taken xs (w\<lparr>w_last := c\<rparr>)"
  "(w_taken xs w)\<lparr>w_rcv := A\<rparr> = w_taken xs (w\<lparr>w_rcv := A\<rparr>)"
  "(w_taken xs w)\<lparr>w_pend := p\<rparr> = w_taken xs (w\<lparr>w_pend := p\<rparr>)"
  by (simp_all add: w_taken_def)

lemma w_taken_visit [simp]: "w_visit step j (w_taken xs w) = w_taken xs (w_visit step j w)"
  by (simp add: w_visit_def w_emit_def w_taken_def split: option.split)

lemma w_taken_walk [simp]: "w_walk ordered n step j (w_taken xs w) = w_taken xs (w_walk ordered n step j w)"
  by (induction ordered n step j w rule: w_walk.induct) auto

lemma w_taken_receive:
  "w_receive ordered W k d (w_taken xs w) =
     (fst (w_receive ordered W k d w), w_taken xs (snd (w_receive ordered W k d w)))"
proof -
  have "w_skip W (w_taken xs w) = w_taken xs (w_skip W w)" for w :: "'a window"
    by (simp add: w_skip_def w_forget_def)
  moreover have "w_note k (w_taken xs w) = w_taken xs (w_note k w)" for w :: "'a window"
    by (simp add: w_note_def w_forget_def Let_def)
  moreover have "w_store k d (w_taken xs w) = w_taken xs (w_store k d w)" for w :: "'a window"
    by (simp add: w_store_def)
  ultimately show ?thesis by (simp add: w_receive_def w_publish_def Let_def)
qed

lemma take_published_refines:
  assumes rel: "recv_rel ordered W w r" and t: "take_published r = (Some b, r1)"
  shows "\<exists>x xs. w_out w = x # xs \<and> snd x = bb_content b
      \<and> recv_rel ordered W (w\<lparr>w_out := xs\<rparr>) (receiver_return_buffer r1 b)"
proof -
  note R = rel [unfolded recv_rel_def]
  obtain bs where bs: "r_published r = b # bs" "r1 = r\<lparr>r_published := bs\<rparr>"
    using t by (auto simp: take_published_def split: list.splits)
  then obtain x xs where x: "w_out w = x # xs" "snd x = bb_content b" "map bb_content bs = map snd xs"
    using R by (cases "w_out w") auto
  have "bp_wf (snd (return_buffer (r_buffer_pool r) b))
     \<and> bp_buffer_size (snd (return_buffer (r_buffer_pool r) b)) = bp_buffer_size (r_buffer_pool r)"
    using bp.ret_law [of "r_buffer_pool r" b] R bs by auto
  with R bs x show ?thesis
    by (simp add: recv_rel_def receiver_return_buffer_def w_shape_def)
qed

lemma receiver_create_refines: "recv_rel ordered (unat W) w_init (receiver_create ordered W)"
proof -
  have "sb_wf (r_buffered (receiver_create ordered W))" "sb_wf (r_received (receiver_create ordered W))"
    by (simp_all add: receiver_create_def sb_wf_def)
  then show ?thesis
    by (auto simp: recv_rel_def receiver_create_def w_init_def w_shape_def flags_of_def bufs_of_def
        sb_cell_def seq_of_def bp_default_def)
qed

section \<open>Runs inside the window\<close>

text \<open>
  The numbers that arrived, in order of arrival, determine how many messages can be
  delivered in order: the longest run 1, 2, ... without a gap.
\<close>

definition contiguous :: "nat list \<Rightarrow> nat" where
  "contiguous ks = length (takeWhile (\<lambda>j. j \<in> set ks) [1..<Suc (length ks)])"

lemma contiguous_reaches: "reaches (set ks) 0 (contiguous ks)"
proof -
  let ?P = "\<lambda>j. j \<in> set ks" and ?js = "[1..<Suc (length ks)]"
  have all: "j \<in> set ks" if "0 < j" "j \<le> contiguous ks" for j
  proof -
    have le: "contiguous ks \<le> length ks"
      unfolding contiguous_def using length_takeWhile_le [of ?P ?js] by (simp del: upt_Suc)
    have "takeWhile ?P ?js ! (j - 1) \<in> set (takeWhile ?P ?js)"
      using that by (intro nth_mem) (simp add: contiguous_def del: upt_Suc)
    then have "takeWhile ?P ?js ! (j - 1) \<in> set ks" by (rule set_takeWhileD [THEN conjunct2])
    moreover have "takeWhile ?P ?js ! (j - 1) = ?js ! (j - 1)"
      using that by (intro takeWhile_nth) (simp add: contiguous_def del: upt_Suc)
    ultimately show ?thesis using that le by (simp add: nth_upt del: upt_Suc)
  qed
  have "Suc (contiguous ks) \<notin> set ks"
  proof (cases "contiguous ks < length ks")
    case True
    then have "\<not> ?P (?js ! contiguous ks)"
      unfolding contiguous_def by (intro nth_length_takeWhile) (simp del: upt_Suc)
    then show ?thesis using True by (simp add: nth_upt del: upt_Suc)
  next
    case False
    have "{1..Suc (contiguous ks)} \<subseteq> set ks" if "Suc (contiguous ks) \<in> set ks"
      using all that by (auto simp: le_Suc_eq)
    then have "Suc (contiguous ks) \<le> length ks" if "Suc (contiguous ks) \<in> set ks"
      using that card_mono [of "set ks" "{1..Suc (contiguous ks)}"] card_length [of ks] by simp
    with False show ?thesis by auto
  qed
  with all show ?thesis by (simp add: reaches_def)
qed

lemma reaches_extend: "reaches S 0 c \<Longrightarrow> reaches (insert k S) 0 m \<Longrightarrow> reaches (insert k S) c m"
  unfolding reaches_def by (metis bot_nat_0.extremum insertCI less_Suc_eq_le linorder_not_le zero_less_Suc order.strict_trans1)

definition newest :: "nat list \<Rightarrow> nat" where
  "newest ks = fold max ks 0"

lemma newest_snoc [simp]: "newest [] = 0" "newest (ks @ [k]) = max (newest ks) k"
  by (simp_all add: newest_def max.commute)

lemma newest_le: "k \<in> set ks \<Longrightarrow> k \<le> newest ks"
  by (induction ks rule: rev_induct) (auto simp: le_max_iff_disj)

text \<open>Network behaviour inside the window: a packet lies at most a window ahead of what
  has been delivered, and a repeated one at most 30000 behind it.\<close>

definition arrival_ok :: "u32 \<Rightarrow> nat list \<Rightarrow> nat \<Rightarrow> bool" where
  "arrival_ok W ks k \<longleftrightarrow> 0 < k \<and> k < contiguous ks + unat W \<and> contiguous ks \<le> k + 30000"

inductive window_run :: "bool \<Rightarrow> u32 \<Rightarrow> (nat \<Rightarrow> bytes) \<Rightarrow> nat list \<Rightarrow> receiver \<Rightarrow> bytes list \<Rightarrow> bool"
  for ordered W msg where
  start: "window_run ordered W msg [] (receiver_create ordered W) []"
| arrive: "window_run ordered W msg ks r out \<Longrightarrow> arrival_ok W ks k \<Longrightarrow>
    len \<le> length data \<Longrightarrow> take len data = msg k \<Longrightarrow>
    receive_packet r (seq_of k) data len = Some (b, r') \<Longrightarrow> window_run ordered W msg (ks @ [k]) r' out"
| taking: "window_run ordered W msg ks r out \<Longrightarrow> take_published r = (Some b, r1) \<Longrightarrow>
    window_run ordered W msg ks (receiver_return_buffer r1 b) (out @ [bb_content b])"
| publishing: "window_run ordered W msg ks r out \<Longrightarrow> publish r = Some r' \<Longrightarrow> window_run ordered W msg ks r' out"
| nacking: "window_run ordered W msg ks r out \<Longrightarrow> create_nacks r = Some (n, r') \<Longrightarrow>
    window_run ordered W msg ks r' out"
| requeue: "window_run ordered W msg ks r out \<Longrightarrow> window_run ordered W msg ks (r\<lparr>r_nack_queue := q\<rparr>) out"


inductive_cases window_runE: "window_run ordered W msg ks r out"

text \<open>The ghost state of a run: the window the receiver implements, with everything the
  application has taken put back in front of its output.\<close>

definition run_inv :: "bool \<Rightarrow> u32 \<Rightarrow> bytes window \<Rightarrow> receiver \<Rightarrow> bytes list \<Rightarrow> bool" where
  "run_inv ordered W w r out \<longleftrightarrow>
     (\<exists>xs w0. w = w_taken xs w0 \<and> map snd xs = out \<and> recv_rel ordered (unat W) w0 r)"

lemma run_inv_start: "run_inv ordered W w_init (receiver_create ordered W) []"
  unfolding run_inv_def
  by (intro exI [of _ "[]"] exI [of _ w_init]) (simp add: receiver_create_refines w_taken_def)

lemma run_inv_take:
  assumes "run_inv ordered W w r out" "take_published r = (Some b, r1)"
  shows "run_inv ordered W w (receiver_return_buffer r1 b) (out @ [bb_content b])"
proof -
  obtain xs w0 where w0: "w = w_taken xs w0" "map snd xs = out" "recv_rel ordered (unat W) w0 r"
    using assms(1) by (auto simp: run_inv_def)
  obtain x ys where x: "w_out w0 = x # ys" "snd x = bb_content b"
    "recv_rel ordered (unat W) (w0\<lparr>w_out := ys\<rparr>) (receiver_return_buffer r1 b)"
    using take_published_refines [OF w0(3) assms(2)] by blast
  have "w = w_taken (xs @ [x]) (w0\<lparr>w_out := ys\<rparr>)" using w0(1) x(1) by (simp add: w_taken_def)
  with w0(2) x(2,3) show ?thesis
    unfolding run_inv_def by (intro exI [of _ "xs @ [x]"] exI [of _ "w0\<lparr>w_out := ys\<rparr>"]) simp
qed

lemma run_inv_arrive:
  assumes "run_inv ordered W w r out" "unat W \<le> 1022" "k \<le> w_cur w + 1022" "w_cur w \<le> k + 30000"
    "len \<le> length data"
  shows "\<exists>r'. receive_packet r (seq_of k) data len
       = Some (fst (w_receive ordered (unat W) k (take len data) w), r')
     \<and> run_inv ordered W (snd (w_receive ordered (unat W) k (take len data) w)) r' out"
proof -
  obtain xs w0 where w0: "w = w_taken xs w0" "map snd xs = out" "recv_rel ordered (unat W) w0 r"
    using assms(1) by (auto simp: run_inv_def)
  let ?res = "w_receive ordered (unat W) k (take len data) w0"
  obtain r' where "receive_packet r (seq_of k) data len = Some (fst ?res, r')"
    "recv_rel ordered (unat W) (snd ?res) r'"
    using receive_packet_refines [OF w0(3) assms(2), of k len data] assms(3-5) w0(1) by auto
  with w0 show ?thesis by (auto simp: run_inv_def w_taken_receive)
qed

lemma run_inv_published: "run_inv ordered W w r out \<Longrightarrow> out @ map bb_content (r_published r) = map snd (w_out w)"
  by (auto simp: run_inv_def recv_rel_def)

lemma run_inv_current:
  "run_inv ordered W w r out \<Longrightarrow> r_current_sequence r = seq_of (w_cur w) \<and> r_last_sequence r = seq_of (w_last w)"
  by (auto simp: run_inv_def recv_rel_def)

text \<open>The nacks are no part of the window.\<close>

definition nacks_only :: "receiver \<Rightarrow> receiver \<Rightarrow> bool" where
  "nacks_only r r' \<longleftrightarrow> r' = r\<lparr>r_nack_list := r_nack_list r', r_nack_queue := r_nack_queue r'\<rparr>"

lemma nacks_only_refl [simp]: "nacks_only r r" "nacks_only r (push_nack r n)"
  "nacks_only r (r\<lparr>r_nack_list := l, r_nack_queue := l'\<rparr>)"
  by (simp_all add: nacks_only_def push_nack_def)

lemma nacks_only_trans: "nacks_only r r1 \<Longrightarrow> nacks_only r1 r2 \<Longrightarrow> nacks_only r r2"
  by (cases r, cases r1, cases r2) (simp add: nacks_only_def)

lemma nack_outer_frame: "nack_outer F r q c = Some (c', r') \<Longrightarrow> nacks_only r r'"
proof (induction F arbitrary: r q c)
  case (Suc F)
  have "nacks_only r r'" if "nack_outer F (push_nack r n) q c = Some (c', r')" for q c n
    using Suc.IH [OF that] nacks_only_trans [of r "push_nack r n" r'] by simp
  with Suc show ?case by (auto simp: bind_Some_iff Let_def split: if_splits)
qed simp

lemma create_nacks_frame: "create_nacks r = Some (n, r') \<Longrightarrow> nacks_only r r'"
  using nack_outer_frame nacks_only_trans [of r "r\<lparr>r_nack_list := [], r_nack_queue := []\<rparr>" r']
  by (fastforce simp: create_nacks_def Let_def split: if_splits)

lemma run_inv_nacks: "run_inv ordered W w r out \<Longrightarrow> nacks_only r r' \<Longrightarrow> run_inv ordered W w r' out"
proof -
  assume r: "run_inv ordered W w r out" "nacks_only r r'"
  have "recv_rel ordered (unat W) w0 (r\<lparr>r_nack_list := l, r_nack_queue := l'\<rparr>)"
    if "recv_rel ordered (unat W) w0 r" for w0 l l'
    using that by (simp add: recv_rel_def)
  then show ?thesis using r unfolding run_inv_def nacks_only_def by metis
qed

lemma run_inv_requeue: "run_inv ordered W w r out \<Longrightarrow> run_inv ordered W w (r\<lparr>r_nack_queue := l\<rparr>) out"
  by (auto simp: run_inv_def recv_rel_def)

lemma run_inv_publish:
  assumes "run_inv ordered W w r out"
  shows "\<exists>r'. publish r = Some r' \<and> run_inv ordered W (w_publish ordered (unat W) w) r' out"
proof -
  obtain xs w0 where w0: "w = w_taken xs w0" "map snd xs = out" "recv_rel ordered (unat W) w0 r"
    using assms by (auto simp: run_inv_def)
  then show ?thesis
    using publish_refines [OF w0(3)] by (auto simp: run_inv_def w_publish_def)
qed

text \<open>What both kinds of channel need of the arrivals.\<close>

lemma arrival_facts:
  assumes "arrival_ok W ks k" "newest ks < contiguous ks + unat W \<or> ks = []"
  shows "Suc (contiguous ks) \<notin> set ks" "\<forall>j \<in> set ks. j \<le> newest ks" "contiguous ks \<le> newest ks"
    "newest ks < contiguous ks + unat W" "k < contiguous ks + unat W"
    "reaches (insert k (set ks)) (contiguous ks) (contiguous (ks @ [k]))"
    "contiguous ks < k \<and> k \<notin> set ks \<longleftrightarrow> k \<notin> set ks"
proof -
  have r: "reaches (set ks) 0 (contiguous ks)" by (rule contiguous_reaches)
  show S: "\<forall>j \<in> set ks. j \<le> newest ks" by (simp add: newest_le)
  show "contiguous ks \<le> newest ks" using reaches_le [OF r S] by simp
  show "Suc (contiguous ks) \<notin> set ks" using r by (simp add: reaches_def)
  show "newest ks < contiguous ks + unat W" "k < contiguous ks + unat W"
    using assms by (auto simp: arrival_ok_def contiguous_def)
  show "reaches (insert k (set ks)) (contiguous ks) (contiguous (ks @ [k]))"
    using reaches_extend [OF r] contiguous_reaches [of "ks @ [k]"] by simp
  show "contiguous ks < k \<and> k \<notin> set ks \<longleftrightarrow> k \<notin> set ks"
    using r assms(1) by (auto simp: reaches_def arrival_ok_def)
qed

lemma newest_bound_step:
  assumes "arrival_ok W ks k" "newest ks < contiguous ks + unat W \<or> ks = []"
  shows "newest (ks @ [k]) < contiguous (ks @ [k]) + unat W"
  using arrival_facts [OF assms] by (auto simp: reaches_def)

lemma ordered_step:
  assumes "arrival_ok W ks k" "newest ks < contiguous ks + unat W \<or> ks = []"
  shows "w_receive True (unat W) k (msg k) (w_at (set ks) msg (newest ks) (contiguous ks)) =
     (k \<notin> set ks, w_at (set (ks @ [k])) msg (newest (ks @ [k])) (contiguous (ks @ [k])))"
proof -
  note f = arrival_facts [OF assms]
  have "0 < unat W" using f(3,4) by simp
  from w_receive_ordered [OF f(1-3) _ this _ f(6), of msg] f(4,5,7) show ?thesis by simp
qed

definition arrived :: "nat list \<Rightarrow> (nat \<Rightarrow> bytes) \<Rightarrow> (nat \<times> bytes) list" where
  "arrived ks msg = map (\<lambda>k. (k, msg k)) (rev (remdups (rev ks)))"

lemma unordered_step:
  assumes "arrival_ok W ks k" "newest ks < contiguous ks + unat W \<or> ks = []"
  shows "w_receive False (unat W) k (msg k) (w_flat (set ks) (newest ks) (arrived ks msg) (contiguous ks)) =
     (k \<notin> set ks, w_flat (set (ks @ [k])) (newest (ks @ [k])) (arrived (ks @ [k]) msg) (contiguous (ks @ [k])))"
proof -
  note f = arrival_facts [OF assms]
  have dup: "contiguous (ks @ [k]) = contiguous ks" if "k \<in> set ks"
    using f(1,6) that by (simp add: insert_absorb reaches_stay)
  have new: "max (newest ks) k = newest ks" if "k \<in> set ks"
    using f(2) that by (simp add: max_absorb1)
  from w_receive_unordered [OF f(1-4) f(5,6), of "msg k" "arrived ks msg"] f(7) show ?thesis
    by (auto simp: arrived_def dup new insert_absorb)
qed


definition run_window :: "bool \<Rightarrow> (nat \<Rightarrow> bytes) \<Rightarrow> nat list \<Rightarrow> bytes window" where
  "run_window ordered msg ks =
     (if ordered then w_at (set ks) msg (newest ks) (contiguous ks)
      else w_flat (set ks) (newest ks) (arrived ks msg) (contiguous ks))"

lemma run_window_step:
  assumes "arrival_ok W ks k" "newest ks < contiguous ks + unat W \<or> ks = []"
  shows "w_receive ordered (unat W) k (msg k) (run_window ordered msg ks) =
     (k \<notin> set ks, run_window ordered msg (ks @ [k]))"
  using ordered_step [OF assms, of msg] unordered_step [OF assms, of msg] by (simp add: run_window_def)

lemma run_window_sel [simp]: "w_cur (run_window ordered msg ks) = contiguous ks" "w_last (run_window ordered msg ks) = newest ks"
  by (simp_all add: run_window_def)

lemma run_window_start: "run_window ordered msg [] = w_init"
  by (simp add: run_window_def w_at_def w_flat_def w_init_def arrived_def contiguous_def)

lemma run_window_publish: "w_publish ordered V (run_window ordered msg ks) = run_window ordered msg ks"
  by (cases V) (auto simp: w_publish_def run_window_def w_walk_idle)

lemma window_run_arrive:
  assumes "run_inv ordered W (run_window ordered msg ks) r out" "newest ks < contiguous ks + unat W \<or> ks = []"
    "unat W \<le> 1022" "arrival_ok W ks k" "len \<le> length data" "take len data = msg k"
  shows "\<exists>r'. receive_packet r (seq_of k) data len = Some (k \<notin> set ks, r')
     \<and> run_inv ordered W (run_window ordered msg (ks @ [k])) r' out"
  using run_inv_arrive [OF assms(1,3), of k len data] run_window_step [OF assms(4,2), of ordered msg] assms(3-6)
  by (auto simp: arrival_ok_def)

lemma window_run_inv:
  assumes "window_run ordered W msg ks r out" "unat W \<le> 1022"
  shows "run_inv ordered W (run_window ordered msg ks) r out \<and> (newest ks < contiguous ks + unat W \<or> ks = [])"
  using assms(1)
proof (induction rule: window_run.induct)
  case start
  then show ?case by (simp add: run_window_start run_inv_start)
next
  case (arrive ks r out k len data b r')
  then show ?case
    using window_run_arrive [of ordered W msg ks r out k len data] assms(2)
      newest_bound_step [of W ks k] by auto
next
  case (taking ks r out b r1)
  then show ?case using run_inv_take by blast
next
  case (publishing ks r out r')
  then show ?case using run_inv_publish [of ordered W "run_window ordered msg ks" r out] by (simp add: run_window_publish)
next
  case (nacking ks r out n r')
  then show ?case using create_nacks_frame [of r n r'] run_inv_nacks by blast
next
  case (requeue ks r out q)
  then show ?case using run_inv_requeue by blast
qed

section \<open>Delivery\<close>

lemma window_run_extend:
  assumes "window_run ordered W msg ks r out" "unat W \<le> 1022" "arrival_ok W ks k"
  shows "\<exists>r'. window_run ordered W msg (ks @ [k]) r' out"
proof -
  note inv = window_run_inv [OF assms(1,2)]
  have "length (msg k) \<le> length (msg k)" "take (length (msg k)) (msg k) = msg k" by simp_all
  then show ?thesis
    using window_run_arrive [OF inv [THEN conjunct1] inv [THEN conjunct2] assms(2,3)]
      window_run.arrive [OF assms(1,3)] by blast
qed

text \<open>A reordered, repeated arrival: the packets 2, 1, 2 and 4 reach a fresh receiver.\<close>

lemma sample_run:
  "\<exists>r. window_run ordered 512 msg [2, 1, 2, 4] r []"
proof -
  let ?run = "window_run ordered 512 msg"
  have "\<exists>r. ?run ([] @ [2]) r []"
    by (rule window_run_extend [OF window_run.start]) (simp_all add: arrival_ok_def contiguous_def)
  then have "\<exists>r. ?run ([2] @ [1]) r []"
    using window_run_extend [of ordered 512 msg "[2]" _ "[]" 1] by (auto simp: arrival_ok_def contiguous_def)
  then have "\<exists>r. ?run ([2, 1] @ [2]) r []"
    using window_run_extend [of ordered 512 msg "[2, 1]" _ "[]" 2] by (auto simp: arrival_ok_def contiguous_def upt_rec)
  then have "\<exists>r. ?run ([2, 1, 2] @ [4]) r []"
    using window_run_extend [of ordered 512 msg "[2, 1, 2]" _ "[]" 4] by (auto simp: arrival_ok_def contiguous_def upt_rec)
  then show ?thesis by simp
qed

text \<open>
  C5. Ordered channels deliver exactly once and in order: after any arrivals inside the
  window, in any order and with repetitions, what the application has taken followed by
  what it can take is exactly the messages 1, ..., n, where n is the length of the longest
  prefix without a gap that has arrived, and the current number of the receiver is n.
\<close>

theorem ordered_delivery:
  assumes "window_run True W msg ks r out" "unat W \<le> 1022"
  shows "out @ map bb_content (r_published r) = map msg [1..<Suc (contiguous ks)]
    \<and> r_current_sequence r = seq_of (contiguous ks)"
  using window_run_inv [OF assms] run_inv_published run_inv_current
  by (auto simp: run_window_def w_at_def simp del: upt_Suc)

theorem ordered_delivery_witness:
  "\<exists>r. window_run True 512 (\<lambda>k. [of_nat k]) [2, 1, 2, 4] r []
     \<and> map bb_content (r_published r) = [[1], [2]] \<and> r_current_sequence r = 2"
proof -
  obtain r where r: "window_run True 512 (\<lambda>k. [of_nat k]) [2, 1, 2, 4] r []"
    using sample_run by blast
  have "contiguous [2, 1, 2, 4] = 2" by (simp add: contiguous_def upt_rec)
  with r ordered_delivery [OF r] show ?thesis by (auto simp: seq_of_def upt_rec)
qed

text \<open>
  C6. Unordered channels deliver exactly once and at once: after any arrivals inside the
  window, what the application has taken followed by what it can take is exactly the
  arrived messages, each once, in the order in which they first arrived.
\<close>

theorem unordered_delivery:
  assumes "window_run False W msg ks r out" "unat W \<le> 1022"
  shows "out @ map bb_content (r_published r) = map msg (rev (remdups (rev ks)))"
  using window_run_inv [OF assms] run_inv_published
  by (auto simp: run_window_def w_flat_def arrived_def)

theorem unordered_delivery_witness:
  "\<exists>r. window_run False 512 (\<lambda>k. [of_nat k]) [2, 1, 2, 4] r []
     \<and> map bb_content (r_published r) = [[2], [1], [4]]"
proof -
  obtain r where r: "window_run False 512 (\<lambda>k. [of_nat k]) [2, 1, 2, 4] r []"
    using sample_run by blast
  from r unordered_delivery [OF r] show ?thesis by auto
qed

text \<open>
  A receiver never fails inside the window, and it tells new from old: in a state reached
  by arrivals inside the window, \<open>receive_packet\<close> returns, and it answers true exactly for a
  number that has not arrived before.
\<close>

lemma arrival_accepted:
  assumes "window_run ordered W msg ks r out" "unat W \<le> 1022" "arrival_ok W ks k"
    "len \<le> length data" "take len data = msg k"
  shows "\<exists>r'. receive_packet r (seq_of k) data len = Some (k \<notin> set ks, r')"
proof -
  note inv = window_run_inv [OF assms(1,2)]
  show ?thesis
    using window_run_arrive [OF inv [THEN conjunct1] inv [THEN conjunct2] assms(2-5)] by blast
qed

theorem arrival_accepted_witness:
  "\<exists>r. window_run True 512 (\<lambda>k. [of_nat k]) [2, 1, 2, 4] r []
     \<and> (\<exists>r'. receive_packet r 4 [4, 0] 1 = Some (False, r'))
     \<and> (\<exists>r'. receive_packet r 3 [3, 0] 1 = Some (True, r'))"
proof -
  obtain r where r: "window_run True 512 (\<lambda>k. [of_nat k]) [2, 1, 2, 4] r []"
    using sample_run by blast
  have ok: "arrival_ok 512 [2, 1, 2, 4] 4" "arrival_ok 512 [2, 1, 2, 4] 3"
    by (simp_all add: arrival_ok_def contiguous_def upt_rec)
  from r arrival_accepted [OF r _ ok(1), of 1 "[4, 0]"] arrival_accepted [OF r _ ok(2), of 1 "[3, 0]"]
  show ?thesis by (auto simp: seq_of_def)
qed

section \<open>Runs with loss\<close>

text \<open>
  A run without the promise that gaps are filled: the window is forced up, and numbers are
  given up. \<open>c\<close> is the unbounded count behind the current number of the receiver; the two
  inequalities determine it.
\<close>

inductive lossy_run :: "bool \<Rightarrow> u32 \<Rightarrow> (nat \<Rightarrow> bytes) \<Rightarrow> nat list \<Rightarrow> nat \<Rightarrow> receiver \<Rightarrow> bytes list \<Rightarrow> bool"
  for ordered W msg where
  start: "lossy_run ordered W msg [] 0 (receiver_create ordered W) []"
| arrive: "lossy_run ordered W msg ks c r out \<Longrightarrow> k \<le> c + 1022 \<Longrightarrow> c \<le> k + 30000 \<Longrightarrow>
    len \<le> length data \<Longrightarrow> take len data = msg k \<Longrightarrow>
    receive_packet r (seq_of k) data len = Some (b, r') \<Longrightarrow>
    r_current_sequence r' = seq_of c' \<Longrightarrow> c \<le> c' \<Longrightarrow> c' \<le> c + 2000 \<Longrightarrow>
    lossy_run ordered W msg (ks @ [k]) c' r' out"
| taking: "lossy_run ordered W msg ks c r out \<Longrightarrow> take_published r = (Some b, r1) \<Longrightarrow>
    lossy_run ordered W msg ks c (receiver_return_buffer r1 b) (out @ [bb_content b])"
| publishing: "lossy_run ordered W msg ks c r out \<Longrightarrow> publish r = Some r' \<Longrightarrow>
    r_current_sequence r' = seq_of c' \<Longrightarrow> c \<le> c' \<Longrightarrow> c' \<le> c + 2000 \<Longrightarrow> lossy_run ordered W msg ks c' r' out"
| nacking: "lossy_run ordered W msg ks c r out \<Longrightarrow> create_nacks r = Some (n, r') \<Longrightarrow> lossy_run ordered W msg ks c r' out"
| requeue: "lossy_run ordered W msg ks c r out \<Longrightarrow> lossy_run ordered W msg ks c (r\<lparr>r_nack_queue := q\<rparr>) out"

definition lossy_inv :: "bool \<Rightarrow> u32 \<Rightarrow> (nat \<Rightarrow> bytes) \<Rightarrow> nat list \<Rightarrow> nat \<Rightarrow> receiver \<Rightarrow> bytes list \<Rightarrow> bool" where
  "lossy_inv ordered W msg ks c r out \<longleftrightarrow>
     (\<exists>w. run_inv ordered W w r out \<and> w_cur w = c \<and> w_safe ordered ((\<lambda>k. (k, msg k)) ` set ks) w)"

lemma run_inv_shape: "run_inv ordered W w r out \<Longrightarrow> w_shape 1022 w"
  by (auto simp: run_inv_def recv_rel_def w_shape_def)

lemma lossy_arrive:
  assumes "lossy_inv ordered W msg ks c r out" "unat W \<le> 1022" "k \<le> c + 1022" "c \<le> k + 30000"
    "len \<le> length data" "take len data = msg k"
  shows "\<exists>b r' c'. receive_packet r (seq_of k) data len = Some (b, r') \<and> r_current_sequence r' = seq_of c'
     \<and> c \<le> c' \<and> c' \<le> c + 2000 \<and> lossy_inv ordered W msg (ks @ [k]) c' r' out"
proof -
  obtain w where w: "run_inv ordered W w r out" "w_cur w = c"
    "w_safe ordered ((\<lambda>k. (k, msg k)) ` set ks) w"
    using assms(1) by (auto simp: lossy_inv_def)
  define w' where "w' = snd (w_receive ordered (unat W) k (msg k) w)"
  obtain b r' where r': "receive_packet r (seq_of k) data len = Some (b, r')" "run_inv ordered W w' r' out"
    using run_inv_arrive [OF w(1) assms(2), of k len data] assms w by (auto simp: w'_def)
  have "w_safe ordered ((\<lambda>k. (k, msg k)) ` set (ks @ [k])) w'"
    using w_receive_safe [OF w(3) run_inv_shape [OF w(1)], of k] assms(3) w(2) by (simp add: w'_def)
  moreover have "c \<le> w_cur w'" "w_cur w' \<le> c + 2000"
    using w_receive_cur [OF run_inv_shape [OF w(1)], of k ordered "unat W" "msg k"] assms(3) w(2)
    by (auto simp: w'_def)
  ultimately show ?thesis
    using r' run_inv_current [OF r'(2)] by (auto simp: lossy_inv_def)
qed

lemma lossy_publish:
  assumes "lossy_inv ordered W msg ks c r out"
  shows "\<exists>r' c'. publish r = Some r' \<and> r_current_sequence r' = seq_of c' \<and> c \<le> c' \<and> c' \<le> c + 2000
     \<and> lossy_inv ordered W msg ks c' r' out"
proof -
  obtain w where w: "run_inv ordered W w r out" "w_cur w = c"
    "w_safe ordered ((\<lambda>k. (k, msg k)) ` set ks) w"
    using assms(1) by (auto simp: lossy_inv_def)
  define w' where "w' = w_publish ordered (unat W) w"
  have shape: "w_shape 1022 w" by (rule run_inv_shape [OF w(1)])
  obtain r' where r': "publish r = Some r'" "run_inv ordered W w' r' out"
    using run_inv_publish [OF w(1)] by (auto simp: w'_def)
  have "w_safe ordered ((\<lambda>k. (k, msg k)) ` set ks) w'"
    unfolding w'_def w_publish_def using w(3) shape w_stepping_start [OF shape] by (rule w_safe_walk) simp
  moreover have "w_cur w \<le> w_cur w'" "w_shape 1022 w'" "w_last w' = w_last w"
    using w_walk_cur [OF shape w_stepping_start [OF shape]] by (simp_all add: w'_def w_publish_def)
  moreover from this have "w_cur w' \<le> c + 2000" using shape w(2) by (simp add: w_shape_def)
  ultimately show ?thesis
    using r' w(2) run_inv_current [OF r'(2)] by (auto simp: lossy_inv_def)
qed

lemma lossy_run_inv:
  assumes "lossy_run ordered W msg ks c r out" "unat W \<le> 1022"
  shows "lossy_inv ordered W msg ks c r out"
  using assms(1)
proof (induction rule: lossy_run.induct)
  case start
  have "w_cur w_init = 0" by (simp add: w_init_def)
  then show ?case using run_inv_start w_safe_init by (auto simp: lossy_inv_def)
next
  case (arrive ks c r out k len data b r' c')
  obtain c'' where "r_current_sequence r' = seq_of c''" "c \<le> c''" "c'' \<le> c + 2000"
    "lossy_inv ordered W msg (ks @ [k]) c'' r' out"
    using lossy_arrive [OF arrive.IH assms(2) arrive.hyps(2-5)] arrive.hyps(6) by auto
  moreover have "c'' = c'"
    using calculation(1-3) arrive.hyps(7-9) by (simp add: seq_order)
  ultimately show ?case by simp
next
  case (taking ks c r out b r1)
  then show ?case unfolding lossy_inv_def using run_inv_take by blast
next
  case (publishing ks c r out r' c')
  obtain c'' where "r_current_sequence r' = seq_of c''" "c \<le> c''" "c'' \<le> c + 2000"
    "lossy_inv ordered W msg ks c'' r' out"
    using lossy_publish [OF publishing.IH] publishing.hyps(2) by auto
  moreover have "c'' = c'"
    using calculation(1-3) publishing.hyps(3-5) by (simp add: seq_order)
  ultimately show ?case by simp
next
  case (nacking ks c r out n r')
  then show ?case unfolding lossy_inv_def using create_nacks_frame [of r n r'] run_inv_nacks by blast
next
  case (requeue ks c r out q)
  then show ?case unfolding lossy_inv_def using run_inv_requeue by blast
qed

lemma lossy_published:
  assumes "lossy_run ordered W msg ks c r out" "unat W \<le> 1022"
  shows "\<exists>js. distinct js \<and> (ordered \<longrightarrow> sorted_wrt (<) js) \<and> set js \<subseteq> set ks
     \<and> out @ map bb_content (r_published r) = map msg js"
proof -
  obtain w where w: "run_inv ordered W w r out" "w_safe ordered ((\<lambda>k. (k, msg k)) ` set ks) w"
    using lossy_run_inv [OF assms] by (auto simp: lossy_inv_def)
  have sub: "set (w_out w) \<subseteq> (\<lambda>k. (k, msg k)) ` set ks" using w(2) by (simp add: w_safe_def)
  then have "map snd (w_out w) = map msg (map fst (w_out w))" by auto
  moreover have "set (map fst (w_out w)) \<subseteq> set ks" using sub by auto
  ultimately show ?thesis
    using w(2) run_inv_published [OF w(1)] by (intro exI [of _ "map fst (w_out w)"]) (simp add: w_safe_def)
qed

lemma lossy_run_extend:
  assumes "lossy_run ordered W msg ks c r out" "unat W \<le> 1022" "k \<le> c + 1022" "c \<le> k + 30000"
  shows "\<exists>r' c'. c \<le> c' \<and> c' \<le> c + 2000 \<and> lossy_run ordered W msg (ks @ [k]) c' r' out"
proof -
  have "length (msg k) \<le> length (msg k)" "take (length (msg k)) (msg k) = msg k" by simp_all
  then show ?thesis
    using lossy_arrive [OF lossy_run_inv [OF assms(1,2)] assms(2-4)] lossy_run.arrive [OF assms(1,3,4)] by blast
qed

lemma sample_lossy_run:
  "\<exists>r c. lossy_run ordered 2 (\<lambda>k. [of_nat k]) [9, 5] c r []"
proof -
  let ?run = "lossy_run ordered 2 (\<lambda>k. [of_nat k])"
  have "\<exists>r c. c \<le> 2000 \<and> ?run ([] @ [9]) c r []"
    using lossy_run_extend [OF lossy_run.start, of 2 9 ordered "\<lambda>k. [of_nat k]"] by auto
  then obtain r c where "c \<le> 2000" "?run [9] c r []" by auto
  then show ?thesis using lossy_run_extend [of ordered 2 "\<lambda>k. [of_nat k]" "[9]" c r "[]" 5] by auto
qed





text \<open>
  C9. No panic under loss: in every state a receiver reaches, a packet whose number is at most
  1022 ahead and at most 30000 behind the current one is processed without a panic, and the
  current number moves up by at most 2000, so the run goes on.
\<close>

theorem lossy_not_stuck:
  assumes "lossy_run ordered W msg ks c r out" "unat W \<le> 1022" "k \<le> c + 1022" "c \<le> k + 30000"
    "len \<le> length data" "take len data = msg k"
  shows "\<exists>b r' c'. receive_packet r (seq_of k) data len = Some (b, r') \<and> r_current_sequence r' = seq_of c'
     \<and> c \<le> c' \<and> c' \<le> c + 2000"
  using lossy_arrive [OF lossy_run_inv [OF assms(1,2)] assms(2-6)] by blast

theorem lossy_not_stuck_witness:
  "\<exists>b r' c'. receive_packet (receiver_create False 2) 1000 [1] 1 = Some (b, r')
     \<and> r_current_sequence r' = seq_of c' \<and> c' \<le> 2000"
  using lossy_not_stuck [OF lossy_run.start [of False 2 "\<lambda>k. [1]"], of 1000 1 "[1]"] by (auto simp: seq_of_def)

end
