(* ===== verification/Receiver_Traces.thy ===== *)
theory Receiver_Traces
  imports Receive_Session
begin

text \<open>
  The receiver as a black box: scripts of arrivals and requests of the application, run on the
  code (\<^verbatim>\<open>src/src/tachyon/receiver.rs\<close>) and on the abstract window, give the same answers.
\<close>

subsection \<open>Scripts\<close>

text \<open>A packet with the number \<open>k\<close> arrives, or the application takes a published message and returns its buffer.\<close>

datatype recv_event = Arrive nat bytes | Take

datatype recv_answer = Accepted bool | Took "bytes option"

fun run_receiver :: "recv_event list \<Rightarrow> receiver \<Rightarrow> (recv_answer list \<times> receiver) option" where
  "run_receiver [] r = Some ([], r)"
| "run_receiver (Arrive k d # es) r = do {
     (b, r) \<leftarrow> receive_packet r (seq_of k) d (length d);
     (as, r) \<leftarrow> run_receiver es r;
     Some (Accepted b # as, r) }"
| "run_receiver (Take # es) r =
     (case take_published r of
        (None, r) \<Rightarrow> do { (as, r) \<leftarrow> run_receiver es r; Some (Took None # as, r) }
      | (Some b, r) \<Rightarrow> do {
          (as, r) \<leftarrow> run_receiver es (receiver_return_buffer r b);
          Some (Took (Some (bb_content b)) # as, r) })"

fun run_window_spec :: "bool \<Rightarrow> nat \<Rightarrow> recv_event list \<Rightarrow> bytes window \<Rightarrow> recv_answer list" where
  "run_window_spec ordered W [] w = []"
| "run_window_spec ordered W (Arrive k d # es) w =
     Accepted (fst (w_receive ordered W k d w)) # run_window_spec ordered W es (snd (w_receive ordered W k d w))"
| "run_window_spec ordered W (Take # es) w =
     (case w_out w of
        [] \<Rightarrow> Took None # run_window_spec ordered W es w
      | x # xs \<Rightarrow> Took (Some (snd x)) # run_window_spec ordered W es (w\<lparr>w_out := xs\<rparr>))"

text \<open>Every arriving number is at most 1022 ahead and 30000 behind the current one.\<close>

fun in_reach :: "bool \<Rightarrow> nat \<Rightarrow> recv_event list \<Rightarrow> bytes window \<Rightarrow> bool" where
  "in_reach ordered W [] w = True"
| "in_reach ordered W (Arrive k d # es) w =
     (k \<le> w_cur w + 1022 \<and> w_cur w \<le> k + 30000 \<and> in_reach ordered W es (snd (w_receive ordered W k d w)))"
| "in_reach ordered W (Take # es) w =
     in_reach ordered W es (case w_out w of [] \<Rightarrow> w | x # xs \<Rightarrow> w\<lparr>w_out := xs\<rparr>)"

lemma run_receiver_refines:
  assumes "recv_rel ordered W w r" "W \<le> 1022" "in_reach ordered W es w"
  shows "\<exists>r'. run_receiver es r = Some (run_window_spec ordered W es w, r')"
  using assms(1,3)
proof (induction es arbitrary: w r)
  case (Cons e es)
  show ?case
  proof (cases e)
    case (Arrive k d)
    obtain r1 where r1: "receive_packet r (seq_of k) d (length d) = Some (fst (w_receive ordered W k d w), r1)"
      "recv_rel ordered W (snd (w_receive ordered W k d w)) r1"
      using receive_packet_refines [OF Cons.prems(1) assms(2), of k "length d" d] Cons.prems(2) Arrive by auto
    with Cons.IH [OF r1(2)] Cons.prems(2) Arrive show ?thesis by auto
  next
    case Take
    show ?thesis
    proof (cases "take_published r")
      case (Pair b r1)
      show ?thesis
      proof (cases b)
        case None
        then have "w_out w = []" "r1 = r"
          using Pair Cons.prems(1) by (auto simp: take_published_def recv_rel_def split: list.splits)
        with Cons Take Pair None show ?thesis by fastforce
      next
        case (Some bb)
        then obtain x xs where x: "w_out w = x # xs" "snd x = bb_content bb"
          "recv_rel ordered W (w\<lparr>w_out := xs\<rparr>) (receiver_return_buffer r1 bb)"
          using take_published_refines [OF Cons.prems(1)] Pair by blast
        with Cons.IH [OF x(3)] Cons.prems(2) Take Pair Some show ?thesis by auto
      qed
    qed
  qed
qed simp

subsection \<open>Properties\<close>

text \<open>
  C16. The receiver implements the abstract window: on every script of arrivals and requests
  whose numbers stay in reach, at any point of the wrapping counter, the code runs without a
  panic and gives the answers of the specification, that is, the same decisions which
  packets are accepted and the same messages, byte for byte, at the same requests.
\<close>

theorem receiver_refines_window:
  assumes "unat W \<le> 1022" "in_reach ordered (unat W) es w_init"
  shows "\<exists>r. run_receiver es (receiver_create ordered W) = Some (run_window_spec ordered (unat W) es w_init, r)"
  using run_receiver_refines [OF receiver_create_refines assms] .

theorem receiver_refines_window_witness:
  "\<exists>r. run_receiver [Arrive 2 [22], Take, Arrive 1 [11], Take, Arrive 2 [22], Take, Take] (receiver_create True 3) =
     Some ([Accepted True, Took None, Accepted True, Took (Some [11]), Accepted False, Took (Some [22]), Took None], r)"
proof -
  let ?es = "[Arrive 2 [22], Take, Arrive 1 [11], Take, Arrive 2 [22], Take, Take]"
  note spec = w_init_def w_receive_def w_skip_def w_note_def w_store_def w_forget_def w_publish_def w_visit_def w_emit_def Let_def
  have W: "unat (3 :: u32) = Suc (Suc (Suc 0))" by simp
  have "in_reach True (Suc (Suc (Suc 0))) ?es w_init" by (simp add: spec)
  then have "\<exists>r. run_receiver ?es (receiver_create True 3) = Some (run_window_spec True (Suc (Suc (Suc 0))) ?es w_init, r)"
    using receiver_refines_window [of 3 True ?es] unfolding W by simp
  moreover have "run_window_spec True (Suc (Suc (Suc 0))) ?es w_init =
      [Accepted True, Took None, Accepted True, Took (Some [11]), Accepted False, Took (Some [22]), Took None]" by (simp add: spec)
  ultimately show ?thesis by simp
qed

end
