(* ===== verification/Receiver_Nacks.thy ===== *)
theory Receiver_Nacks
  imports Receive_Session
begin

text \<open>
  The nacks a receiver asks for (\<open>create_nacks\<close>) and its resend list (\<open>set_resend_list\<close>),
  in every state that arrivals inside the window can produce.
\<close>

section \<open>create_nacks\<close>

text \<open>The numbers a list of nacks asks for.\<close>

definition requested :: "nack list \<Rightarrow> u16 set" where
  "requested ns = (\<Union>n \<in> set ns. set (get_nacked n []))"

lemma requested_simps [simp]:
  "requested [] = {}" "requested (ns @ ms) = requested ns \<union> requested ms"
  "requested (n # ns) = set (get_nacked n []) \<union> requested ns"
  by (auto simp: requested_def)

lemma rel_push_nack [simp]: "recv_rel ordered W w (push_nack r n) \<longleftrightarrow> recv_rel ordered W w r"
  by (simp add: recv_rel_def push_nack_def)

lemma nack_inner_step: "i < 32 \<Longrightarrow> [i..<32] = i # [Suc i..<32]"
  by (simp add: upt_conv_Cons)

lemma nack_inner_ok:
  assumes rel: "recv_rel ordered W w r" and s: "s \<le> w_cur w + 1022" "w_cur w + i < s" and i: "i \<le> 32"
  shows "\<exists>ret q n' c'. nack_inner r [i..<32] (seq_of (s - i)) n c = Some (ret, q, n', c')
     \<and> n_start_sequence n' = n_start_sequence n
     \<and> (\<forall>j<32. get_bits n' j \<longleftrightarrow> get_bits n j \<or> i \<le> j \<and> w_cur w + Suc j < s \<and> s - Suc j \<notin> w_rcv w)
     \<and> (ret \<longleftrightarrow> s \<le> w_cur w + 32) \<and> (\<not> ret \<longrightarrow> q = seq_of (s - 32))"
  using s(2) i
proof (induction "32 - i" arbitrary: i n c)
  case 0
  then show ?case using s by auto
next
  case (Suc d)
  then have i: "i < 32" and d: "d = 32 - Suc i" by auto
  let ?q = "s - Suc i"
  have prv: "previous_sequence (seq_of (s - i)) = seq_of ?q"
  proof -
    have "s - i = Suc ?q" using Suc.prems by simp
    then show ?thesis by simp
  qed
  have cur: "r_current_sequence r = seq_of (w_cur w)" using rel by (simp add: recv_rel_def)
  have le: "is_equal_to_or_less_than (seq_of ?q) (seq_of (w_cur w)) \<longleftrightarrow> ?q \<le> w_cur w"
    using s Suc.prems by (intro is_equal_to_or_less_than_seq_of) auto
  show ?case
  proof (cases "?q \<le> w_cur w")
    case True
    with i show ?thesis by (auto simp: nack_inner_step prv cur le)
  next
    case False
    have rc: "is_received r (seq_of ?q) = Some (?q \<in> w_rcv w)"
      using False s by (intro rel_is_received [OF rel]) auto
    define n1 where "n1 = (if ?q \<in> w_rcv w then n else (set_bits n i True)\<lparr>n_nacked_count := c + 1\<rparr>)"
    define c1 where "c1 = (if ?q \<in> w_rcv w then c else c + 1)"
    have bits: "get_bits n1 j \<longleftrightarrow> get_bits n j \<or> j = i \<and> ?q \<notin> w_rcv w" if "j < 32" for j
      using get_bits_set_bits [OF i that, of n True] by (auto simp: n1_def get_bits_def)
    have a: "w_cur w + Suc i < s" using False by simp
    obtain ret q n' c' where ih: "nack_inner r [Suc i..<32] (seq_of ?q) n1 c1 = Some (ret, q, n', c')"
      "n_start_sequence n' = n_start_sequence n1"
      "\<forall>j<32. get_bits n' j \<longleftrightarrow> get_bits n1 j \<or> Suc i \<le> j \<and> w_cur w + Suc j < s \<and> s - Suc j \<notin> w_rcv w"
      "ret \<longleftrightarrow> s \<le> w_cur w + 32" "\<not> ret \<longrightarrow> q = seq_of (s - 32)"
      using Suc.hyps(1) [OF d a Suc_leI [OF i], of n1 c1] by blast
    have "get_bits n' j \<longleftrightarrow> get_bits n j \<or> i \<le> j \<and> w_cur w + Suc j < s \<and> s - Suc j \<notin> w_rcv w" if "j < 32" for j
      using ih(3) that bits [OF that] False by (cases "j = i") auto
    moreover have "nack_inner r [i..<32] (seq_of (s - i)) n c = nack_inner r [Suc i..<32] (seq_of ?q) n1 c1"
      using False by (auto simp: nack_inner_step [OF i] prv cur le rc n1_def c1_def)
    moreover have "n_start_sequence n1 = n_start_sequence n" by (simp add: n1_def)
    ultimately show ?thesis using ih by auto
  qed
qed

text \<open>
  What the loop of the code asks for, on unbounded numbers: \<open>F\<close> rounds downwards from \<open>q\<close>,
  where a round on a missing number covers it and the 32 before it, and a round on a
  received number covers just that number.
\<close>

fun nack_cover :: "nat set \<Rightarrow> nat \<Rightarrow> nat \<Rightarrow> nat \<Rightarrow> nat set" where
  "nack_cover R c 0 q = {}"
| "nack_cover R c (Suc F) q =
     (if q \<le> c then {}
      else if q \<in> R then nack_cover R c F (q - 1)
      else {j. j \<notin> R \<and> c < j \<and> j \<le> q \<and> q \<le> j + 32} \<union> nack_cover R c F (q - 33))"

lemma nack_block:
  assumes "n_start_sequence n = seq_of s" "c < s"
    "\<forall>j<32. get_bits n j \<longleftrightarrow> c + Suc j < s \<and> s - Suc j \<notin> R" "s \<notin> R"
  shows "set (get_nacked n []) = seq_of ` {j. j \<notin> R \<and> c < j \<and> j \<le> s \<and> s \<le> j + 32}"
proof -
  have seq: "nack_seq n j = seq_of (s - Suc j)" if "c + Suc j < s" "j < 32" for j
    unfolding nack_seq_def assms(1) using that sn.prv_walk [of "Suc j" s] by (simp del: funpow.simps)
  have "set (get_nacked n []) = insert (seq_of s) (nack_seq n ` {j. j < 32 \<and> get_bits n j})"
    by (auto simp: get_nacked_eq assms(1) simp del: upt_Suc)
  also have "nack_seq n ` {j. j < 32 \<and> get_bits n j} = (\<lambda>j. seq_of (s - Suc j)) ` {j. j < 32 \<and> get_bits n j}"
    using assms(3) by (intro image_cong) (auto simp: seq)
  also have "\<dots> = seq_of ` (\<lambda>j. s - Suc j) ` {j. j < 32 \<and> c + Suc j < s \<and> s - Suc j \<notin> R}"
    using assms(3) by (auto simp: image_image)
  also have "(\<lambda>j. s - Suc j) ` {j. j < 32 \<and> c + Suc j < s \<and> s - Suc j \<notin> R} =
      {j. j \<notin> R \<and> c < j \<and> j < s \<and> s \<le> j + 32}"
  proof (intro set_eqI iffI)
    fix x
    assume x: "x \<in> {j. j \<notin> R \<and> c < j \<and> j < s \<and> s \<le> j + 32}"
    then show "x \<in> (\<lambda>j. s - Suc j) ` {j. j < 32 \<and> c + Suc j < s \<and> s - Suc j \<notin> R}"
      by (intro image_eqI [of _ _ "s - Suc x"]) auto
  qed auto
  also have "insert (seq_of s) (seq_of ` {j. j \<notin> R \<and> c < j \<and> j < s \<and> s \<le> j + 32}) =
      seq_of ` {j. j \<notin> R \<and> c < j \<and> j \<le> s \<and> s \<le> j + 32}"
    using assms(2,4) by (subst image_insert [symmetric]) (intro arg_cong [of _ _ "image seq_of"], auto)
  finally show ?thesis .
qed

lemma nack_outer_ok:
  assumes "recv_rel ordered W w r" "q \<le> w_cur w + 1022" "w_cur w \<le> q"
  shows "\<exists>c' ns. nack_outer F r (seq_of q) c = Some (c', r\<lparr>r_nack_list := r_nack_list r @ ns,
         r_nack_queue := r_nack_queue r @ ns\<rparr>)
     \<and> requested ns = seq_of ` nack_cover (w_rcv w) (w_cur w) F q \<and> length ns \<le> F"
  using assms
proof (induction F arbitrary: r q c)
  case 0
  show ?case by (intro exI [of _ c] exI [of _ "[]"]) simp
next
  case (Suc F)
  note rel = Suc.prems(1)
  have cur: "r_current_sequence r = seq_of (w_cur w)" using rel by (simp add: recv_rel_def)
  have le: "is_equal_to_or_less_than (seq_of p) (seq_of (w_cur w)) \<longleftrightarrow> p \<le> w_cur w"
    if "w_cur w \<le> p" "p \<le> w_cur w + 1022" for p
    using that by (intro is_equal_to_or_less_than_seq_of) auto
  have rc: "is_received r (seq_of q) = Some (q \<in> w_rcv w)"
    using Suc.prems by (intro rel_is_received)
  have refl: "is_equal_to_or_less_than s s" for s by (simp add: is_equal_to_or_less_than_def)
  consider "q \<le> w_cur w" | "w_cur w < q" "q \<in> w_rcv w" | "w_cur w < q" "q \<notin> w_rcv w" by linarith
  then show ?case
  proof cases
    case 1
    with Suc.prems show ?thesis
      by (intro exI [of _ c] exI [of _ "[]"]) (simp add: cur refl)
  next
    case 2
    obtain p where p: "q = Suc p" using 2(1) by (cases q) auto
    have "nack_cover (w_rcv w) (w_cur w) F p = {}" if "p \<le> w_cur w"
      using that by (cases F) auto
    then have cover: "nack_cover (w_rcv w) (w_cur w) (Suc F) q =
        (if p \<le> w_cur w then {} else nack_cover (w_rcv w) (w_cur w) F p)"
      using 2 p by simp
    have bp: "p \<le> w_cur w + 1022" "w_cur w \<le> p" using 2(1) p Suc.prems by auto
    have "previous_sequence (seq_of q) = seq_of p" by (simp add: p)
    then have step: "nack_outer (Suc F) r (seq_of q) c =
        (if p \<le> w_cur w then Some (c, r) else nack_outer F r (seq_of p) c)"
      using 2 Suc.prems bp by (simp add: cur le rc)
    show ?thesis
    proof (cases "p \<le> w_cur w")
      case True
      then show ?thesis
        unfolding step cover by (intro exI [of _ c] exI [of _ "[]"]) simp
    next
      case False
      then show ?thesis unfolding step cover using Suc.IH [OF rel bp, of c] by (auto intro: le_SucI)
    qed
  next
    case 3
    let ?n = "nack_default\<lparr>n_start_sequence := seq_of q, n_nacked_count := c + 1\<rparr>"
    have zero: "get_bits ?n j \<longleftrightarrow> False" if "j < 32" for j
      using that by (simp add: get_bits_bit nack_default_def)
    obtain ret p n' c' where inner: "nack_inner r [0..<32] (seq_of q) ?n (c + 1) = Some (ret, p, n', c')"
      "n_start_sequence n' = seq_of q"
      "\<forall>j<32. get_bits n' j \<longleftrightarrow> w_cur w + Suc j < q \<and> q - Suc j \<notin> w_rcv w"
      "ret \<longleftrightarrow> q \<le> w_cur w + 32" "\<not> ret \<longrightarrow> p = seq_of (q - 32)"
      using nack_inner_ok [OF rel Suc.prems(2), of 0 ?n "c + 1"] 3 zero by auto
    have blk: "set (get_nacked n' []) = seq_of ` {j. j \<notin> w_rcv w \<and> w_cur w < j \<and> j \<le> q \<and> q \<le> j + 32}"
      using inner(2) 3(1) inner(3) 3(2) by (rule nack_block)
    have step: "nack_outer (Suc F) r (seq_of q) c =
        (if ret then Some (c', push_nack r n') else nack_outer F (push_nack r n') (previous_sequence p) c')"
      using 3 Suc.prems inner(1) by (simp add: cur le rc)
    show ?thesis
    proof (cases ret)
      case True
      moreover have "nack_cover (w_rcv w) (w_cur w) F (q - 33) = {}"
        using True inner(4) by (cases F) auto
      ultimately show ?thesis
        using 3 blk unfolding step push_nack_def by (intro exI [of _ c'] exI [of _ "[n']"]) simp
    next
      case False
      then have "q - 32 = Suc (q - 33)" using inner(4) by auto
      then have p: "previous_sequence p = seq_of (q - 33)" using False inner(5) by simp
      have rel': "recv_rel ordered W w (push_nack r n')" using rel by simp
      have bounds: "q - 33 \<le> w_cur w + 1022" "w_cur w \<le> q - 33"
        using Suc.prems False inner(4) by auto
      obtain c'' ns where "nack_outer F (push_nack r n') (seq_of (q - 33)) c' = Some (c'', (push_nack r n')
          \<lparr>r_nack_list := r_nack_list (push_nack r n') @ ns, r_nack_queue := r_nack_queue (push_nack r n') @ ns\<rparr>)"
        "requested ns = seq_of ` nack_cover (w_rcv w) (w_cur w) F (q - 33)" "length ns \<le> F"
        using Suc.IH [OF rel' bounds, of c'] by blast
      then show ?thesis
        using 3 blk False unfolding step p
        by (intro exI [of _ c''] exI [of _ "n' # ns"]) (simp add: push_nack_def image_Un)
    qed
  qed
qed

lemma nack_cover_missing: "nack_cover R c F q \<subseteq> {j. j \<notin> R \<and> c < j \<and> j \<le> q}"
  by (induction R c F q rule: nack_cover.induct) (fastforce split: if_splits)+

lemma nack_cover_complete: "j \<notin> R \<Longrightarrow> c < j \<Longrightarrow> j \<le> q \<Longrightarrow> q < j + F \<Longrightarrow> j \<in> nack_cover R c F q"
proof (induction R c F q rule: nack_cover.induct)
  case (2 R c F q)
  then show ?case by (cases "j = q"; cases "j \<le> q - 33") auto
qed simp

lemma nack_cover_blind: "(\<And>j. q < j + F \<Longrightarrow> j \<le> q \<Longrightarrow> j \<in> R) \<Longrightarrow> nack_cover R c F q = {}"
proof (induction R c F q rule: nack_cover.induct)
  case (2 R c F q)
  then show ?case by auto
qed simp


section \<open>The nacks of a run\<close>

lemma window_run_rel:
  assumes "window_run ordered W msg ks r out" "unat W \<le> 1022"
  shows "\<exists>w. recv_rel ordered (unat W) w r \<and> w_cur w = contiguous ks \<and> w_last w = newest ks
     \<and> w_rcv w = {k \<in> set ks. contiguous ks < k}"
proof -
  obtain xs w where w: "run_window ordered msg ks = w_taken xs w" "recv_rel ordered (unat W) w r"
    using window_run_inv [OF assms] by (auto simp: run_inv_def)
  from w(1) have "w_cur w = w_cur (run_window ordered msg ks)" "w_last w = w_last (run_window ordered msg ks)"
    "w_rcv w = w_rcv (run_window ordered msg ks)" by simp_all
  with w(2) show ?thesis
    by (intro exI [of _ w]) (simp add: run_window_def)
qed

lemma newest_bounds: "contiguous ks \<le> newest ks" "newest ks \<in> set ks \<or> newest ks = 0"
proof -
  show "contiguous ks \<le> newest ks"
    using reaches_le [OF contiguous_reaches, of ks "newest ks"] newest_le by simp
  show "newest ks \<in> set ks \<or> newest ks = 0"
    by (induction ks rule: rev_induct) (auto simp: max_def)
qed

lemma create_nacks_rel:
  assumes rel: "recv_rel ordered W w r" 
  shows "\<exists>n r'. create_nacks r = Some (n, r') \<and> r_nack_queue r' = r_nack_list r' \<and> recv_rel ordered W w r'
     \<and> requested (r_nack_list r') =
         seq_of ` nack_cover (w_rcv w) (w_cur w) (unat (r_receive_window_size r div 32)) (w_last w - 1)
     \<and> length (r_nack_list r') \<le> unat (r_receive_window_size r div 32)"
proof -
  let ?r = "r\<lparr>r_nack_list := [], r_nack_queue := []\<rparr>"
  let ?F = "unat (r_receive_window_size r div 32)"
  have rel': "recv_rel ordered W w ?r" using rel by (simp add: recv_rel_def)
  have cl: "w_cur w \<le> w_last w" "w_last w \<le> w_cur w + 1022"
    and eq: "r_current_sequence r = seq_of (w_cur w)" "r_last_sequence r = seq_of (w_last w)"
    using rel by (auto simp: recv_rel_def w_shape_def)
  have none: "nack_cover (w_rcv w) (w_cur w) ?F (w_last w - 1) = {}" if "w_last w \<le> Suc (w_cur w)"
    using that by (cases ?F) auto
  show ?thesis
  proof (cases "w_last w \<le> Suc (w_cur w)")
    case True
    have "is_equal_to_or_less_than (previous_sequence (seq_of (w_last w))) (seq_of (w_cur w))"
    proof (cases "w_last w")
      case 0
      then show ?thesis using cl by (simp add: seq_of_def previous_sequence_def is_equal_to_or_less_than_def is_greater_then_def is_less_than_def)
    next
      case (Suc q)
      then show ?thesis using True cl is_equal_to_or_less_than_seq_of [of q "w_cur w"] by simp
    qed
    then show ?thesis using none [OF True] rel' by (simp add: create_nacks_def eq)
  next
    case False
    then obtain q where q: "w_last w = Suc q" "w_cur w < q" by (cases "w_last w") auto
    have go: "\<not> is_equal_to_or_less_than (seq_of q) (seq_of (w_cur w))"
      using q cl by (subst is_equal_to_or_less_than_seq_of) auto
    obtain n ns where "nack_outer ?F ?r (seq_of q) 0 = Some (n, ?r\<lparr>r_nack_list := r_nack_list ?r @ ns,
        r_nack_queue := r_nack_queue ?r @ ns\<rparr>)" "requested ns = seq_of ` nack_cover (w_rcv w) (w_cur w) ?F q"
      "length ns \<le> ?F"
      using nack_outer_ok [OF rel', of q ?F 0] q cl by auto
    with go rel show ?thesis by (simp add: create_nacks_def eq q recv_rel_def)
  qed
qed

lemma create_nacks_run:
  assumes "window_run ordered W msg ks r out" "unat W \<le> 1022"
  shows "\<exists>n r'. create_nacks r = Some (n, r') \<and> r_nack_queue r' = r_nack_list r'
     \<and> requested (r_nack_list r') =
         seq_of ` nack_cover {k \<in> set ks. contiguous ks < k} (contiguous ks) (unat W div 32) (newest ks - 1)
     \<and> length (r_nack_list r') \<le> unat W div 32"
proof -
  obtain w where w: "recv_rel ordered (unat W) w r" "w_cur w = contiguous ks" "w_last w = newest ks"
    "w_rcv w = {k \<in> set ks. contiguous ks < k}"
    using window_run_rel [OF assms] by blast
  have "unat (r_receive_window_size r) = unat W" using w(1) by (simp add: recv_rel_def)
  then have "unat (r_receive_window_size r div 32) = unat W div 32" by (simp add: unat_div)
  with create_nacks_rel [OF w(1)] w(2-4) show ?thesis by auto
qed

text \<open>
  C33. Nacks are sound: in every state reached by arrivals inside the window, \<open>create_nacks\<close>
  returns, fills list and queue alike, and every number it asks for is one that has not
  arrived and lies between the current and the newest number.
\<close>

theorem nacks_sound:
  assumes "window_run ordered W msg ks r out" "unat W \<le> 1022"
  shows "\<exists>n r'. create_nacks r = Some (n, r') \<and> r_nack_queue r' = r_nack_list r'
     \<and> requested (r_nack_list r') \<subseteq> seq_of ` {j. contiguous ks < j \<and> j < newest ks \<and> j \<notin> set ks}"
proof -
  let ?R = "{k \<in> set ks. contiguous ks < k}"
  have "nack_cover ?R (contiguous ks) F (newest ks - 1) \<subseteq> {j. contiguous ks < j \<and> j < newest ks \<and> j \<notin> set ks}" for F
    using nack_cover_missing [of ?R "contiguous ks" F "newest ks - 1"] by auto
  from image_mono [OF this, of seq_of] show ?thesis using create_nacks_run [OF assms] by fastforce
qed

theorem nacks_sound_witness:
  "\<exists>r n r'. window_run True 512 (\<lambda>k. [of_nat k]) [2, 1, 2, 4] r [] \<and> create_nacks r = Some (n, r')
     \<and> requested (r_nack_list r') \<subseteq> {3}"
proof -
  obtain r where r: "window_run True 512 (\<lambda>k. [of_nat k]) [2, 1, 2, 4] r []"
    using sample_run by blast
  have eq: "contiguous [2, 1, 2, 4] = 2" "newest [2, 1, 2, 4] = 4"
    by (simp_all add: contiguous_def newest_def upt_rec)
  have "{j. 2 < j \<and> j < 4 \<and> j \<notin> set [2, 1, 2, 4]} = {3::nat}" by auto
  then show ?thesis
    using r nacks_sound [OF r] unfolding eq by (auto simp: seq_of_def)
qed

text \<open>
  C34. Nacks are complete near the top of the window: of the window/32 numbers below the newest
  one (16 for the default window), every missing number is asked for.
\<close>

theorem nacks_complete:
  assumes "window_run ordered W msg ks r out" "unat W \<le> 1022" "contiguous ks < j" "j < newest ks" "j \<notin> set ks"
    "newest ks \<le> j + unat W div 32"
  shows "\<exists>n r'. create_nacks r = Some (n, r') \<and> seq_of j \<in> requested (r_nack_list r')"
proof -
  have "j \<in> nack_cover {k \<in> set ks. contiguous ks < k} (contiguous ks) (unat W div 32) (newest ks - 1)"
    using assms(3-6) by (intro nack_cover_complete) auto
  then show ?thesis using create_nacks_run [OF assms(1,2)] by auto
qed

theorem nacks_complete_witness:
  "\<exists>r n r'. window_run True 512 (\<lambda>k. [of_nat k]) [2, 1, 2, 4] r [] \<and> create_nacks r = Some (n, r')
     \<and> 3 \<in> requested (r_nack_list r')"
proof -
  obtain r where r: "window_run True 512 (\<lambda>k. [of_nat k]) [2, 1, 2, 4] r []"
    using sample_run by blast
  have eq: "contiguous [2, 1, 2, 4] = 2" "newest [2, 1, 2, 4] = 4"
    by (simp_all add: contiguous_def newest_def upt_rec)
  show ?thesis
    using r nacks_complete [OF r, of 3, unfolded eq] by (auto simp: seq_of_def)
qed

text \<open>The packets 2, ..., n - 1 arrive, and 1 is lost.\<close>

lemma contiguous_gap: "1 \<notin> set ks \<Longrightarrow> contiguous ks = 0"
  by (cases ks) (simp_all add: contiguous_def upt_conv_Cons del: upt_Suc)

lemma gap_run: "n \<le> 500 \<Longrightarrow> \<exists>r. window_run ordered 512 msg [2..<2 + n] r []"
proof (induction n)
  case 0
  then show ?case using window_run.start by auto
next
  case (Suc n)
  then obtain r where "window_run ordered 512 msg [2..<2 + n] r []" by auto
  moreover have "arrival_ok 512 [2..<2 + n] (2 + n)"
    using Suc.prems by (simp add: arrival_ok_def contiguous_gap)
  ultimately show ?case using window_run_extend [of ordered 512 msg "[2..<2 + n]" r "[]" "2 + n"] by simp
qed

lemma newest_upt: "0 < n \<Longrightarrow> newest [2..<2 + n] = Suc n"
  by (induction n) (auto simp: newest_def upt_Suc_append)

text \<open>
  C35. The nacks are blind below a run of received packets: when the window/32 numbers just
  below the newest one have all arrived, \<open>create_nacks\<close> asks for nothing, whatever is missing
  further down. A round on a received number uses up one of the window/32 rounds.
\<close>

theorem nacks_blind:
  assumes "window_run ordered W msg ks r out" "unat W \<le> 1022"
    "\<forall>j. newest ks \<le> j + unat W div 32 \<longrightarrow> j < newest ks \<longrightarrow> contiguous ks < j \<and> j \<in> set ks"
  shows "\<exists>n r'. create_nacks r = Some (n, r') \<and> requested (r_nack_list r') = {}"
proof -
  have "nack_cover {k \<in> set ks. contiguous ks < k} (contiguous ks) (unat W div 32) (newest ks - 1) = {}"
  proof (cases "newest ks = 0")
    case True
    then show ?thesis by (cases "unat W div 32") auto
  next
    case False
    then show ?thesis using assms(3) by (intro nack_cover_blind) auto
  qed
  then show ?thesis using create_nacks_run [OF assms(1,2)] by auto
qed


theorem nacks_blind_witness:
  "\<exists>r n r'. window_run True 512 (\<lambda>k. [of_nat k]) [2..<19] r [] \<and> 1 \<notin> set [2..<19]
     \<and> create_nacks r = Some (n, r') \<and> requested (r_nack_list r') = {}"
proof -
  obtain r where r: "window_run True 512 (\<lambda>k. [of_nat k]) [2..<19] r []"
    using gap_run [of 17 True "\<lambda>k. [of_nat k]"] by auto
  have eq: "contiguous [2..<19] = 0" "newest [2..<19] = 18"
    using contiguous_gap [of "[2..<19]"] newest_upt [of 17] by simp_all
  have all: "\<forall>j. newest [2..<19] \<le> j + unat (512::u32) div 32 \<longrightarrow> j < newest [2..<19] \<longrightarrow>
      contiguous [2..<19] < j \<and> j \<in> set [2..<19]"
    unfolding eq set_upt by simp
  have "unat (512::u32) \<le> 1022" "1 \<notin> set [2..<19::nat]" by simp_all
  with r nacks_blind [OF r _ all] show ?thesis by blast
qed

text \<open>The numbers that are missing between the current and the newest one, newest first.\<close>

definition missing :: "nat set \<Rightarrow> nat \<Rightarrow> nat \<Rightarrow> nat list" where
  "missing R c l = filter (\<lambda>j. j \<notin> R) (rev [Suc c..<l])"

lemma resend_loop_ok:
  assumes "recv_rel ordered W w r" "w_cur w < q" "q \<le> w_cur w + n" "q \<le> w_cur w + 1022"
  shows "resend_loop n (seq_of (w_cur w)) (seq_of q) r =
     Some (r\<lparr>r_resend_list := r_resend_list r @ map seq_of (missing (w_rcv w) (w_cur w) (Suc q))\<rparr>)"
  using assms
proof (induction n arbitrary: r q)
  case (Suc n)
  obtain p where p: "q = Suc p" using Suc.prems(2) by (cases q) auto
  let ?r = "if q \<in> w_rcv w then r else r\<lparr>r_resend_list := r_resend_list r @ [seq_of q]\<rparr>"
  have rel: "recv_rel ordered W w ?r" using Suc.prems(1) by (simp add: recv_rel_def)
  have rc: "is_received r (seq_of q) = Some (q \<in> w_rcv w)"
    using Suc.prems by (intro rel_is_received) auto
  have prv: "previous_sequence (seq_of q) = seq_of p" by (simp add: p)
  have stop: "seq_of p = seq_of (w_cur w) \<longleftrightarrow> p = w_cur w"
    using Suc.prems p by (simp add: seq_order)
  have split: "missing (w_rcv w) (w_cur w) (Suc q) =
      (if q \<in> w_rcv w then [] else [q]) @ missing (w_rcv w) (w_cur w) q"
    using Suc.prems(2) by (simp add: missing_def)
  have step: "resend_loop (Suc n) (seq_of (w_cur w)) (seq_of q) r =
      (if p = w_cur w then Some ?r else resend_loop n (seq_of (w_cur w)) (seq_of p) ?r)"
    by (simp add: rc prv stop)
  show ?case
  proof (cases "p = w_cur w")
    case True
    then show ?thesis unfolding step split by (simp add: missing_def p)
  next
    case False
    then have "resend_loop n (seq_of (w_cur w)) (seq_of p) ?r = Some (?r\<lparr>r_resend_list := r_resend_list ?r @
        map seq_of (missing (w_rcv w) (w_cur w) (Suc p))\<rparr>)"
      using Suc.prems p by (intro Suc.IH [OF rel]) auto
    with False show ?thesis unfolding step split by (simp add: p)
  qed
qed simp

text \<open>
  The resend list is exact: in every state reached by arrivals inside the window,
  \<open>set_resend_list\<close> lists exactly the numbers between the current and the newest one that
  have not arrived, from the newest down.
\<close>

lemma resend_list_exact:
  assumes "window_run ordered W msg ks r out" "unat W \<le> 1022"
  shows "set_resend_list r =
     Some (r\<lparr>r_resend_list := map seq_of (filter (\<lambda>j. j \<notin> set ks) (rev [Suc (contiguous ks)..<newest ks]))\<rparr>)"
proof -
  obtain w where w: "recv_rel ordered (unat W) w r" "w_cur w = contiguous ks" "w_last w = newest ks"
    "w_rcv w = {k \<in> set ks. contiguous ks < k}"
    using window_run_rel [OF assms] by blast
  have W: "newest ks < contiguous ks + unat W \<or> ks = []" using window_run_inv [OF assms] by blast
  have c: "contiguous ks \<le> newest ks" "newest ks \<le> contiguous ks + 1022"
    and eq: "r_current_sequence r = seq_of (contiguous ks)" "r_last_sequence r = seq_of (newest ks)"
      "unat (r_receive_window_size r) = unat W"
    using w by (auto simp: recv_rel_def w_shape_def)
  have same: "seq_of (contiguous ks) = seq_of (newest ks) \<longleftrightarrow> contiguous ks = newest ks"
    using c by (simp add: seq_order)
  show ?thesis
  proof (cases "contiguous ks = newest ks")
    case True
    then show ?thesis by (simp add: set_resend_list_def eq)
  next
    case False
    have "Suc (contiguous ks) \<notin> set ks" using contiguous_reaches [of ks] by (simp add: reaches_def)
    then have "newest ks \<noteq> Suc (contiguous ks)"
      using newest_bounds(2) [of ks] by auto
    with False c obtain q where q: "newest ks = Suc q" "contiguous ks < q" by (cases "newest ks") auto
    let ?r = "r\<lparr>r_resend_list := []\<rparr>"
    have rel: "recv_rel ordered (unat W) w ?r" using w(1) by (simp add: recv_rel_def)
    have "resend_loop (unat W) (seq_of (w_cur w)) (seq_of q) ?r =
        Some (?r\<lparr>r_resend_list := r_resend_list ?r @ map seq_of (missing (w_rcv w) (w_cur w) (Suc q))\<rparr>)"
      using q w(2) c W by (intro resend_loop_ok [OF rel]) auto
    moreover have "missing (w_rcv w) (w_cur w) (Suc q) = filter (\<lambda>j. j \<notin> set ks) (rev [Suc (contiguous ks)..<newest ks])"
      unfolding missing_def w(2,4) q(1) by (rule filter_cong) (auto simp del: upt_Suc)
    ultimately show ?thesis
      using False same by (simp add: set_resend_list_def eq w(2) q(1) del: upt_Suc)
  qed
qed

theorem resend_list_exact_witness:
  "\<exists>r. window_run True 512 (\<lambda>k. [of_nat k]) [2, 1, 2, 4] r [] \<and> set_resend_list r = Some (r\<lparr>r_resend_list := [3]\<rparr>)"
proof -
  obtain r where r: "window_run True 512 (\<lambda>k. [of_nat k]) [2, 1, 2, 4] r []"
    using sample_run by blast
  have eq: "contiguous [2, 1, 2, 4] = 2" "newest [2, 1, 2, 4] = 4"
    by (simp_all add: contiguous_def newest_def upt_rec)
  have "filter (\<lambda>j. j \<notin> set [2, 1, 2, 4]) (rev [Suc 2..<4]) = [3::nat]" by (simp add: upt_rec)
  then show ?thesis
    using r resend_list_exact [OF r] unfolding eq by (auto simp: seq_of_def)
qed

end
