(* ===== verification/Send_Buffer_Manager.thy ===== *)
theory Send_Buffer_Manager
  imports Sequence_Buffer Byte_Buffer_Pool
begin

text \<open>
  \<^verbatim>\<open>src/src/tachyon/send_buffer_manager.rs\<close>: the sender's history of the last messages,
  kept so that a nacked sequence number can be sent again. \<open>Instant::now()\<close> is an argument
  \<open>now\<close>, in nanoseconds. A \<open>&mut SendBuffer\<close> handed to the caller is its value; the
  caller's writes through it are stored with \<open>sm_put_back\<close>.
\<close>

abbreviation (input) SEND_BUFFER_SIZE :: u16 where "SEND_BUFFER_SIZE \<equiv> 1024"
abbreviation (input) SEND_EXPIRE :: nat where "SEND_EXPIRE \<equiv> 5000"

record send_buffer =
  sbuf_sequence :: u16
  sbuf_byte_buffer :: byte_buffer
  sbuf_created_at :: nat

record send_buffer_manager =
  sm_current_sequence :: u16
  sm_buffers :: "send_buffer sequence_buffer"
  sm_buffer_pool :: byte_buffer_pool

definition elapsed_millis :: "nat \<Rightarrow> nat \<Rightarrow> nat" where
  "elapsed_millis now t = (now - t) div 1000000"

definition sm_default :: send_buffer_manager where
  "sm_default =
     \<lparr>sm_current_sequence = 0,
      sm_buffers = \<lparr>sb_values = replicate (unat SEND_BUFFER_SIZE) None, sb_partition_by = SEND_BUFFER_SIZE\<rparr>,
      sm_buffer_pool = bp_create BYTE_BUFFER_SIZE_DEFAULT (unat SEND_BUFFER_SIZE)\<rparr>"

definition get_send_buffer :: "send_buffer_manager \<Rightarrow> u16 \<Rightarrow> send_buffer option option" where
  "get_send_buffer self sequence = do {
     r \<leftarrow> sb_get_mut (sm_buffers self) sequence;
     Some (case r of Some send_buffer \<Rightarrow> Some send_buffer | None \<Rightarrow> None) }"

fun remove_sequences :: "send_buffer sequence_buffer \<Rightarrow> u16 list \<Rightarrow> send_buffer sequence_buffer option" where
  "remove_sequences b [] = Some b"
| "remove_sequences b (sequence # rest) = do {
     b \<leftarrow> sb_remove b sequence;
     remove_sequences b rest }"

definition sm_expired :: "nat \<Rightarrow> send_buffer_manager \<Rightarrow> u16 list" where
  "sm_expired now self =
     map sbuf_sequence (filter (\<lambda>b. elapsed_millis now (sbuf_created_at b) > SEND_EXPIRE)
       (map the (filter (\<lambda>v. v \<noteq> None) (sb_values (sm_buffers self)))))"

definition sm_expire :: "nat \<Rightarrow> send_buffer_manager \<Rightarrow> send_buffer_manager option" where
  "sm_expire now self = do {
     b \<leftarrow> remove_sequences (sm_buffers self) (sm_expired now self);
     Some (self\<lparr>sm_buffers := b\<rparr>) }"

definition create_send_buffer_old ::
  "nat \<Rightarrow> send_buffer_manager \<Rightarrow> nat \<Rightarrow> (send_buffer option \<times> send_buffer_manager) option" where
  "create_send_buffer_old now self len = do {
     let self = self\<lparr>sm_current_sequence := next_sequence (sm_current_sequence self)\<rparr>;
     let buffer = \<lparr>sbuf_sequence = sm_current_sequence self, sbuf_byte_buffer = bb_create len,
                   sbuf_created_at = now\<rparr>;
     bufs \<leftarrow> sb_insert (sm_buffers self) (sm_current_sequence self) buffer;
     r \<leftarrow> sb_get_mut bufs (sm_current_sequence self);
     Some (r, self\<lparr>sm_buffers := bufs\<rparr>) }"

definition create_send_buffer ::
  "nat \<Rightarrow> send_buffer_manager \<Rightarrow> nat \<Rightarrow> (send_buffer option \<times> send_buffer_manager) option" where
  "create_send_buffer now self len = do {
     let self = self\<lparr>sm_current_sequence := next_sequence (sm_current_sequence self)\<rparr>;
     (taken, bufs) \<leftarrow> sb_take (sm_buffers self) (sm_current_sequence self);
     let self = self\<lparr>sm_buffers := bufs\<rparr>;
     (send_buffer, self) \<leftarrow> (case taken of
         Some send_buffer \<Rightarrow> do {
           (byte_buffer, self) \<leftarrow>
             (if bb_pooled (sbuf_byte_buffer send_buffer) \<and> len \<le> bp_buffer_size (sm_buffer_pool self)
              then Some ((sbuf_byte_buffer send_buffer)\<lparr>bb_length := len\<rparr>, self)
              else do {
                let pool = snd (return_buffer (sm_buffer_pool self) (sbuf_byte_buffer send_buffer));
                (byte_buffer, pool) \<leftarrow> get_buffer pool len;
                Some (byte_buffer, self\<lparr>sm_buffer_pool := pool\<rparr>) });
           Some (send_buffer\<lparr>sbuf_byte_buffer := byte_buffer,
                   sbuf_sequence := sm_current_sequence self, sbuf_created_at := now\<rparr>, self) }
       | None \<Rightarrow> do {
           (byte_buffer, pool) \<leftarrow> get_buffer (sm_buffer_pool self) len;
           Some (\<lparr>sbuf_sequence = sm_current_sequence self, sbuf_byte_buffer = byte_buffer,
                  sbuf_created_at = now\<rparr>, self\<lparr>sm_buffer_pool := pool\<rparr>) });
     bufs \<leftarrow> sb_insert (sm_buffers self) (sm_current_sequence self) send_buffer;
     r \<leftarrow> sb_get_mut bufs (sm_current_sequence self);
     Some (r, self\<lparr>sm_buffers := bufs\<rparr>) }"

definition sm_put_back :: "send_buffer_manager \<Rightarrow> send_buffer \<Rightarrow> send_buffer_manager option" where
  "sm_put_back self send_buffer = do {
     bufs \<leftarrow> sb_insert (sm_buffers self) (sbuf_sequence send_buffer) send_buffer;
     Some (self\<lparr>sm_buffers := bufs\<rparr>) }"

subsection \<open>Invariant\<close>

text \<open>Every stored buffer lies in the slot of its own number and fits the pool.\<close>

definition sm_wf :: "send_buffer_manager \<Rightarrow> bool" where
  "sm_wf m \<longleftrightarrow> sb_wf (sm_buffers m) \<and> bp_wf (sm_buffer_pool m) \<and>
     (\<forall>i b. sb_cell (sm_buffers m) i = Some b \<longrightarrow>
        slot_of (sbuf_sequence b) = i \<and> bb_ok (bp_buffer_size (sm_buffer_pool m)) (sbuf_byte_buffer b))"

lemma sm_wf_default [simp]: "sm_wf sm_default"
  using sb_wf_empty sb_cell_empty by (simp add: sm_wf_def sm_default_def flip: sb_empty_def)

lemma get_send_buffer_eq: "sm_wf m \<Longrightarrow> get_send_buffer m s = Some (sb_cell (sm_buffers m) (slot_of s))"
  by (simp add: sm_wf_def get_send_buffer_def split: option.splits)

text \<open>The buffer that is installed for the next number.\<close>

definition sm_fresh :: "nat \<Rightarrow> send_buffer_manager \<Rightarrow> nat \<Rightarrow> send_buffer \<Rightarrow> send_buffer_manager \<Rightarrow> bool" where
  "sm_fresh now m len sb m' \<longleftrightarrow>
     sbuf_sequence sb = next_sequence (sm_current_sequence m) \<and>
     sm_current_sequence m' = next_sequence (sm_current_sequence m) \<and>
     sbuf_created_at sb = now \<and> bb_length (sbuf_byte_buffer sb) = len \<and>
     bb_ok (bp_buffer_size (sm_buffer_pool m)) (sbuf_byte_buffer sb) \<and>
     bp_buffer_size (sm_buffer_pool m') = bp_buffer_size (sm_buffer_pool m) \<and>
     sb_cell (sm_buffers m') = (sb_cell (sm_buffers m))
       (slot_of (next_sequence (sm_current_sequence m)) := Some sb)"

lemma create_send_buffer_ok:
  assumes wf: "sm_wf m"
  shows "\<exists>sb m'. create_send_buffer now m len = Some (Some sb, m') \<and> sm_wf m' \<and> sm_fresh now m len sb m'"
proof -
  let ?s = "next_sequence (sm_current_sequence m)"
  let ?n = "bp_buffer_size (sm_buffer_pool m)"
  note wf' = wf [unfolded sm_wf_def]
  obtain bb pool where bb: "get_buffer (sm_buffer_pool m) len = Some (bb, pool)" "bp_wf pool"
    "bp_buffer_size pool = ?n" "bb_ok ?n bb" "bb_length bb = len"
    using bp.get_law [of "sm_buffer_pool m" len] wf' by auto
  show ?thesis
  proof (cases "sb_cell (sm_buffers m) (slot_of ?s)")
    case None
    then show ?thesis
      using wf' bb by (auto simp: create_send_buffer_def sm_wf_def sm_fresh_def Let_def)
  next
    case (Some old)
    with wf' have ok: "bb_ok ?n (sbuf_byte_buffer old)" by blast
    let ?p = "snd (return_buffer (sm_buffer_pool m) (sbuf_byte_buffer old))"
    have "bp_wf ?p" "bp_buffer_size ?p = ?n" using bp.ret_law ok wf' by blast+
    then obtain bb' pool' where bb': "get_buffer ?p len = Some (bb', pool')" "bp_wf pool'"
      "bp_buffer_size pool' = ?n" "bb_ok ?n bb'" "bb_length bb' = len"
      using bp.get_law [of ?p len] by auto
    show ?thesis
    proof (cases "bb_pooled (sbuf_byte_buffer old) \<and> len \<le> ?n")
      case True
      then show ?thesis
        using wf' Some ok
        by (auto simp: create_send_buffer_def sm_wf_def sm_fresh_def Let_def bb_ok_def)
    next
      case False
      then show ?thesis
        using wf' Some bb'
        by (auto simp: create_send_buffer_def sm_wf_def sm_fresh_def Let_def)
    qed
  qed
qed

lemma sm_put_back_ok:
  assumes "sm_wf m" "bb_ok (bp_buffer_size (sm_buffer_pool m)) (sbuf_byte_buffer sb)"
  shows "\<exists>m'. sm_put_back m sb = Some m' \<and> sm_wf m' \<and> sm_current_sequence m' = sm_current_sequence m
     \<and> sm_buffer_pool m' = sm_buffer_pool m
     \<and> sb_cell (sm_buffers m') = (sb_cell (sm_buffers m))(slot_of (sbuf_sequence sb) := Some sb)"
  using assms by (auto simp: sm_put_back_def sm_wf_def)

subsection \<open>History\<close>

fun create_many :: "(nat \<times> nat) list \<Rightarrow> send_buffer_manager \<Rightarrow> send_buffer_manager option" where
  "create_many [] m = Some m"
| "create_many ((now, len) # rest) m = do {
     (r, m) \<leftarrow> create_send_buffer now m len;
     create_many rest m }"

lemma create_many_keeps:
  assumes "sm_wf m" "sm_current_sequence m = seq_of n" "k \<le> n" "n + length xs \<le> k + 1022"
    and "sb_cell (sm_buffers m) (slot_of (seq_of k)) = Some sb"
  shows "\<exists>m'. create_many xs m = Some m' \<and> sm_wf m' \<and> sm_current_sequence m' = seq_of (n + length xs)
     \<and> sb_cell (sm_buffers m') (slot_of (seq_of k)) = Some sb"
  using assms
proof (induction xs arbitrary: m n)
  case (Cons x xs)
  obtain now len where x: "x = (now, len)" by (cases x)
  obtain b m' where m': "create_send_buffer now m len = Some (Some b, m')" "sm_wf m'" "sm_fresh now m len b m'"
    using create_send_buffer_ok [OF Cons.prems(1)] by blast
  have "slot_of (seq_of k) \<noteq> slot_of (seq_of (Suc n))"
    using Cons.prems by (intro sb.slot_window) auto
  then have "sb_cell (sm_buffers m') (slot_of (seq_of k)) = Some sb" "sm_current_sequence m' = seq_of (Suc n)"
    using m'(3) Cons.prems by (auto simp: sm_fresh_def)
  then show ?case
    using Cons.IH [of m' "Suc n"] Cons.prems m' by (simp add: x)
qed simp

subsection \<open>Expiry\<close>

lemma remove_sequences_ok:
  "sb_wf b \<Longrightarrow> \<exists>b'. remove_sequences b ss = Some b' \<and> sb_wf b'
     \<and> sb_cell b' = (\<lambda>i. if i \<in> slot_of ` set ss then None else sb_cell b i)"
proof (induction ss arbitrary: b)
  case (Cons s ss)
  then obtain b' where "remove_sequences (sb_put b (slot_of s) None) ss = Some b'" "sb_wf b'"
    "sb_cell b' = (\<lambda>i. if i \<in> slot_of ` set ss then None else sb_cell (sb_put b (slot_of s) None) i)"
    using Cons.IH [OF sb.inv_put [OF Cons.prems slot_of_less]] by blast
  with Cons.prems show ?case by (auto intro!: ext)
qed simp

lemma in_sm_expired:
  assumes "sm_wf m"
  shows "s \<in> set (sm_expired now m) \<longleftrightarrow>
    (\<exists>b. sb_cell (sm_buffers m) (slot_of s) = Some b \<and> sbuf_sequence b = s
       \<and> elapsed_millis now (sbuf_created_at b) > SEND_EXPIRE)"
proof -
  have "(\<exists>v \<in> set (sb_values (sm_buffers m)). v = Some b) \<longleftrightarrow> (\<exists>i. sb_cell (sm_buffers m) i = Some b)" for b
    using assms by (auto simp: sm_wf_def sb_wf_def sb_cell_def in_set_conv_nth split: if_splits)
  then have "s \<in> set (sm_expired now m) \<longleftrightarrow>
    (\<exists>b i. sb_cell (sm_buffers m) i = Some b \<and> sbuf_sequence b = s
       \<and> elapsed_millis now (sbuf_created_at b) > SEND_EXPIRE)"
    unfolding sm_expired_def by (auto simp: image_iff) force+
  with assms show ?thesis by (metis sm_wf_def)
qed

subsection \<open>Properties\<close>

text \<open>
  A new send buffer carries the next number: on a well-formed manager
  \<open>create_send_buffer\<close> does not panic, the buffer has the next sequence number, the
  requested length and the time of the call, it is found under its number, every other
  slot keeps its message, and the manager stays well-formed.
\<close>

lemma create_send_buffer_spec:
  assumes "sm_wf m"
  shows "\<exists>sb m'. create_send_buffer now m len = Some (Some sb, m') \<and> sm_wf m'
    \<and> sbuf_sequence sb = next_sequence (sm_current_sequence m) \<and> sm_current_sequence m' = sbuf_sequence sb
    \<and> bb_length (sbuf_byte_buffer sb) = len \<and> len \<le> length (bb_data (sbuf_byte_buffer sb))
    \<and> sbuf_created_at sb = now
    \<and> (\<forall>s. get_send_buffer m' s =
         (if slot_of s = slot_of (sbuf_sequence sb) then Some (Some sb) else get_send_buffer m s))"
proof -
  obtain sb m' where r: "create_send_buffer now m len = Some (Some sb, m')" "sm_wf m'" "sm_fresh now m len sb m'"
    using create_send_buffer_ok [OF assms] by blast
  have "len \<le> length (bb_data (sbuf_byte_buffer sb))" using r(3) bb_ok_room by (auto simp: sm_fresh_def)
  with r show ?thesis
    by (intro exI [of _ sb] exI [of _ m'])
      (auto simp: sm_fresh_def get_send_buffer_eq [OF r(2)] get_send_buffer_eq [OF assms])
qed

theorem create_send_buffer_spec_witness:
  "\<exists>sb m'. create_send_buffer 3 sm_default 100 = Some (Some sb, m') \<and> sbuf_sequence sb = 1
     \<and> get_send_buffer m' 1 = Some (Some sb)"
proof -
  have one: "next_sequence (sm_current_sequence sm_default) = 1" by (simp add: sm_default_def next_sequence_def)
  from create_send_buffer_spec [OF sm_wf_default, of 3 100] show ?thesis unfolding one by auto
qed

text \<open>
  C36. A sent message can be resent while it is one of the last 1023: after creating a
  buffer, up to 1022 further messages leave it retrievable under its number, across the
  wrap-around of the numbers.
\<close>

theorem history_retained:
  assumes "sm_wf m" "sm_current_sequence m = seq_of k" "get_send_buffer m (seq_of k) = Some (Some sb)"
    "length xs \<le> 1022"
  shows "\<exists>m'. create_many xs m = Some m' \<and> sm_current_sequence m' = seq_of (k + length xs)
    \<and> get_send_buffer m' (seq_of k) = Some (Some sb)"
  using create_many_keeps [OF assms(1,2), of k xs sb] assms by (auto simp: get_send_buffer_eq)

theorem history_retained_witness:
  "\<exists>sb m m'. create_send_buffer 0 sm_default 8 = Some (Some sb, m)
     \<and> create_many (replicate 1022 (1, 9)) m = Some m' \<and> get_send_buffer m' 1 = Some (Some sb)"
proof -
  obtain sb m where r: "create_send_buffer 0 sm_default 8 = Some (Some sb, m)" "sm_wf m" "sm_fresh 0 sm_default 8 sb m"
    using create_send_buffer_ok [of sm_default 0 8] by auto
  have one: "next_sequence (sm_current_sequence sm_default) = seq_of 1"
    by (simp add: sm_default_def next_sequence_def seq_of_def)
  with r have "sm_current_sequence m = seq_of 1" "get_send_buffer m (seq_of 1) = Some (Some sb)"
    by (auto simp: sm_fresh_def get_send_buffer_eq)
  from history_retained [OF r(2) this, of "replicate 1022 (1, 9)"] r(1) show ?thesis
    by (auto simp: seq_of_def)
qed

text \<open>
  Expiry removes exactly the old messages: after \<open>expire\<close> a message is gone if and only
  if it was created more than \<open>SEND_EXPIRE\<close> milliseconds ago, and the others are unchanged.
\<close>

lemma expire_exact:
  assumes "sm_wf m"
  shows "\<exists>m'. sm_expire now m = Some m' \<and> (\<forall>s. get_send_buffer m' s = (case get_send_buffer m s of
      Some (Some b) \<Rightarrow> Some (if elapsed_millis now (sbuf_created_at b) > 5000 then None else Some b)
    | r \<Rightarrow> r))"
proof -
  have wf: "sb_wf (sm_buffers m)" using assms by (simp add: sm_wf_def)
  obtain b' where b': "remove_sequences (sm_buffers m) (sm_expired now m) = Some b'" "sb_wf b'"
    "sb_cell b' = (\<lambda>i. if i \<in> slot_of ` set (sm_expired now m) then None else sb_cell (sm_buffers m) i)"
    using remove_sequences_ok [OF wf] by blast
  have mem: "slot_of s \<in> slot_of ` set (sm_expired now m) \<longleftrightarrow>
      (\<exists>b. sb_cell (sm_buffers m) (slot_of s) = Some b \<and> elapsed_millis now (sbuf_created_at b) > 5000)" for s
    using in_sm_expired [OF assms, of _ now] assms unfolding sm_wf_def image_iff by metis
  have "get_send_buffer (m\<lparr>sm_buffers := b'\<rparr>) s = Some (sb_cell b' (slot_of s))" for s
    using b'(2) by (simp add: get_send_buffer_def split: option.split)
  with b' mem show ?thesis
    by (auto simp: sm_expire_def get_send_buffer_eq [OF assms] split: option.split)
qed

theorem expire_exact_witness:
  "\<exists>m'. sm_expire 7 sm_default = Some m' \<and> get_send_buffer m' 3 = Some None"
proof -
  have "get_send_buffer sm_default 3 = Some None"
    using get_send_buffer_eq [OF sm_wf_default, of 3] by (simp add: sm_default_def sb_cell_def slot_of_def)
  then show ?thesis using expire_exact [of sm_default 7] by fastforce
qed

end
