(* ===== verification/Fragmentation.thy ===== *)
theory Fragmentation
  imports Send_Buffer_Manager Header
begin

text \<open>
  \<^verbatim>\<open>src/src/tachyon/fragmentation.rs\<close>: messages of 1200 bytes and more are cut into
  fragments, each a packet with a number of its own, and put together again by the
  receiver. The hash maps are association lists with one entry per key: the code only
  looks up, inserts, removes, counts and sums over them, so their iteration order is not
  observable. The result of \<open>assemble\<close> is a sum, \<open>Inl ()\<close> for \<open>Err(())\<close>.
\<close>

abbreviation (input) GROUP_EXPIRE :: nat where "GROUP_EXPIRE \<equiv> 5000"
abbreviation (input) FRAG_SIZE :: nat where "FRAG_SIZE \<equiv> 1200"

type_synonym fragment_map = "(u16 \<times> bytes) list"

record fragmentation =
  fr_next_group :: u16
  fr_received :: "(u16 \<times> fragment_map) list"
  fr_received_at :: "(u16 \<times> nat) list"

definition fr_default :: fragmentation where
  "fr_default = \<lparr>fr_next_group = 1, fr_received = [], fr_received_at = []\<rparr>"

definition expired_groups :: "nat \<Rightarrow> fragmentation \<Rightarrow> u16 list" where
  "expired_groups now self =
     map fst (filter (\<lambda>(g, time). elapsed_millis now time > GROUP_EXPIRE) (fr_received_at self))"

definition expire_groups :: "nat \<Rightarrow> fragmentation \<Rightarrow> fragmentation" where
  "expire_groups now self =
     self\<lparr>fr_received := fold AList.delete (expired_groups now self) (fr_received self),
          fr_received_at := fold AList.delete (expired_groups now self) (fr_received_at self)\<rparr>"

definition should_fragment :: "nat \<Rightarrow> bool" where
  "should_fragment len \<longleftrightarrow> len \<ge> FRAG_SIZE"

definition get_next_group :: "fragmentation \<Rightarrow> u16 \<times> fragmentation" where
  "get_next_group self =
     (let self = self\<lparr>fr_next_group := fr_next_group self + 1\<rparr>;
          self = (if fr_next_group self \<ge> 65535 - 1 then self\<lparr>fr_next_group := 1\<rparr> else self)
      in (fr_next_group self, self))"

fun get_group_length :: "fragment_map \<Rightarrow> nat option" where
  "get_group_length [] = Some 0"
| "get_group_length ((_, value) # rest) = do {
     n \<leftarrow> usize_sub (length value) TACHYON_FRAGMENTED_HEADER_SIZE;
     m \<leftarrow> get_group_length rest;
     Some (n + m) }"

fun assemble_loop :: "fragment_map \<Rightarrow> nat \<Rightarrow> u16 \<Rightarrow> nat \<Rightarrow> bytes \<Rightarrow> (unit + bytes) option" where
  "assemble_loop m 0 seq offset buffer = Some (Inr buffer)"
| "assemble_loop m (Suc n) seq offset buffer =
     (case map_of m seq of
        Some fragment \<Rightarrow> do {
          frag_body_len \<leftarrow> usize_sub (length fragment) TACHYON_FRAGMENTED_HEADER_SIZE;
          src \<leftarrow> slice fragment TACHYON_FRAGMENTED_HEADER_SIZE (length fragment);
          buffer \<leftarrow> copy_into buffer offset (offset + frag_body_len) src;
          assemble_loop m n (next_sequence seq) (offset + frag_body_len) buffer }
      | None \<Rightarrow> Some (Inl ()))"

definition assemble :: "fragmentation \<Rightarrow> header \<Rightarrow> ((unit + bytes) \<times> fragmentation) option" where
  "assemble self header =
     (case map_of (fr_received self) (h_fragment_group header) of
        None \<Rightarrow> Some (Inl (), self)
      | Some m \<Rightarrow>
          if length m \<noteq> unat (h_fragment_count header) then Some (Inl (), self)
          else do {
            body_length \<leftarrow> get_group_length m;
            r \<leftarrow> assemble_loop m (unat (h_fragment_count header)) (h_fragment_start_sequence header) 0
                   (replicate body_length 0);
            Some (r, self\<lparr>fr_received := AList.delete (h_fragment_group header) (fr_received self)\<rparr>) })"

definition receive_fragment ::
  "nat \<Rightarrow> fragmentation \<Rightarrow> bytes \<Rightarrow> nat \<Rightarrow> ((bool \<times> bool) \<times> fragmentation) option" where
  "receive_fragment now self data len = do {
     header \<leftarrow> header_read_fragmented data;
     let self = (if map_of (fr_received self) (h_fragment_group header) = None
       then self\<lparr>fr_received := AList.update (h_fragment_group header) [] (fr_received self),
                 fr_received_at := AList.update (h_fragment_group header) now (fr_received_at self)\<rparr>
       else self);
     case map_of (fr_received self) (h_fragment_group header) of
       Some m \<Rightarrow> do {
         fragment \<leftarrow> slice data 0 len;
         let m = (if map_of m (h_sequence header) = None then AList.update (h_sequence header) fragment m else m);
         Some ((True, length m = unat (h_fragment_count header)),
               self\<lparr>fr_received := AList.update (h_fragment_group header) m (fr_received self)\<rparr>) }
     | None \<Rightarrow> Some ((False, False), self) }"

function chunks :: "nat \<Rightarrow> 'a list \<Rightarrow> 'a list list" where
  "chunks n xs = (if n = 0 \<or> xs = [] then [] else take n xs # chunks n (drop n xs))"
  by auto
termination by (relation "measure (\<lambda>(n, xs). length xs)") auto

declare chunks.simps [simp del]

fun create_fragments_loop ::
  "nat \<Rightarrow> u8 \<Rightarrow> u16 \<Rightarrow> u16 \<Rightarrow> bytes list \<Rightarrow> u16 \<Rightarrow> nat \<Rightarrow> u16 list \<Rightarrow> send_buffer_manager
     \<Rightarrow> (u16 list \<times> send_buffer_manager) option" where
  "create_fragments_loop now channel grp fragment_count [] start_sequence index fragments sender =
     Some (fragments, sender)"
| "create_fragments_loop now channel grp fragment_count (chunk # rest) start_sequence index fragments sender = do {
     let chunk_len = length chunk;
     let fragment_len = chunk_len + TACHYON_FRAGMENTED_HEADER_SIZE;
     (r, sender) \<leftarrow> create_send_buffer now sender fragment_len;
     case r of
       Some send_buffer \<Rightarrow> do {
         let sequence = sbuf_sequence send_buffer;
         let start_sequence = (if index = 0 then sequence else start_sequence);
         let fragment_header = header_create_fragmented sequence channel grp start_sequence fragment_count;
         d \<leftarrow> header_write_fragmented fragment_header (bb_data (sbuf_byte_buffer send_buffer));
         d \<leftarrow> copy_into d TACHYON_FRAGMENTED_HEADER_SIZE (chunk_len + TACHYON_FRAGMENTED_HEADER_SIZE) chunk;
         sender \<leftarrow> sm_put_back sender
           (send_buffer\<lparr>sbuf_byte_buffer := (sbuf_byte_buffer send_buffer)\<lparr>bb_data := d\<rparr>\<rparr>);
         create_fragments_loop now channel grp fragment_count rest start_sequence (index + 1)
           (fragments @ [sequence]) sender }
     | None \<Rightarrow> Some ([], sender) }"

definition create_fragments ::
  "nat \<Rightarrow> fragmentation \<Rightarrow> send_buffer_manager \<Rightarrow> u8 \<Rightarrow> bytes \<Rightarrow> nat
     \<Rightarrow> (u16 list \<times> fragmentation \<times> send_buffer_manager) option" where
  "create_fragments now self sender channel data len = do {
     sl \<leftarrow> slice data 0 len;
     let cs = chunks FRAG_SIZE sl;
     let fragment_count = word_of_nat (length cs);
     let (grp, self) = get_next_group self;
     (fragments, sender) \<leftarrow> create_fragments_loop now channel grp fragment_count cs 0 0 [] sender;
     Some (fragments, self, sender) }"

subsection \<open>Chunks\<close>

lemma concat_chunks [simp]: "0 < n \<Longrightarrow> concat (chunks n xs) = xs"
  by (induction n xs rule: chunks.induct) (subst chunks.simps, simp)

lemma chunks_bounds: "c \<in> set (chunks n xs) \<Longrightarrow> 0 < length c \<and> length c \<le> n"
  by (induction n xs rule: chunks.induct) (subst (asm) (2) chunks.simps, auto split: if_splits)

lemma length_chunks: "0 < n \<Longrightarrow> length (chunks n xs) = (length xs + n - 1) div n"
proof (induction n xs rule: chunks.induct)
  case (1 n xs)
  show ?case
  proof (cases "xs = []")
    case True
    then show ?thesis using 1 by (subst chunks.simps) simp
  next
    case False
    then have "length (chunks n xs) = Suc ((length xs - n + n - 1) div n)"
      using 1 by (subst chunks.simps) simp
    also have "\<dots> = Suc ((length xs - 1) div n)"
      using 1(2) by (cases "n \<le> length xs") simp_all
    also have "\<dots> = ((length xs - 1) + n) div n" using 1(2) by (subst div_add_self2) simp_all
    also have "\<dots> = (length xs + n - 1) div n" using False by (cases xs) auto
    finally show ?thesis .
  qed
qed

subsection \<open>Sending\<close>

text \<open>A message is stored under a number of the send history.\<close>

definition stored :: "send_buffer_manager \<Rightarrow> nat \<Rightarrow> bytes \<Rightarrow> bool" where
  "stored m k p \<longleftrightarrow> (\<exists>sb. sb_cell (sm_buffers m) (slot_of (seq_of k)) = Some sb
     \<and> sbuf_sequence sb = seq_of k \<and> bb_content (sbuf_byte_buffer sb) = p)"

text \<open>One message is given the next number, filled by the caller and stored.\<close>

lemma store_message:
  assumes wf: "sm_wf m" and cur: "sm_current_sequence m = seq_of n"
  obtains sb m1 where "create_send_buffer now m len = Some (Some sb, m1)" "sbuf_sequence sb = seq_of (Suc n)"
    "bb_length (sbuf_byte_buffer sb) = len" "len \<le> length (bb_data (sbuf_byte_buffer sb))"
    "\<forall>d :: bytes. length d = length (bb_data (sbuf_byte_buffer sb)) \<longrightarrow>
       (\<exists>m2. sm_put_back m1 (sb\<lparr>sbuf_byte_buffer := (sbuf_byte_buffer sb)\<lparr>bb_data := d\<rparr>\<rparr>) = Some m2
         \<and> sm_wf m2 \<and> sm_current_sequence m2 = seq_of (Suc n) \<and> stored m2 (Suc n) (take len d)
         \<and> (\<forall>k p. k \<le> n \<longrightarrow> Suc n \<le> k + 1022 \<longrightarrow> stored m k p \<longrightarrow> stored m2 k p)
         \<and> (\<forall>i x. sb_cell (sm_buffers m2) i = Some x \<longrightarrow> sb_cell (sm_buffers m) i = Some x \<or> bb_data (sbuf_byte_buffer x) = d))"
proof -
  obtain sb m1 where r: "create_send_buffer now m len = Some (Some sb, m1)" "sm_wf m1" "sm_fresh now m len sb m1"
    using create_send_buffer_ok [OF wf] by blast
  have seq: "sbuf_sequence sb = seq_of (Suc n)" "sm_current_sequence m1 = seq_of (Suc n)"
    and len: "bb_length (sbuf_byte_buffer sb) = len"
    and ok: "bb_ok (bp_buffer_size (sm_buffer_pool m1)) (sbuf_byte_buffer sb)"
    and cell: "sb_cell (sm_buffers m1) = (sb_cell (sm_buffers m))(slot_of (seq_of (Suc n)) := Some sb)"
    using r(3) cur by (auto simp: sm_fresh_def)
  show ?thesis
  proof (rule that [OF r(1) seq(1) len], goal_cases)
    case 1
    show "len \<le> length (bb_data (sbuf_byte_buffer sb))" using bb_ok_room [OF ok] len by simp
  next
    case 2
    show ?case
    proof (intro allI impI)
      fix d :: bytes
      assume d: "length d = length (bb_data (sbuf_byte_buffer sb))"
      let ?sb = "sb\<lparr>sbuf_byte_buffer := (sbuf_byte_buffer sb)\<lparr>bb_data := d\<rparr>\<rparr>"
      have "bb_ok (bp_buffer_size (sm_buffer_pool m1)) (sbuf_byte_buffer ?sb)"
        using bp.ok_set_data [OF ok d] by simp
      from sm_put_back_ok [OF r(2) this] obtain m2 where m2: "sm_put_back m1 ?sb = Some m2" "sm_wf m2"
        "sm_current_sequence m2 = seq_of (Suc n)"
        "sb_cell (sm_buffers m2) = (sb_cell (sm_buffers m1))(slot_of (seq_of (Suc n)) := Some ?sb)"
        using seq by auto
      have "stored m2 (Suc n) (take len d)"
        using m2(4) seq len by (simp add: stored_def bb_content_def)
      moreover have "stored m2 k p" if "k \<le> n" "Suc n \<le> k + 1022" "stored m k p" for k p
      proof -
        have "slot_of (seq_of k) \<noteq> slot_of (seq_of (Suc n))"
          using that(1,2) by (intro sb.slot_window) auto
        then show ?thesis using that(3) m2(4) cell by (simp add: stored_def)
      qed
      moreover have cells: "\<forall>i x. sb_cell (sm_buffers m2) i = Some x \<longrightarrow> sb_cell (sm_buffers m) i = Some x \<or> bb_data (sbuf_byte_buffer x) = d"
        using m2(4) cell by auto
      ultimately show "\<exists>m2. sm_put_back m1 ?sb = Some m2
           \<and> sm_wf m2 \<and> sm_current_sequence m2 = seq_of (Suc n) \<and> stored m2 (Suc n) (take len d)
           \<and> (\<forall>k p. k \<le> n \<longrightarrow> Suc n \<le> k + 1022 \<longrightarrow> stored m k p \<longrightarrow> stored m2 k p)
           \<and> (\<forall>i x. sb_cell (sm_buffers m2) i = Some x \<longrightarrow> sb_cell (sm_buffers m) i = Some x \<or> bb_data (sbuf_byte_buffer x) = d)"
        using m2 cells by blast
    qed
  qed
qed


lemma create_fragments_loop_ok:
  assumes "sm_wf m" "sm_current_sequence m = seq_of n" "length cs \<le> 1022"
    "index = 0 \<longrightarrow> start = n + 1" "index \<noteq> 0 \<longrightarrow> ss = seq_of start"
  shows "\<exists>m'. create_fragments_loop now channel grp (word_of_nat count) cs ss index fs m
       = Some (fs @ map seq_of [n + 1..<n + 1 + length cs], m')
     \<and> sm_wf m' \<and> sm_current_sequence m' = seq_of (n + length cs)
     \<and> (\<forall>i < length cs. stored m' (n + 1 + i)
          (frag_bytes (header_create_fragmented (seq_of (n + 1 + i)) channel grp (seq_of start) (word_of_nat count)) @ cs ! i))
     \<and> (\<forall>k p. k \<le> n \<longrightarrow> n + length cs \<le> k + 1022 \<longrightarrow> stored m k p \<longrightarrow> stored m' k p)"
  using assms
proof (induction cs arbitrary: n m fs index ss)
  case Nil
  then show ?case by simp
next
  case (Cons c cs)
  let ?len = "length c + 10"
  obtain sb m1 where sb: "create_send_buffer now m ?len = Some (Some sb, m1)" "sbuf_sequence sb = seq_of (Suc n)"
    "bb_length (sbuf_byte_buffer sb) = ?len" "?len \<le> length (bb_data (sbuf_byte_buffer sb))"
    and put: "\<forall>d. length d = length (bb_data (sbuf_byte_buffer sb)) \<longrightarrow>
       (\<exists>m2. sm_put_back m1 (sb\<lparr>sbuf_byte_buffer := (sbuf_byte_buffer sb)\<lparr>bb_data := d\<rparr>\<rparr>) = Some m2
         \<and> sm_wf m2 \<and> sm_current_sequence m2 = seq_of (Suc n) \<and> stored m2 (Suc n) (take ?len d)
         \<and> (\<forall>k p. k \<le> n \<longrightarrow> Suc n \<le> k + 1022 \<longrightarrow> stored m k p \<longrightarrow> stored m2 k p)
         \<and> (\<forall>i x. sb_cell (sm_buffers m2) i = Some x \<longrightarrow> sb_cell (sm_buffers m) i = Some x \<or> bb_data (sbuf_byte_buffer x) = d))"
    by (rule store_message [OF Cons.prems(1,2), where now = now and len = ?len]) (rule that)
  let ?h = "header_create_fragmented (seq_of (Suc n)) channel grp (seq_of start) (word_of_nat count)"
  let ?d = "overwrite (bb_data (sbuf_byte_buffer sb)) 0 (frag_bytes ?h @ c)"
  have start: "(if index = 0 then seq_of (Suc n) else ss) = seq_of start" using Cons.prems(4,5) by simp
  have d: "header_write_fragmented ?h (bb_data (sbuf_byte_buffer sb))
      = Some (overwrite (bb_data (sbuf_byte_buffer sb)) 0 (frag_bytes ?h))"
    "copy_into (overwrite (bb_data (sbuf_byte_buffer sb)) 0 (frag_bytes ?h)) 10 (length c + 10) c = Some ?d"
    "length ?d = length (bb_data (sbuf_byte_buffer sb))" "take ?len ?d = frag_bytes ?h @ c"
    using sb(4) by (simp_all add: header_write_fragmented_eq) (simp add: overwrite_def)
  obtain m2 where m2: "sm_put_back m1 (sb\<lparr>sbuf_byte_buffer := (sbuf_byte_buffer sb)\<lparr>bb_data := ?d\<rparr>\<rparr>) = Some m2"
    "sm_wf m2" "sm_current_sequence m2 = seq_of (Suc n)" "stored m2 (Suc n) (frag_bytes ?h @ c)"
    "\<And>k p. k \<le> n \<Longrightarrow> Suc n \<le> k + 1022 \<Longrightarrow> stored m k p \<Longrightarrow> stored m2 k p"
    using put [rule_format, OF d(3)] d(4) by metis
  obtain m' where m': "create_fragments_loop now channel grp (word_of_nat count) cs (seq_of start) (index + 1)
        (fs @ [seq_of (Suc n)]) m2 = Some ((fs @ [seq_of (Suc n)]) @ map seq_of [Suc n + 1..<Suc n + 1 + length cs], m')"
    "sm_wf m'" "sm_current_sequence m' = seq_of (Suc n + length cs)"
    "\<And>i. i < length cs \<Longrightarrow> stored m' (Suc n + 1 + i)
       (frag_bytes (header_create_fragmented (seq_of (Suc n + 1 + i)) channel grp (seq_of start) (word_of_nat count)) @ cs ! i)"
    "\<And>k p. k \<le> Suc n \<Longrightarrow> Suc n + length cs \<le> k + 1022 \<Longrightarrow> stored m2 k p \<Longrightarrow> stored m' k p"
    using Cons.IH [OF m2(2,3), of "index + 1" "seq_of start" "fs @ [seq_of (Suc n)]"] Cons.prems(3) by auto
  have step: "create_fragments_loop now channel grp (word_of_nat count) (c # cs) ss index fs m =
      create_fragments_loop now channel grp (word_of_nat count) cs (seq_of start) (index + 1) (fs @ [seq_of (Suc n)]) m2"
    using sb(1,2) d m2(1) start by (simp add: Let_def)
  have nums: "[n + 1..<n + 1 + length (c # cs)] = Suc n # [Suc n + 1..<Suc n + 1 + length cs]"
    by (simp add: upt_conv_Cons del: upt_Suc)
  have "stored m' (n + 1 + i) (frag_bytes (header_create_fragmented (seq_of (n + 1 + i)) channel grp (seq_of start)
      (word_of_nat count)) @ (c # cs) ! i)" if "i < length (c # cs)" for i
  proof (cases i)
    case 0
    then show ?thesis using m'(5) [of "Suc n"] m2(4) Cons.prems(3) by simp
  next
    case (Suc j)
    then show ?thesis using m'(4) [of j] that by simp
  qed
  moreover have "stored m' k p" if "k \<le> n" "n + length (c # cs) \<le> k + 1022" "stored m k p" for k p
    using m'(5) m2(5) that by simp
  ultimately show ?case
    using m' unfolding step nums by (intro exI [of _ m']) (simp del: upt_Suc)
qed

subsection \<open>Receiving\<close>

text \<open>The fragments of one group, as a map.\<close>

definition group_map :: "fragmentation \<Rightarrow> u16 \<Rightarrow> fragment_map" where
  "group_map self g = (case map_of (fr_received self) g of None \<Rightarrow> [] | Some m \<Rightarrow> m)"

lemma receive_fragment_eq:
  fixes self :: fragmentation
  assumes "data = frag_bytes h @ rest" "len \<le> length data" "h_start_sequence h = 0" "h_flags h = 0"
  defines "m \<equiv> group_map self (h_fragment_group h)"
  defines "m' \<equiv> (if map_of m (h_sequence h) = None then AList.update (h_sequence h) (take len data) m else m)"
  shows "\<exists>self'. receive_fragment now self data len = Some ((True, length m' = unat (h_fragment_count h)), self')
     \<and> map_of (fr_received self') = (map_of (fr_received self))(h_fragment_group h \<mapsto> m')"
proof -
  have hdr: "header_read_fragmented data = Some h"
    using assms(1,3,4) by (simp add: header_read_fragmented_prefix)
  show ?thesis
    using assms(2) unfolding receive_fragment_def hdr
    by (auto simp: m'_def m_def group_map_def update_conv' Let_def split: option.splits)
qed

lemma length_distinct_keys: "distinct (map fst m) \<Longrightarrow> length m = card (dom (map_of m))"
  using distinct_card [of "map fst m"] by (simp add: dom_map_of_conv_image_fst)

text \<open>The group holds exactly the packets of the numbers \<open>A\<close>.\<close>

definition holds :: "fragment_map \<Rightarrow> nat set \<Rightarrow> (nat \<Rightarrow> bytes) \<Rightarrow> bool" where
  "holds m A pkt \<longleftrightarrow> distinct (map fst m) \<and> dom (map_of m) = seq_of ` A
     \<and> (\<forall>k \<in> A. map_of m (seq_of k) = Some (pkt k))"

lemma holds_empty [simp]: "holds [] {} pkt"
  by (simp add: holds_def)

lemma holds_insert:
  assumes "holds m A pkt" "inj_on seq_of (insert k A)"
  shows "holds (if map_of m (seq_of k) = None then AList.update (seq_of k) (pkt k) m else m) (insert k A) pkt"
proof (cases "k \<in> A")
  case True
  then show ?thesis using assms(1) by (auto simp: holds_def insert_absorb)
next
  case False
  then have "seq_of k \<notin> seq_of ` A" using assms(2) by auto
  then have "\<forall>j \<in> A. seq_of j \<noteq> seq_of k" "map_of m (seq_of k) = None"
    using assms(1) by (metis image_eqI, metis domIff holds_def)
  then show ?thesis
    using assms(1) by (auto simp: holds_def update_conv' distinct_update)
qed

lemma length_holds: "holds m A pkt \<Longrightarrow> inj_on seq_of A \<Longrightarrow> length m = card A"
  by (simp add: holds_def length_distinct_keys card_image)

lemma get_group_length_ok:
  "\<forall>(s, p) \<in> set m. 10 \<le> length p \<Longrightarrow> get_group_length m = Some (\<Sum>(s, p) \<leftarrow> m. length p - 10)"
  by (induction m rule: get_group_length.induct) auto

lemma assemble_loop_ok:
  assumes "\<And>i. i < length cs \<Longrightarrow> \<exists>h. length h = 10 \<and> map_of m (seq_of (n + i)) = Some (h @ cs ! i)"
    "off + length (concat cs) = length buf"
  shows "assemble_loop m (length cs) (seq_of n) off buf = Some (Inr (take off buf @ concat cs))"
  using assms
proof (induction cs arbitrary: n off buf)
  case (Cons c cs)
  obtain h where h: "length h = 10" "map_of m (seq_of n) = Some (h @ c)"
    using Cons.prems(1) [of 0] by auto
  let ?buf = "overwrite buf off c"
  have "\<exists>h. length h = 10 \<and> map_of m (seq_of (Suc n + i)) = Some (h @ cs ! i)" if "i < length cs" for i
    using Cons.prems(1) [of "Suc i"] that by simp
  moreover have "(off + length c) + length (concat cs) = length ?buf" using Cons.prems(2) by simp
  ultimately have "assemble_loop m (length cs) (seq_of (Suc n)) (off + length c) ?buf =
      Some (Inr (take (off + length c) ?buf @ concat cs))" by (rule Cons.IH)
  moreover have "take (off + length c) ?buf = take off buf @ c"
    using Cons.prems(2) by (simp add: overwrite_def)
  ultimately show ?case using h Cons.prems(2) by simp
qed simp


text \<open>Fragments arrive one after the other.\<close>

fun receive_fragments :: "nat \<Rightarrow> bytes list \<Rightarrow> bool \<Rightarrow> fragmentation \<Rightarrow> (bool \<times> fragmentation) option" where
  "receive_fragments now [] complete self = Some (complete, self)"
| "receive_fragments now (p # ps) complete self = do {
     ((ok, complete), self) \<leftarrow> receive_fragment now self p (length p);
     receive_fragments now ps complete self }"

definition packet_of :: "u16 \<Rightarrow> nat \<Rightarrow> nat \<Rightarrow> bytes \<Rightarrow> bool" where
  "packet_of g count k p \<longleftrightarrow> (\<exists>h rest. p = frag_bytes h @ rest \<and> h_sequence h = seq_of k
     \<and> h_fragment_group h = g \<and> unat (h_fragment_count h) = count \<and> h_start_sequence h = 0 \<and> h_flags h = 0)"

lemma receive_fragment_holds:
  assumes "packet_of g count k (pkt k)" "holds (group_map self g) A pkt" "inj_on seq_of (insert k A)"
    and data: "data = pkt k @ tail"
  shows "\<exists>self'. receive_fragment now self data (length (pkt k)) = Some ((True, card (insert k A) = count), self')
     \<and> holds (group_map self' g) (insert k A) pkt \<and> map_of (fr_received self') g \<noteq> None"
proof -
  obtain h rest where h: "pkt k = frag_bytes h @ rest" "h_sequence h = seq_of k" "h_fragment_group h = g"
    "unat (h_fragment_count h) = count" "h_start_sequence h = 0" "h_flags h = 0"
    using assms(1) by (auto simp: packet_of_def)
  define m where "m = (if map_of (group_map self g) (seq_of k) = None
      then AList.update (seq_of k) (pkt k) (group_map self g) else group_map self g)"
  have m: "holds m (insert k A) pkt" unfolding m_def by (rule holds_insert [OF assms(2,3)])
  have "data = frag_bytes h @ rest @ tail" "length (pkt k) \<le> length data" "take (length (pkt k)) data = pkt k"
    using data h(1) by simp_all
  then obtain self' where self': "receive_fragment now self data (length (pkt k)) = Some ((True, length m = count), self')"
    "map_of (fr_received self') = (map_of (fr_received self))(g \<mapsto> m)"
    using receive_fragment_eq [of data h "rest @ tail" "length (pkt k)" now self] h(2-6) by (auto simp: m_def)
  then show ?thesis
    using m length_holds [OF m assms(3)] by (auto simp: group_map_def)
qed

lemma receive_fragments_holds:
  assumes "\<And>k. k \<in> set ks \<Longrightarrow> packet_of g count k (pkt k)" "holds (group_map self g) A pkt"
    "inj_on seq_of (set ks \<union> A)" "b \<longleftrightarrow> card A = count" "A \<noteq> {} \<longrightarrow> map_of (fr_received self) g \<noteq> None"
  shows "\<exists>self'. receive_fragments now (map pkt ks) b self = Some (card (set ks \<union> A) = count, self')
     \<and> holds (group_map self' g) (set ks \<union> A) pkt \<and> (set ks \<union> A \<noteq> {} \<longrightarrow> map_of (fr_received self') g \<noteq> None)"
  using assms
proof (induction ks arbitrary: self A b)
  case (Cons k ks)
  have inj: "inj_on seq_of (insert k A)" using Cons.prems(3) by (rule inj_on_subset) auto
  obtain self1 where s1: "receive_fragment now self (pkt k) (length (pkt k)) = Some ((True, card (insert k A) = count), self1)"
    "holds (group_map self1 g) (insert k A) pkt" "map_of (fr_received self1) g \<noteq> None"
    using receive_fragment_holds [OF Cons.prems(1) Cons.prems(2) inj, of "pkt k" "[]" now] by auto
  have set_eq: "set ks \<union> insert k A = set (k # ks) \<union> A" by auto
  have "\<exists>self'. receive_fragments now (map pkt ks) (card (insert k A) = count) self1
       = Some (card (set ks \<union> insert k A) = count, self')
     \<and> holds (group_map self' g) (set ks \<union> insert k A) pkt
     \<and> (set ks \<union> insert k A \<noteq> {} \<longrightarrow> map_of (fr_received self') g \<noteq> None)"
    using Cons.prems(1,3) s1(2,3) by (intro Cons.IH) (auto simp: set_eq)
  with s1(1) show ?case unfolding set_eq by simp
qed simp

lemma holds_set: "holds m A pkt \<Longrightarrow> set m = (\<lambda>k. (seq_of k, pkt k)) ` A"
proof (intro set_eqI iffI)
  assume m: "holds m A pkt"
  fix x
  show "x \<in> (\<lambda>k. (seq_of k, pkt k)) ` A" if "x \<in> set m"
  proof -
    obtain s p where x: "x = (s, p)" by (cases x)
    then have "map_of m s = Some p" using that m by (simp add: holds_def)
    moreover from this obtain k where "k \<in> A" "s = seq_of k" using m unfolding holds_def by blast
    ultimately show ?thesis using m x by (auto simp: holds_def)
  qed
  show "x \<in> set m" if "x \<in> (\<lambda>k. (seq_of k, pkt k)) ` A"
    using that m by (auto simp: holds_def dest: map_of_SomeD)
qed

lemma sum_list_holds:
  assumes "holds m A pkt" "inj_on seq_of A"
  shows "(\<Sum>(s, p) \<leftarrow> m. f p) = (\<Sum>k \<in> A. f (pkt k))"
proof -
  have "distinct m" using assms(1) by (simp add: holds_def distinct_map)
  then have "(\<Sum>(s, p) \<leftarrow> m. f p) = (\<Sum>(s, p) \<in> set m. f p)"
    by (simp add: sum_list_distinct_conv_sum_set)
  moreover have "inj_on (\<lambda>k. (seq_of k, pkt k)) A" using assms(2) by (auto simp: inj_on_def)
  ultimately show ?thesis by (simp add: holds_set [OF assms(1)] sum.reindex)
qed

lemma assemble_ok:
  assumes "map_of (fr_received self) g = Some m" "holds m {n..<n + length cs} pkt" "length cs \<le> 1022"
    "\<And>i. i < length cs \<Longrightarrow> \<exists>h. length h = 10 \<and> pkt (n + i) = h @ cs ! i"
    "h_fragment_group h = g" "h_fragment_start_sequence h = seq_of n" "unat (h_fragment_count h) = length cs"
  shows "assemble self h = Some (Inr (concat cs), self\<lparr>fr_received := AList.delete g (fr_received self)\<rparr>)"
proof -
  let ?A = "{n..<n + length cs}"
  have inj: "inj_on seq_of ?A"
    using assms(3) by (intro inj_on_subset [OF sn.inj_on_window [of n]]) auto
  have len: "length m = length cs" using length_holds [OF assms(2) inj] by simp
  have pk: "length (pkt k) = 10 + length (cs ! (k - n))" if "k \<in> ?A" for k
  proof -
    have "k - n < length cs" "n + (k - n) = k" using that by auto
    with assms(4) [of "k - n"] show ?thesis by auto
  qed
  have "\<forall>(s, p) \<in> set m. 10 \<le> length p"
    using pk by (auto simp: holds_set [OF assms(2)])
  from get_group_length_ok [OF this] have "get_group_length m = Some (\<Sum>k \<in> ?A. length (pkt k) - 10)"
    using sum_list_holds [OF assms(2) inj, of "\<lambda>p. length p - 10"] by simp
  moreover have "(\<Sum>k \<in> ?A. length (pkt k) - 10) = (\<Sum>k \<in> ?A. length (cs ! (k - n)))"
    using pk by (intro sum.cong) auto
  moreover have "\<dots> = (\<Sum>i \<in> {..<length cs}. length (cs ! i))"
    by (rule sum.reindex_bij_witness [where i = "\<lambda>i. n + i" and j = "\<lambda>k. k - n"]) auto
  moreover have "\<dots> = length (concat cs)"
    by (simp add: length_concat sum_list_sum_nth atLeast0LessThan)
  ultimately have gl: "get_group_length m = Some (length (concat cs))" by simp
  have "map_of m (seq_of (n + i)) = Some (pkt (n + i))" if "i < length cs" for i
    using assms(2) that by (simp add: holds_def)
  then have "assemble_loop m (length cs) (seq_of n) 0 (replicate (length (concat cs)) 0) = Some (Inr (concat cs))"
    using assemble_loop_ok [of cs m n 0 "replicate (length (concat cs)) 0"] assms(4) by fastforce
  then show ?thesis using assms(1,5-7) len gl by (simp add: assemble_def)
qed


section \<open>Properties\<close>

definition resend_packet :: "send_buffer_manager \<Rightarrow> u16 \<Rightarrow> bytes" where
  "resend_packet m s =
     (case get_send_buffer m s of Some (Some sb) \<Rightarrow> bb_content (sbuf_byte_buffer sb) | _ \<Rightarrow> [])"

lemma resend_packet_stored: "sm_wf m \<Longrightarrow> stored m k p \<Longrightarrow> resend_packet m (seq_of k) = p"
  by (auto simp: resend_packet_def stored_def get_send_buffer_eq)

lemma create_fragments_ok:
  assumes "sm_wf m" "sm_current_sequence m = seq_of n" "len \<le> length data" "len \<le> 1022 * 1200"
  defines "cs \<equiv> chunks 1200 (take len data)"
  shows "\<exists>g fr' m'. create_fragments now fr m channel data len = Some (map seq_of [n + 1..<n + 1 + length cs], fr', m')
     \<and> g = fst (get_next_group fr) \<and> fr' = snd (get_next_group fr)
     \<and> sm_wf m' \<and> sm_current_sequence m' = seq_of (n + length cs) \<and> length cs \<le> 1022
     \<and> (\<forall>i < length cs. resend_packet m' (seq_of (n + 1 + i)) =
          frag_bytes (header_create_fragmented (seq_of (n + 1 + i)) channel g (seq_of (n + 1)) (word_of_nat (length cs))) @ cs ! i)"
proof -
  have len: "length cs \<le> 1022"
    using assms(3,4) by (simp add: cs_def length_chunks min_absorb2)
  let ?g = "fst (get_next_group fr)"
  obtain m' where m': "create_fragments_loop now channel ?g (word_of_nat (length cs)) cs 0 0 [] m
      = Some ([] @ map seq_of [n + 1..<n + 1 + length cs], m')"
    "sm_wf m'" "sm_current_sequence m' = seq_of (n + length cs)"
    "\<And>i. i < length cs \<Longrightarrow> stored m' (n + 1 + i)
       (frag_bytes (header_create_fragmented (seq_of (n + 1 + i)) channel ?g (seq_of (n + 1)) (word_of_nat (length cs))) @ cs ! i)"
    using create_fragments_loop_ok [OF assms(1,2) len, of 0 "n + 1" 0 now channel ?g "length cs" "[]"] by auto
  have "create_fragments now fr m channel data len
      = Some (map seq_of [n + 1..<n + 1 + length cs], snd (get_next_group fr), m')"
    using assms(3) m'(1) by (simp add: create_fragments_def cs_def split_beta del: upt_Suc)
  with m' len show ?thesis using resend_packet_stored by blast
qed

text \<open>
  C27. A message cut into fragments is reassembled: for a message of up to 1022 fragments
  (1.2 MB), \<open>create_fragments\<close> stores one packet per fragment under consecutive numbers,
  and a receiver that has no fragment of the group yet and gets these packets in any order
  and with repetitions assembles exactly the message, on the header of any of them.
\<close>

theorem fragments_roundtrip:
  assumes "sm_wf m" "sm_current_sequence m = seq_of n" "len \<le> length data" "0 < len" "len \<le> 1022 * 1200"
    "map_of (fr_received rc) (fst (get_next_group fr)) = None"
  shows "\<exists>ss fr' m'. create_fragments now fr m channel data len = Some (ss, fr', m')
     \<and> (\<forall>js s. set js = set ss \<and> s \<in> set ss \<longrightarrow> (\<exists>rc' h rc''.
          receive_fragments now' (map (resend_packet m') js) False rc = Some (True, rc')
          \<and> header_read_fragmented (resend_packet m' s) = Some h
          \<and> assemble rc' h = Some (Inr (take len data), rc'')))"
proof -
  define cs where "cs = chunks 1200 (take len data)"
  define g where "g = fst (get_next_group fr)"
  obtain fr' m' where c: "create_fragments now fr m channel data len = Some (map seq_of [n + 1..<n + 1 + length cs], fr', m')"
    and cs: "length cs \<le> 1022"
    and pk: "\<And>i. i < length cs \<Longrightarrow> resend_packet m' (seq_of (n + 1 + i)) =
      frag_bytes (header_create_fragmented (seq_of (n + 1 + i)) channel g (seq_of (n + 1)) (word_of_nat (length cs))) @ cs ! i"
    using create_fragments_ok [OF assms(1-3,5), of now fr channel] by (auto simp: cs_def g_def)
  let ?A = "{n + 1..<n + 1 + length cs}" and ?pkt = "\<lambda>k. resend_packet m' (seq_of k)"
  have inj: "inj_on seq_of ?A" using cs by (intro inj_on_subset [OF sn.inj_on_window [of "n + 1"]]) auto
  have cnt: "unat (word_of_nat (length cs) :: u16) = length cs" using cs by (simp add: unat_of_nat)
  have all: "concat cs = take len data" by (simp add: cs_def)
  have "cs \<noteq> []" using all assms(3,4) by auto
  have pkt: "\<exists>h. ?pkt k = frag_bytes h @ cs ! (k - (n + 1)) \<and> h_sequence h = seq_of k \<and> h_fragment_group h = g
      \<and> unat (h_fragment_count h) = length cs \<and> h_fragment_start_sequence h = seq_of (n + 1)
      \<and> h_start_sequence h = 0 \<and> h_flags h = 0" if "k \<in> ?A" for k
    using pk [of "k - (n + 1)"] that cnt by (auto simp: header_create_fragmented_def header_default_def)
  have "\<exists>rc' h rc''. receive_fragments now' (map (resend_packet m') js) False rc = Some (True, rc')
      \<and> header_read_fragmented (resend_packet m' s) = Some h \<and> assemble rc' h = Some (Inr (take len data), rc'')"
    if js: "set js = set (map seq_of [n + 1..<n + 1 + length cs])" "s \<in> set (map seq_of [n + 1..<n + 1 + length cs])" for js s
  proof -
    obtain ks where ks: "js = map seq_of ks" "set ks = ?A"
    proof (rule that [of "map (inv_into ?A seq_of) js"])
      have sub: "set js = seq_of ` ?A" using js(1) by auto
      have "map (\<lambda>x. seq_of (inv_into ?A seq_of x)) js = js"
        by (rule map_idI) (use sub in \<open>simp only: f_inv_into_f\<close>)
      then show "js = map seq_of (map (inv_into ?A seq_of) js)" by (simp only: map_map comp_def)
      show "set (map (inv_into ?A seq_of) js) = ?A" using sub inj by (auto simp: inv_into_f_f image_image)
    qed
    have "packet_of g (length cs) k (?pkt k)" if "k \<in> set ks" for k
      using pkt [of k] that ks(2) by (auto simp: packet_of_def)
    then obtain rc' where rc': "receive_fragments now' (map ?pkt ks) False rc = Some (True, rc')"
      "holds (group_map rc' g) ?A ?pkt" "map_of (fr_received rc') g \<noteq> None"
      using receive_fragments_holds [of ks g "length cs" ?pkt rc "{}" False now'] assms(6) inj ks(2) \<open>cs \<noteq> []\<close>
      by (auto simp: group_map_def g_def)
    obtain k where k: "s = seq_of k" "k \<in> ?A" using js(2) by auto
    obtain h where h: "?pkt k = frag_bytes h @ cs ! (k - (n + 1))" "h_fragment_group h = g"
      "unat (h_fragment_count h) = length cs" "h_fragment_start_sequence h = seq_of (n + 1)"
      "h_start_sequence h = 0" "h_flags h = 0"
      using pkt [OF k(2)] by blast
    have hd: "header_read_fragmented (resend_packet m' s) = Some h"
      using h k(1) by (simp add: header_read_fragmented_prefix)
    have body: "\<exists>h. length h = 10 \<and> ?pkt (n + 1 + i) = h @ cs ! i" if "i < length cs" for i
      using pk [OF that] by auto
    obtain mm where mm: "map_of (fr_received rc') g = Some mm" using rc'(3) by blast
    then have hm: "holds mm ?A ?pkt" using rc'(2) by (simp add: group_map_def)
    have "assemble rc' h = Some (Inr (concat cs), rc'\<lparr>fr_received := AList.delete g (fr_received rc')\<rparr>)"
      using mm hm cs body h(2,4,3) by (rule assemble_ok)
    with rc'(1) hd all ks(1) show ?thesis by (auto simp: comp_def)
  qed
  with c show ?thesis by blast
qed


theorem fragments_roundtrip_witness:
  "\<exists>ss fr' m'. create_fragments 0 fr_default sm_default 1 (replicate 3000 7) 2500 = Some (ss, fr', m')
     \<and> (\<forall>js s. set js = set ss \<and> s \<in> set ss \<longrightarrow> (\<exists>rc' h rc''.
          receive_fragments 5 (map (resend_packet m') js) False fr_default = Some (True, rc')
          \<and> header_read_fragmented (resend_packet m' s) = Some h
          \<and> assemble rc' h = Some (Inr (take 2500 (replicate 3000 7)), rc'')))"
proof -
  have "sm_current_sequence sm_default = seq_of 0" by (simp add: sm_default_def seq_of_def)
  from fragments_roundtrip [OF sm_wf_default this, of 2500 "replicate 3000 7" fr_default fr_default 0 1 5]
  show ?thesis by (simp add: fr_default_def)
qed

text \<open>
  An incomplete group is not assembled: as long as the number of fragments held for a
  group differs from the count in the header, \<open>assemble\<close> returns the error and forgets
  nothing.
\<close>

lemma assemble_incomplete:
  assumes "length (group_map self (h_fragment_group h)) \<noteq> unat (h_fragment_count h)"
  shows "assemble self h = Some (Inl (), self)"
  using assms by (auto simp: assemble_def group_map_def split: option.splits)

theorem assemble_incomplete_witness:
  "assemble fr_default (header_create_fragmented 5 1 2 5 3) = Some (Inl (), fr_default)"
  using assemble_incomplete [of fr_default "header_create_fragmented 5 1 2 5 3"]
  by (simp add: group_map_def fr_default_def header_create_fragmented_def)

text \<open>
  Group numbers stay within 1 and 65533 and never repeat twice in a row, so the counter
  never overflows.
\<close>

lemma next_group_bounds:
  assumes "1 \<le> fr_next_group fr" "fr_next_group fr < 65534"
  shows "1 \<le> fst (get_next_group fr) \<and> fst (get_next_group fr) < 65534 \<and> fst (get_next_group fr) \<noteq> fr_next_group fr
    \<and> fr_next_group (snd (get_next_group fr)) = fst (get_next_group fr)"
proof -
  have u: "unat (fr_next_group fr + 1) = Suc (unat (fr_next_group fr))"
    using assms by (simp add: word_le_nat_alt word_less_nat_alt unat_word_ariths)
  show ?thesis
    using assms u by (auto simp: get_next_group_def Let_def word_le_nat_alt word_less_nat_alt word_unat_eq_iff)
qed

theorem next_group_bounds_witness:
  "fst (get_next_group (fr_default\<lparr>fr_next_group := 65533\<rparr>)) < 65534"
  using next_group_bounds [of "fr_default\<lparr>fr_next_group := 65533\<rparr>"] by simp

lemma map_of_fold_delete: "map_of (fold AList.delete gs al) g = (if g \<in> set gs then None else map_of al g)"
  by (induction gs arbitrary: al) (auto simp: delete_conv')

text \<open>
  Expiry of groups: after \<open>expire_groups\<close> a group has its fragments if and only if it
  had them before and is not older than 5000 ms.
\<close>

lemma expire_groups_exact:
  assumes "distinct (map fst (fr_received_at self))"
  shows "map_of (fr_received (expire_groups now self)) g =
    (case map_of (fr_received_at self) g of
       Some t \<Rightarrow> if elapsed_millis now t > 5000 then None else map_of (fr_received self) g
     | None \<Rightarrow> map_of (fr_received self) g)"
proof -
  have "g \<in> set (expired_groups now self) \<longleftrightarrow>
      (\<exists>t. map_of (fr_received_at self) g = Some t \<and> elapsed_millis now t > 5000)"
    using assms by (force simp: expired_groups_def image_iff)
  then show ?thesis by (auto simp: expire_groups_def map_of_fold_delete split: option.split)
qed

theorem expire_groups_exact_witness:
  "map_of (fr_received (expire_groups 6000000000 (fr_default\<lparr>fr_received := [(2, [])], fr_received_at := [(2, 0)]\<rparr>))) 2 = None"
  using expire_groups_exact [of "fr_default\<lparr>fr_received := [(2, [])], fr_received_at := [(2, 0)]\<rparr>" 6000000000 2]
  by (simp add: elapsed_millis_def)

end
