(* ===== verification/Tachyon_Socket.thy ===== *)
theory Tachyon_Socket
  imports Int_Buffer Header
begin

text \<open>
  \<^verbatim>\<open>src/src/tachyon/tachyon_socket.rs\<close> and \<^verbatim>\<open>src/src/tachyon/unreliable_sender.rs\<close>: the UDP
  socket with its simulated packet loss, and the sender of unreliable messages. The sockets
  of the operating system are an explicit state, the decisions of the system (and of the
  crate \<open>socket2\<close>) a parameter \<open>os\<close>, and the draws of the random generator (crate \<open>rand\<close>)
  a parameter \<open>draw\<close>, indexed by the number of draws made before.
\<close>

subsection \<open>The operating system's sockets\<close>

text \<open>
  Descriptors of UDP sockets, shared by the clones of a socket; per descriptor the
  datagrams (or errors, \<open>None\<close>) that wait to be received; and all datagrams the system
  accepted for sending, oldest first.
\<close>

datatype destination = Connected | To socket_addr

record network =
  net_next :: nat
  net_in :: "nat \<Rightarrow> (socket_addr \<times> bytes) option list"
  net_out :: "(nat \<times> destination \<times> bytes) list"

text \<open>The decisions of the system and of the crate \<open>socket2\<close>, which may depend on anything that happened.\<close>

record os =
  os_socket :: "network \<Rightarrow> bool"
  os_bind :: "network \<Rightarrow> socket_addr \<Rightarrow> bool"
  os_options :: "network \<Rightarrow> bool"
  os_connect :: "network \<Rightarrow> socket_addr \<Rightarrow> bool"
  os_clone :: "network \<Rightarrow> bool"
  os_send :: "network \<Rightarrow> nat \<Rightarrow> destination \<Rightarrow> bytes \<Rightarrow> bool"

definition udp_send :: "os \<Rightarrow> network \<Rightarrow> nat \<Rightarrow> destination \<Rightarrow> bytes \<Rightarrow> nat option \<times> network" where
  "udp_send os net fd dest d =
     (if os_send os net fd dest d then (Some (length d), net\<lparr>net_out := net_out net @ [(fd, dest, d)]\<rparr>)
      else (None, net))"

definition udp_recv :: "network \<Rightarrow> nat \<Rightarrow> bytes \<Rightarrow> (nat \<times> socket_addr) option \<times> network \<times> bytes" where
  "udp_recv net fd data =
     (case net_in net fd of
        [] \<Rightarrow> (None, net, data)
      | None # q \<Rightarrow> (None, net\<lparr>net_in := (net_in net)(fd := q)\<rparr>, data)
      | Some (src, d) # q \<Rightarrow>
          (let d = take (length data) d
           in (Some (length d, src), net\<lparr>net_in := (net_in net)(fd := q)\<rparr>, overwrite data 0 d)))"

subsection \<open>TachyonSocket\<close>

datatype create_connect_result = CC_Success | CC_Error

datatype socket_receive_result =
    SR_Success nat network_address
  | SR_Empty
  | SR_Error
  | SR_Dropped

record tachyon_socket =
  ts_address :: network_address
  ts_is_server :: bool
  ts_socket :: "nat option"
  ts_rng :: nat

definition ts_create :: tachyon_socket where
  "ts_create = \<lparr>ts_address = na_default, ts_is_server = False, ts_socket = None, ts_rng = 0\<rparr>"

definition clone_socket :: "os \<Rightarrow> network \<Rightarrow> tachyon_socket \<Rightarrow> nat option option" where
  "clone_socket os net self =
     (case ts_socket self of
        Some sock \<Rightarrow> if os_clone os net then Some (Some sock) else None
      | None \<Rightarrow> Some None)"

definition bind_socket ::
  "os \<Rightarrow> network \<Rightarrow> tachyon_socket \<Rightarrow> network_address \<Rightarrow> (create_connect_result \<times> tachyon_socket \<times> network) option" where
  "bind_socket os net self naddress =
     (if ts_socket self \<noteq> None then Some (CC_Error, self, net)
      else do {
        let address = to_socket_addr naddress;
        let self = self\<lparr>ts_address := naddress\<rparr>;
        if \<not> os_socket os net then None
        else if os_bind os net address then
          if \<not> os_options os net then None
          else Some (CC_Success, self\<lparr>ts_socket := Some (net_next net), ts_is_server := True\<rparr>,
                     net\<lparr>net_next := net_next net + 1\<rparr>)
        else Some (CC_Error, self, net) })"

definition connect_socket ::
  "os \<Rightarrow> network \<Rightarrow> tachyon_socket \<Rightarrow> network_address \<Rightarrow> (create_connect_result \<times> tachyon_socket \<times> network) option" where
  "connect_socket os net self naddress =
     (if ts_socket self \<noteq> None then Some (CC_Error, self, net)
      else do {
        let self = self\<lparr>ts_address := na_default\<rparr>;
        let sock_addr = SocketV4 0 0 0 0 0;
        if \<not> os_socket os net then None
        else if os_bind os net sock_addr then
          if \<not> os_options os net then None
          else let address = to_socket_addr naddress
               in if os_connect os net address
                  then Some (CC_Success, self\<lparr>ts_socket := Some (net_next net)\<rparr>, net\<lparr>net_next := net_next net + 1\<rparr>)
                  else Some (CC_Error, self, net)
        else Some (CC_Error, self, net) })"

definition should_drop ::
  "(nat \<Rightarrow> u64) \<Rightarrow> tachyon_socket \<Rightarrow> bytes \<Rightarrow> u64 \<Rightarrow> bool \<Rightarrow> (bool \<times> tachyon_socket) option" where
  "should_drop draw self data drop_chance drop_reliable_only =
     (if drop_chance > 0 then
        let r = draw (ts_rng self);
            self = self\<lparr>ts_rng := ts_rng self + 1\<rparr>
        in if r \<le> drop_chance then
             if drop_reliable_only then do {
               (message_type, _) \<leftarrow> read_u8 \<lparr>ib_index = 0\<rparr> data;
               Some (message_type = MESSAGE_TYPE_RELIABLE, self) }
             else Some (True, self)
           else Some (False, self)
      else Some (False, self))"

definition ts_receive ::
  "(nat \<Rightarrow> u64) \<Rightarrow> network \<Rightarrow> tachyon_socket \<Rightarrow> bytes \<Rightarrow> u64 \<Rightarrow> bool
     \<Rightarrow> (socket_receive_result \<times> tachyon_socket \<times> network \<times> bytes) option" where
  "ts_receive draw net self data drop_chance drop_reliable_only =
     (case ts_socket self of
        None \<Rightarrow> Some (SR_Error, self, net, data)
      | Some socket \<Rightarrow>
          (case udp_recv net socket data of
             (None, net, data) \<Rightarrow> Some (SR_Empty, self, net, data)
           | (Some (n, src_addr), net, data) \<Rightarrow> do {
               (dropped, self) \<leftarrow> should_drop draw self data drop_chance drop_reliable_only;
               if dropped then Some (SR_Dropped, self, net, data)
               else if ts_is_server self
               then Some (SR_Success n (from_socket_addr src_addr), self, net, data)
               else Some (SR_Success n na_default, self, net, data) }))"

definition ts_send_to ::
  "os \<Rightarrow> network \<Rightarrow> tachyon_socket \<Rightarrow> network_address \<Rightarrow> bytes \<Rightarrow> nat \<Rightarrow> (nat \<times> network) option" where
  "ts_send_to os net self address data len =
     (case ts_socket self of
        Some socket \<Rightarrow> do {
          sl \<leftarrow> slice data 0 len;
          let (socket_result, net) =
            (if na_port address = 0 then udp_send os net socket Connected sl
             else udp_send os net socket (To (to_socket_addr address)) sl);
          Some (case socket_result of Some n \<Rightarrow> n | None \<Rightarrow> 0, net) }
      | None \<Rightarrow> Some (0, net))"

subsection \<open>UnreliableSender\<close>

record send_result =
  sres_sent_len :: u32
  sres_error :: u32
  sres_header :: header

definition sres_default :: send_result where
  "sres_default = \<lparr>sres_sent_len = 0, sres_error = 0, sres_header = header_default\<rparr>"

abbreviation (input) SEND_ERROR_SOCKET :: u32 where "SEND_ERROR_SOCKET \<equiv> 1"
abbreviation (input) SEND_ERROR_CHANNEL :: u32 where "SEND_ERROR_CHANNEL \<equiv> 2"
abbreviation (input) SEND_ERROR_FRAGMENT :: u32 where "SEND_ERROR_FRAGMENT \<equiv> 3"
abbreviation (input) SEND_ERROR_UNKNOWN :: u32 where "SEND_ERROR_UNKNOWN \<equiv> 4"
abbreviation (input) SEND_ERROR_LENGTH :: u32 where "SEND_ERROR_LENGTH \<equiv> 5"
abbreviation (input) SEND_ERROR_IDENTITY :: u32 where "SEND_ERROR_IDENTITY \<equiv> 6"

abbreviation (input) UNRELIABLE_BUFFER_LEN :: nat where "UNRELIABLE_BUFFER_LEN \<equiv> 16384"

record unreliable_sender =
  usnd_socket :: "nat option"
  usnd_send_buffer :: bytes

definition usnd_create :: "nat option \<Rightarrow> unreliable_sender" where
  "usnd_create socket = \<lparr>usnd_socket = socket, usnd_send_buffer = replicate UNRELIABLE_BUFFER_LEN 0\<rparr>"

definition usnd_send_to :: "os \<Rightarrow> network \<Rightarrow> unreliable_sender \<Rightarrow> network_address \<Rightarrow> nat \<Rightarrow> (nat \<times> network) option" where
  "usnd_send_to os net self address len =
     (case usnd_socket self of
        Some socket \<Rightarrow> do {
          sl \<leftarrow> slice (usnd_send_buffer self) 0 len;
          let (socket_result, net) =
            (if na_port address = 0 then udp_send os net socket Connected sl
             else udp_send os net socket (To (to_socket_addr address)) sl);
          Some (case socket_result of Some n \<Rightarrow> n | None \<Rightarrow> 0, net) }
      | None \<Rightarrow> Some (0, net))"

definition usnd_send ::
  "os \<Rightarrow> network \<Rightarrow> unreliable_sender \<Rightarrow> network_address \<Rightarrow> bytes \<Rightarrow> nat
     \<Rightarrow> (send_result \<times> unreliable_sender \<times> network) option" where
  "usnd_send os net self address data body_len =
     (if body_len < 1 then Some (sres_default\<lparr>sres_error := SEND_ERROR_LENGTH\<rparr>, self, net)
      else if usnd_socket self = None then Some (sres_default\<lparr>sres_error := SEND_ERROR_CHANNEL\<rparr>, self, net)
      else do {
        src \<leftarrow> slice data 0 body_len;
        buf \<leftarrow> copy_into (usnd_send_buffer self) 1 (body_len + 1) src;
        let len = body_len + 1;
        let header = header_default\<lparr>h_message_type := MESSAGE_TYPE_UNRELIABLE\<rparr>;
        buf \<leftarrow> header_write_unreliable header buf;
        let self = self\<lparr>usnd_send_buffer := buf\<rparr>;
        (sent_len, net) \<leftarrow> usnd_send_to os net self address len;
        Some (sres_default\<lparr>sres_sent_len := word_of_nat sent_len, sres_header := header\<rparr>, self, net) })"

subsection \<open>What is sent\<close>

text \<open>The destination of an address: port 0 stands for the connected peer.\<close>

definition dest_of :: "network_address \<Rightarrow> destination" where
  "dest_of address = (if na_port address = 0 then Connected else To (to_socket_addr address))"

text \<open>The system after it has been handed a datagram, and the number of bytes it reports.\<close>

definition sent :: "os \<Rightarrow> nat \<Rightarrow> destination \<Rightarrow> bytes \<Rightarrow> network \<Rightarrow> network" where
  "sent os fd dest d net = snd (udp_send os net fd dest d)"

definition sent_len :: "os \<Rightarrow> nat \<Rightarrow> destination \<Rightarrow> bytes \<Rightarrow> network \<Rightarrow> nat" where
  "sent_len os fd dest d net = (if os_send os net fd dest d then length d else 0)"

text \<open>A system that accepts everything, and one on which nothing has happened yet.\<close>

definition os_ideal :: os where
  "os_ideal = \<lparr>os_socket = \<lambda>_. True, os_bind = \<lambda>_ _. True, os_options = \<lambda>_. True, os_connect = \<lambda>_ _. True,
     os_clone = \<lambda>_. True, os_send = \<lambda>_ _ _ _. True\<rparr>"

definition net_empty :: network where
  "net_empty = \<lparr>net_next = 0, net_in = (\<lambda>_. []), net_out = []\<rparr>"

lemma ts_send_to_eq:
  "ts_socket s = Some fd \<Longrightarrow> len \<le> length data \<Longrightarrow>
   ts_send_to os net s address data len =
     Some (sent_len os fd (dest_of address) (take len data) net, sent os fd (dest_of address) (take len data) net)"
  by (simp add: ts_send_to_def dest_of_def sent_def sent_len_def udp_send_def)

lemma net_out_sent:
  "net_out (sent os fd dest d net) = net_out net @ (if os_send os net fd dest d then [(fd, dest, d)] else [])"
  by (simp add: sent_def udp_send_def)

lemma net_in_sent [simp]: "net_in (sent os fd dest d net) = net_in net" "net_next (sent os fd dest d net) = net_next net"
  by (simp_all add: sent_def udp_send_def)

lemma usnd_send_eq:
  assumes "length (usnd_send_buffer s) = 16384" "body_len \<le> length data" "body_len < 16384" and fd: "usnd_socket s = Some fd" "0 < body_len"
  shows "\<exists>r s'. usnd_send os net s address data body_len = Some (r, s', sent os fd (dest_of address) (0 # take body_len data) net)
    \<and> length (usnd_send_buffer s') = 16384 \<and> usnd_socket s' = usnd_socket s \<and> sres_error r = 0
    \<and> sres_sent_len r = word_of_nat (sent_len os fd (dest_of address) (0 # take body_len data) net)"
proof -
  let ?buf = "overwrite (usnd_send_buffer s) 1 (take body_len data)"
  have c: "copy_into (usnd_send_buffer s) 1 (body_len + 1) (take body_len data) = Some ?buf" "length ?buf = 16384"
    using assms by simp_all
  have h: "header_write_unreliable (header_default\<lparr>h_message_type := 0\<rparr>) ?buf = Some (overwrite ?buf 0 [0])"
    using c(2) by (simp add: header_write_unreliable_def c8.wr_eq enc_u8_def)
  have t: "take (body_len + 1) (overwrite ?buf 0 [0]) = 0 # take body_len data" "length (overwrite ?buf 0 [0]) = 16384"
    using assms by (simp_all add: overwrite_def)
  have "usnd_send_to os net (s\<lparr>usnd_send_buffer := overwrite ?buf 0 [0]\<rparr>) address (body_len + 1) =
      Some (sent_len os fd (dest_of address) (0 # take body_len data) net, sent os fd (dest_of address) (0 # take body_len data) net)"
    using fd t assms by (simp add: usnd_send_to_def dest_of_def sent_def sent_len_def udp_send_def)
  with fd c(1) h t(2) assms show ?thesis by (simp add: usnd_send_def sres_default_def Let_def)
qed

subsection \<open>Properties\<close>

text \<open>
  C32. An unreliable message goes out as one datagram, its type byte followed by exactly the
  body, whatever the send buffer held before; a message of no bytes and a sender without
  a socket are refused with an error and send nothing.
\<close>

theorem unreliable_send_spec:
  assumes "length (usnd_send_buffer s) = 16384" "body_len \<le> length data" "body_len < 16384"
  shows "\<exists>r s' net'. usnd_send os net s address data body_len = Some (r, s', net')
    \<and> length (usnd_send_buffer s') = 16384 \<and> usnd_socket s' = usnd_socket s
    \<and> (case usnd_socket s of
         Some fd \<Rightarrow> if body_len = 0 then sres_error r = 5 \<and> net' = net
           else sres_error r = 0 \<and> net' = sent os fd (dest_of address) (0 # take body_len data) net
             \<and> sres_sent_len r = word_of_nat (sent_len os fd (dest_of address) (0 # take body_len data) net)
       | None \<Rightarrow> sres_error r = (if body_len = 0 then 5 else 2) \<and> net' = net)"
proof (cases "usnd_socket s = None \<or> body_len = 0")
  case True
  then show ?thesis using assms by (auto simp: usnd_send_def sres_default_def)
next
  case False
  then obtain fd where "usnd_socket s = Some fd" "0 < body_len" by auto
  with usnd_send_eq [OF assms this, of os net address] show ?thesis by auto
qed

theorem unreliable_send_spec_witness:
  "\<exists>r s' net'. usnd_send os_ideal net_empty (usnd_create (Some 3)) na_default [8, 9, 1] 2 = Some (r, s', net')
     \<and> net_out net' = [(3, Connected, [0, 8, 9])]"
proof -
  have "net_out (sent os_ideal 3 (dest_of na_default) [0, 8, 9] net_empty) = [(3, Connected, [0, 8, 9])]"
    by (simp add: net_out_sent os_ideal_def net_empty_def dest_of_def na_default_def)
  then show ?thesis
    using unreliable_send_spec [of "usnd_create (Some 3)" 2 "[8, 9, 1]" os_ideal net_empty na_default]
    by (auto simp: usnd_create_def)
qed

subsection \<open>Reception\<close>

lemma ts_receive_eq:
  assumes "ts_socket s = Some fd" "net_in net fd = Some (src, d) # q" "length d \<le> length data"
  shows "ts_receive draw net s data 0 rel =
    Some (SR_Success (length d) (if ts_is_server s then from_socket_addr src else na_default), s,
          net\<lparr>net_in := (net_in net)(fd := q)\<rparr>, overwrite data 0 d)"
  using assms by (simp add: ts_receive_def udp_recv_def should_drop_def)

text \<open>With \<open>drop_reliable_only\<close> the simulated loss takes reliable packets only.\<close>

lemma should_drop_reliable_only:
  assumes "data \<noteq> []"
  shows "\<exists>b s'. should_drop draw s data chance rel = Some (b, s')
    \<and> (b \<longrightarrow> chance \<noteq> 0 \<and> draw (ts_rng s) \<le> chance \<and> (rel \<longrightarrow> hd data = 1))"
  using assms by (cases data) (auto simp: should_drop_def read_u8_def Let_def word_neq_0_conv)

end
