(* ===== verification/Channel.thy ===== *)
theory Channel
  imports Receiver_Nacks Fragmentation Tachyon_Socket
begin

text \<open>
  \<^verbatim>\<open>src/src/tachyon/channel.rs\<close>: one channel to one address, with its send history, its
  receive window, its fragments and its nacks. The crate \<open>varuint\<close> (\<open>vw\<close>, \<open>vr\<close>), the
  operating system (\<open>os\<close>), the clock (\<open>now\<close>) and the iteration order of a hash map (\<open>iter\<close>)
  are arguments of the operations that use them.
\<close>

subsection \<open>Statistics and configuration\<close>

record channel_stats =
  cs_sent :: u64
  cs_received :: u64
  cs_bytes_sent :: u64
  cs_bytes_received :: u64
  cs_fragments_sent :: u64
  cs_fragments_received :: u64
  cs_fragments_assembled :: u64
  cs_published :: u64
  cs_published_consumed :: u64
  cs_nacks_sent :: u64
  cs_nacks_received :: u64
  cs_resent :: u64
  cs_nones_sent :: u64
  cs_nones_received :: u64
  cs_nones_accepted :: u64
  cs_skipped_sequences :: u64

definition cs_default :: channel_stats where
  "cs_default = \<lparr>cs_sent = 0, cs_received = 0, cs_bytes_sent = 0, cs_bytes_received = 0, cs_fragments_sent = 0,
     cs_fragments_received = 0, cs_fragments_assembled = 0, cs_published = 0, cs_published_consumed = 0,
     cs_nacks_sent = 0, cs_nacks_received = 0, cs_resent = 0, cs_nones_sent = 0, cs_nones_received = 0,
     cs_nones_accepted = 0, cs_skipped_sequences = 0\<rparr>"

definition cs_add_from :: "channel_stats \<Rightarrow> channel_stats \<Rightarrow> channel_stats" where
  "cs_add_from self other =
     \<lparr>cs_sent = cs_sent self + cs_sent other,
      cs_received = cs_received self + cs_received other,
      cs_bytes_sent = cs_bytes_sent self + cs_bytes_sent other,
      cs_bytes_received = cs_bytes_received self + cs_bytes_received other,
      cs_fragments_sent = cs_fragments_sent self + cs_fragments_sent other,
      cs_fragments_received = cs_fragments_received self + cs_fragments_received other,
      cs_fragments_assembled = cs_fragments_assembled self + cs_fragments_assembled other,
      cs_published = cs_published self + cs_published other,
      cs_published_consumed = cs_published_consumed self + cs_published_consumed other,
      cs_nacks_sent = cs_nacks_sent self + cs_nacks_sent other,
      cs_nacks_received = cs_nacks_received self + cs_nacks_received other,
      cs_resent = cs_resent self + cs_resent other,
      cs_nones_sent = cs_nones_sent self + cs_nones_sent other,
      cs_nones_received = cs_nones_received self + cs_nones_received other,
      cs_nones_accepted = cs_nones_accepted self + cs_nones_accepted other,
      cs_skipped_sequences = cs_skipped_sequences self + cs_skipped_sequences other\<rparr>"

abbreviation (input) NACK_REDUNDANCY_DEFAULT :: u32 where "NACK_REDUNDANCY_DEFAULT \<equiv> 1"

record channel_config =
  cc_receive_window_size :: u32
  cc_nack_redundancy :: u32
  cc_ordered :: u32

definition cc_default_ordered :: channel_config where
  "cc_default_ordered = \<lparr>cc_receive_window_size = RECEIVE_WINDOW_SIZE_DEFAULT,
     cc_nack_redundancy = NACK_REDUNDANCY_DEFAULT, cc_ordered = 1\<rparr>"

definition cc_default_unordered :: channel_config where
  "cc_default_unordered = \<lparr>cc_receive_window_size = RECEIVE_WINDOW_SIZE_DEFAULT,
     cc_nack_redundancy = NACK_REDUNDANCY_DEFAULT, cc_ordered = 0\<rparr>"

definition cc_is_ordered :: "channel_config \<Rightarrow> bool" where
  "cc_is_ordered self \<longleftrightarrow> cc_ordered self = 1"

subsection \<open>Channel\<close>

record channel =
  c_id :: u8
  c_address :: network_address
  c_frag :: fragmentation
  c_send_buffers :: send_buffer_manager
  c_receiver :: receiver
  c_stats :: channel_stats
  c_nack_send_data :: bytes
  c_nacked_sequences :: "u16 list"
  c_nacked_sequence_map :: "(u16 \<times> network_address) list"
  c_resend_rewrite_buffer :: bytes
  c_nack_redundancy :: u32

definition channel_create :: "u8 \<Rightarrow> network_address \<Rightarrow> channel_config \<Rightarrow> channel" where
  "channel_create i address config =
     \<lparr>c_id = i, c_address = address, c_frag = fr_default, c_send_buffers = sm_default,
      c_receiver = receiver_create (cc_is_ordered config) (cc_receive_window_size config),
      c_stats = cs_default, c_nack_send_data = replicate 512 0, c_nacked_sequences = [],
      c_nacked_sequence_map = [], c_resend_rewrite_buffer = replicate 2048 0,
      c_nack_redundancy = cc_nack_redundancy config\<rparr>"

text \<open>The static buffer \<open>NONE_SEND_DATA\<close> has four bytes, all of which are written before it is sent.\<close>

definition create_none :: "u16 \<Rightarrow> u8 \<Rightarrow> bytes \<Rightarrow> bytes option" where
  "create_none sequence channel_id none_send_data =
     header_write (header_default\<lparr>h_message_type := MESSAGE_TYPE_NONE, h_sequence := sequence,
       h_channel := channel_id\<rparr>) none_send_data"

definition channel_is_ordered :: "channel \<Rightarrow> bool" where
  "channel_is_ordered self = r_is_ordered (c_receiver self)"

definition update_stats :: "channel \<Rightarrow> channel" where
  "update_stats self =
     self\<lparr>c_stats := (c_stats self)\<lparr>cs_skipped_sequences := r_skipped_sequences (c_receiver self)\<rparr>\<rparr>"

abbreviation ch_return_buffer :: "channel \<Rightarrow> byte_buffer \<Rightarrow> channel" where
  "ch_return_buffer self b \<equiv> self\<lparr>c_receiver := receiver_return_buffer (c_receiver self) b\<rparr>"

text \<open>The length, the address, whether to try again, the channel and the receive buffer.\<close>

definition receive_published_internal ::
  "channel \<Rightarrow> bytes \<Rightarrow> ((u32 \<times> network_address \<times> bool) \<times> channel \<times> bytes) option" where
  "receive_published_internal self receive_buffer =
     (case take_published (c_receiver self) of
        (Some byte_buffer, receiver) \<Rightarrow> do {
          let self = self\<lparr>c_receiver := receiver\<rparr>;
          let buffer_len = bb_length byte_buffer;
          (message_type, _) \<leftarrow> read_u8 \<lparr>ib_index = 0\<rparr> (bb_data byte_buffer);
          if message_type = MESSAGE_TYPE_NONE
          then Some ((0, c_address self, True), ch_return_buffer self byte_buffer, receive_buffer)
          else if message_type = MESSAGE_TYPE_FRAGMENT then do {
            header \<leftarrow> header_read_fragmented (bb_data byte_buffer);
            (r, frag) \<leftarrow> assemble (c_frag self) header;
            let self = self\<lparr>c_frag := frag\<rparr>;
            case r of
              Inr res \<Rightarrow> do {
                let assembled_len = length res;
                receive_buffer \<leftarrow> copy_into receive_buffer 0 assembled_len res;
                let self = self\<lparr>c_stats := (c_stats self)
                  \<lparr>cs_received := cs_received (c_stats self) + 1,
                   cs_fragments_assembled := cs_fragments_assembled (c_stats self) + ucast (h_fragment_count header),
                   cs_published_consumed := cs_published_consumed (c_stats self) + 1\<rparr>\<rparr>;
                Some ((word_of_nat assembled_len, c_address self, True), self, receive_buffer) }
            | Inl _ \<Rightarrow> Some ((0, c_address self, True), ch_return_buffer self byte_buffer, receive_buffer) }
          else if message_type = MESSAGE_TYPE_RELIABLE_WITH_NACK \<or> message_type = MESSAGE_TYPE_RELIABLE then do {
            let header_size = (if message_type = MESSAGE_TYPE_RELIABLE_WITH_NACK
              then TACHYON_NACKED_HEADER_SIZE else TACHYON_HEADER_SIZE);
            body_len \<leftarrow> usize_sub buffer_len header_size;
            src \<leftarrow> slice (bb_data byte_buffer) header_size buffer_len;
            receive_buffer \<leftarrow> copy_into receive_buffer 0 body_len src;
            let self = ch_return_buffer self byte_buffer;
            let self = self\<lparr>c_stats := (c_stats self)
              \<lparr>cs_published_consumed := cs_published_consumed (c_stats self) + 1\<rparr>\<rparr>;
            Some ((word_of_nat body_len, c_address self, True), self, receive_buffer) }
          else Some ((0, c_address self, True), self, receive_buffer) }
      | (None, receiver) \<Rightarrow> Some ((0, c_address self, False), self\<lparr>c_receiver := receiver\<rparr>, receive_buffer))"

fun receive_published_loop ::
  "nat \<Rightarrow> channel \<Rightarrow> bytes \<Rightarrow> ((u32 \<times> network_address) \<times> channel \<times> bytes) option" where
  "receive_published_loop 0 self receive_buffer = Some ((0, c_address self), self, receive_buffer)"
| "receive_published_loop (Suc n) self receive_buffer = do {
     ((len, address, retry), self, receive_buffer) \<leftarrow> receive_published_internal self receive_buffer;
     if len > 0 then Some ((len, address), self, receive_buffer)
     else if \<not> retry then Some ((0, c_address self), self, receive_buffer)
     else receive_published_loop n self receive_buffer }"

definition receive_published :: "channel \<Rightarrow> bytes \<Rightarrow> ((u32 \<times> network_address) \<times> channel \<times> bytes) option" where
  "receive_published self receive_buffer = receive_published_loop 1000 self receive_buffer"

definition process_none_message :: "channel \<Rightarrow> u16 \<Rightarrow> bytes \<Rightarrow> nat \<Rightarrow> channel option" where
  "process_none_message self sequence receive_buffer received_len = do {
     let self = self\<lparr>c_stats := (c_stats self)\<lparr>cs_nones_received := cs_nones_received (c_stats self) + 1\<rparr>\<rparr>;
     (accepted, receiver) \<leftarrow> receive_packet (c_receiver self) sequence receive_buffer received_len;
     let self = self\<lparr>c_receiver := receiver\<rparr>;
     Some (if accepted
       then self\<lparr>c_stats := (c_stats self)\<lparr>cs_nones_accepted := cs_nones_accepted (c_stats self) + 1\<rparr>\<rparr>
       else self) }"

definition process_fragment_message :: "nat \<Rightarrow> channel \<Rightarrow> u16 \<Rightarrow> bytes \<Rightarrow> nat \<Rightarrow> channel option" where
  "process_fragment_message now self sequence receive_buffer received_len = do {
     ((ok, complete), frag) \<leftarrow> receive_fragment now (c_frag self) receive_buffer received_len;
     let self = self\<lparr>c_frag := frag\<rparr>;
     if ok then do {
       (accepted, receiver) \<leftarrow> receive_packet (c_receiver self) sequence receive_buffer TACHYON_FRAGMENTED_HEADER_SIZE;
       let self = self\<lparr>c_receiver := receiver\<rparr>;
       Some (if accepted
         then self\<lparr>c_stats := (c_stats self)\<lparr>cs_fragments_received := cs_fragments_received (c_stats self) + 1\<rparr>\<rparr>
         else self) }
     else Some self }"

definition copy_nacked_to_map :: "channel \<Rightarrow> network_address \<Rightarrow> channel" where
  "copy_nacked_to_map self address =
     self\<lparr>c_nacked_sequence_map :=
       fold (\<lambda>sequence m. AList.update sequence address m) (c_nacked_sequences self) (c_nacked_sequence_map self)\<rparr>"

definition process_nack_message ::
  "(nat \<Rightarrow> bytes \<Rightarrow> (nat \<times> nat) option) \<Rightarrow> channel \<Rightarrow> network_address \<Rightarrow> bytes \<Rightarrow> channel option" where
  "process_nack_message vr self address receive_buffer = do {
     ss \<leftarrow> nack_read_varint vr [] receive_buffer TACHYON_HEADER_SIZE;
     Some (copy_nacked_to_map (self\<lparr>c_nacked_sequences := ss\<rparr>) address) }"

definition process_single_nack :: "channel \<Rightarrow> network_address \<Rightarrow> bytes \<Rightarrow> channel option" where
  "process_single_nack self address receive_buffer = do {
     ss \<leftarrow> nack_read_single [] receive_buffer TACHYON_HEADER_SIZE;
     Some (copy_nacked_to_map (self\<lparr>c_nacked_sequences := ss\<rparr>) address) }"

text \<open>The nack a reliable message is to carry, taken from the front of the queue and put back at its end.\<close>

definition next_nack :: "u32 \<Rightarrow> receiver \<Rightarrow> nack option \<times> receiver" where
  "next_nack nack_redundancy r =
     (if nack_redundancy > 0 then
        case r_nack_queue r of
          nack # rest \<Rightarrow>
            if n_sent_count nack < nack_redundancy
            then let nack = nack\<lparr>n_sent_count := n_sent_count nack + 1\<rparr>
                 in (Some nack, r\<lparr>r_nack_queue := rest @ [nack]\<rparr>)
            else (None, r\<lparr>r_nack_queue := rest @ [nack]\<rparr>)
        | [] \<Rightarrow> (None, r)
      else (None, r))"

definition channel_send_reliable ::
  "os \<Rightarrow> nat \<Rightarrow> network \<Rightarrow> channel \<Rightarrow> network_address \<Rightarrow> bytes \<Rightarrow> nat \<Rightarrow> tachyon_socket
     \<Rightarrow> (send_result \<times> channel \<times> network) option" where
  "channel_send_reliable os now net self address data body_len socket = do {
     let result = sres_default;
     let (nack_option, receiver) = next_nack (c_nack_redundancy self) (c_receiver self);
     let self = self\<lparr>c_receiver := receiver\<rparr>;
     let header_len = (case nack_option of Some _ \<Rightarrow> TACHYON_NACKED_HEADER_SIZE | None \<Rightarrow> TACHYON_HEADER_SIZE);
     let send_buffer_len = body_len + header_len;
     (r, sender) \<leftarrow> create_send_buffer now (c_send_buffers self) send_buffer_len;
     let self = self\<lparr>c_send_buffers := sender\<rparr>;
     case r of
       Some send_buffer \<Rightarrow> do {
         let sequence = sbuf_sequence send_buffer;
         src \<leftarrow> slice data 0 body_len;
         d \<leftarrow> copy_into (bb_data (sbuf_byte_buffer send_buffer)) header_len (body_len + header_len) src;
         let header = header_default\<lparr>h_channel := c_id self, h_sequence := sequence\<rparr>;
         let (header, self) = (case nack_option of
             Some nack \<Rightarrow>
               (header\<lparr>h_message_type := MESSAGE_TYPE_RELIABLE_WITH_NACK, h_start_sequence := n_start_sequence nack,
                       h_flags := n_flags nack\<rparr>,
                self\<lparr>c_stats := (c_stats self)
                  \<lparr>cs_nacks_sent := cs_nacks_sent (c_stats self) + ucast (n_nacked_count nack)\<rparr>\<rparr>)
           | None \<Rightarrow> (header\<lparr>h_message_type := MESSAGE_TYPE_RELIABLE\<rparr>, self));
         d \<leftarrow> header_write header d;
         sender \<leftarrow> sm_put_back (c_send_buffers self)
           (send_buffer\<lparr>sbuf_byte_buffer := (sbuf_byte_buffer send_buffer)\<lparr>bb_data := d\<rparr>\<rparr>);
         let self = self\<lparr>c_send_buffers := sender\<rparr>;
         (sent_len, net) \<leftarrow> ts_send_to os net socket address d send_buffer_len;
         let result = result\<lparr>sres_sent_len := word_of_nat sent_len, sres_header := header\<rparr>;
         let self = self\<lparr>c_stats := (c_stats self)
           \<lparr>cs_bytes_sent := cs_bytes_sent (c_stats self) + word_of_nat sent_len, cs_sent := cs_sent (c_stats self) + 1\<rparr>\<rparr>;
         Some (result, self, net) }
     | None \<Rightarrow> Some (result\<lparr>sres_error := SEND_ERROR_UNKNOWN\<rparr>, self, net) }"

definition rewrite_reliable_nack_to_reliable :: "bytes \<Rightarrow> bytes \<Rightarrow> (nat \<times> bytes) option" where
  "rewrite_reliable_nack_to_reliable rewrite_buffer send_buffer = do {
     header \<leftarrow> header_read send_buffer;
     let src_body_len = length send_buffer - TACHYON_NACKED_HEADER_SIZE;
     src \<leftarrow> slice send_buffer TACHYON_NACKED_HEADER_SIZE (length send_buffer);
     rewrite_buffer \<leftarrow> copy_into rewrite_buffer TACHYON_HEADER_SIZE (TACHYON_HEADER_SIZE + src_body_len) src;
     rewrite_buffer \<leftarrow> header_write (header\<lparr>h_message_type := MESSAGE_TYPE_RELIABLE\<rparr>) rewrite_buffer;
     Some (TACHYON_HEADER_SIZE + src_body_len, rewrite_buffer) }"

text \<open>
  \<open>resend_nacked\<close> walks the hash map in the order of its buckets, an argument: \<open>iter\<close> lists the
  entries of a map.
\<close>

definition resend_one ::
  "os \<Rightarrow> tachyon_socket \<Rightarrow> u16 \<Rightarrow> network_address \<Rightarrow> channel \<Rightarrow> network \<Rightarrow> (channel \<times> network) option" where
  "resend_one os socket sequence address self net = do {
     let self = self\<lparr>c_stats := (c_stats self)\<lparr>cs_nacks_received := cs_nacks_received (c_stats self) + 1\<rparr>\<rparr>;
     r \<leftarrow> get_send_buffer (c_send_buffers self) sequence;
     case r of
       Some send_buffer \<Rightarrow> do {
         let byte_buffer = sbuf_byte_buffer send_buffer;
         (message_type, _) \<leftarrow> read_u8 \<lparr>ib_index = 0\<rparr> (bb_data byte_buffer);
         (self, net) \<leftarrow> (if message_type = MESSAGE_TYPE_RELIABLE_WITH_NACK then do {
             (send_len, rewritten) \<leftarrow> rewrite_reliable_nack_to_reliable (c_resend_rewrite_buffer self) (bb_data byte_buffer);
             let self = self\<lparr>c_resend_rewrite_buffer := rewritten\<rparr>;
             (_, net) \<leftarrow> ts_send_to os net socket address (c_resend_rewrite_buffer self) send_len;
             Some (self, net) }
           else do {
             (_, net) \<leftarrow> ts_send_to os net socket address (bb_data byte_buffer) (bb_length byte_buffer);
             Some (self, net) });
         Some (self\<lparr>c_stats := (c_stats self)\<lparr>cs_resent := cs_resent (c_stats self) + 1\<rparr>\<rparr>, net) }
     | None \<Rightarrow> do {
         none_send_data \<leftarrow> create_none sequence (c_id self) (replicate TACHYON_HEADER_SIZE 0);
         (_, net) \<leftarrow> ts_send_to os net socket address none_send_data TACHYON_HEADER_SIZE;
         Some (self\<lparr>c_stats := (c_stats self)\<lparr>cs_nones_sent := cs_nones_sent (c_stats self) + 1\<rparr>\<rparr>, net) } }"

fun resend_all ::
  "os \<Rightarrow> tachyon_socket \<Rightarrow> (u16 \<times> network_address) list \<Rightarrow> channel \<Rightarrow> network \<Rightarrow> (channel \<times> network) option" where
  "resend_all os socket [] self net = Some (self, net)"
| "resend_all os socket ((sequence, address) # rest) self net = do {
     (self, net) \<leftarrow> resend_one os socket sequence address self net;
     resend_all os socket rest self net }"

type_synonym 'a hash_iter = "(u16 \<times> 'a) list \<Rightarrow> (u16 \<times> 'a) list"

definition resend_nacked ::
  "os \<Rightarrow> network_address hash_iter \<Rightarrow> channel \<Rightarrow> tachyon_socket \<Rightarrow> network \<Rightarrow> (channel \<times> network) option" where
  "resend_nacked os iter self socket net =
     (if length (c_nacked_sequence_map self) = 0 then Some (self, net)
      else do {
        (self, net) \<leftarrow> resend_all os socket (iter (c_nacked_sequence_map self)) self net;
        Some (self\<lparr>c_nacked_sequence_map := []\<rparr>, net) })"

definition send_nacks ::
  "os \<Rightarrow> (nat \<Rightarrow> bytes) \<Rightarrow> channel \<Rightarrow> tachyon_socket \<Rightarrow> network \<Rightarrow> (channel \<times> network) option" where
  "send_nacks os vw self socket net = do {
     (nack_count, receiver) \<leftarrow> create_nacks (c_receiver self);
     let self = self\<lparr>c_receiver := receiver\<rparr>;
     if length (r_nack_list (c_receiver self)) = 0 then Some (self, net)
     else do {
       let header = header_default\<lparr>h_message_type := MESSAGE_TYPE_NACK, h_channel := c_id self\<rparr>;
       d \<leftarrow> header_write header (c_nack_send_data self);
       (position, d) \<leftarrow> nack_write_varint vw (r_nack_list (c_receiver self)) d TACHYON_HEADER_SIZE;
       let self = self\<lparr>c_nack_send_data := d\<rparr>;
       (_, net) \<leftarrow> ts_send_to os net socket (c_address self) (c_nack_send_data self) position;
       Some (self\<lparr>c_stats := (c_stats self)\<lparr>cs_nacks_sent := cs_nacks_sent (c_stats self) + ucast nack_count\<rparr>\<rparr>, net) } }"

definition channel_update ::
  "os \<Rightarrow> (nat \<Rightarrow> bytes) \<Rightarrow> network_address hash_iter \<Rightarrow> channel \<Rightarrow> tachyon_socket \<Rightarrow> network
     \<Rightarrow> (channel \<times> network) option" where
  "channel_update os vw iter self socket net = do {
     (self, net) \<leftarrow> send_nacks os vw self socket net;
     (self, net) \<leftarrow> resend_nacked os iter self socket net;
     receiver \<leftarrow> publish (c_receiver self);
     Some (self\<lparr>c_receiver := receiver\<rparr>, net) }"

subsection \<open>Sending\<close>

lemma next_nack_frame [simp]:
  "r_published (snd (next_nack red r)) = r_published r"
  by (auto simp: next_nack_def Let_def split: list.splits)

text \<open>A reliable message without a nack, on every field of the channel it touches.\<close>

lemma channel_send_reliable_plain:
  assumes wf: "sm_wf (c_send_buffers c)" and cur: "sm_current_sequence (c_send_buffers c) = seq_of n"
    and fd: "ts_socket s = Some fd" and nn: "next_nack (c_nack_redundancy c) (c_receiver c) = (None, rr)"
    and len: "body_len \<le> length data"
  defines "p \<equiv> hdr_bytes 1 (c_id c) (seq_of (Suc n)) @ take body_len data"
  shows "\<exists>r m'. channel_send_reliable os now net c address data body_len s =
       Some (r, c\<lparr>c_receiver := rr, c_send_buffers := m', c_stats := (c_stats c)
         \<lparr>cs_bytes_sent := cs_bytes_sent (c_stats c) + word_of_nat (sent_len os fd (dest_of address) p net),
          cs_sent := cs_sent (c_stats c) + 1\<rparr>\<rparr>, sent os fd (dest_of address) p net)
     \<and> sres_error r = 0 \<and> sres_sent_len r = word_of_nat (sent_len os fd (dest_of address) p net)
     \<and> h_sequence (sres_header r) = seq_of (Suc n)
     \<and> sm_wf m' \<and> sm_current_sequence m' = seq_of (Suc n) \<and> stored m' (Suc n) p
     \<and> (\<forall>k q. k \<le> n \<longrightarrow> Suc n \<le> k + 1022 \<longrightarrow> stored (c_send_buffers c) k q \<longrightarrow> stored m' k q)
     \<and> (\<forall>i x. sb_cell (sm_buffers m') i = Some x \<longrightarrow> sb_cell (sm_buffers (c_send_buffers c)) i = Some x
          \<or> (\<exists>rest. bb_data (sbuf_byte_buffer x) = 1 # rest))"
proof -
  let ?len = "body_len + 4"
  obtain sb m1 where sb: "create_send_buffer now (c_send_buffers c) ?len = Some (Some sb, m1)"
    "sbuf_sequence sb = seq_of (Suc n)"
    "bb_length (sbuf_byte_buffer sb) = ?len" "?len \<le> length (bb_data (sbuf_byte_buffer sb))"
    and put: "\<forall>d. length d = length (bb_data (sbuf_byte_buffer sb)) \<longrightarrow>
       (\<exists>m2. sm_put_back m1 (sb\<lparr>sbuf_byte_buffer := (sbuf_byte_buffer sb)\<lparr>bb_data := d\<rparr>\<rparr>) = Some m2
         \<and> sm_wf m2 \<and> sm_current_sequence m2 = seq_of (Suc n) \<and> stored m2 (Suc n) (take ?len d)
         \<and> (\<forall>k p. k \<le> n \<longrightarrow> Suc n \<le> k + 1022 \<longrightarrow> stored (c_send_buffers c) k p \<longrightarrow> stored m2 k p)
         \<and> (\<forall>i x. sb_cell (sm_buffers m2) i = Some x \<longrightarrow> sb_cell (sm_buffers (c_send_buffers c)) i = Some x \<or> bb_data (sbuf_byte_buffer x) = d))"
    by (rule store_message [OF wf cur, where now = now and len = ?len]) (rule that)
  let ?h = "header_default\<lparr>h_channel := c_id c, h_sequence := seq_of (Suc n), h_message_type := 1\<rparr>"
  let ?data = "bb_data (sbuf_byte_buffer sb)"
  let ?d = "overwrite (overwrite ?data 4 (take body_len data)) 0 (hdr_bytes 1 (c_id c) (seq_of (Suc n)))"
  have d: "copy_into ?data 4 ?len (take body_len data) = Some (overwrite ?data 4 (take body_len data))"
    "header_write ?h (overwrite ?data 4 (take body_len data)) = Some ?d" "length ?d = length ?data"
    using sb(4) len by (simp_all add: header_write_eq)
  have tk: "take ?len ?d = p" using sb(4) len by (simp add: overwrite_def p_def)
  obtain m2 where m2: "sm_put_back m1 (sb\<lparr>sbuf_byte_buffer := (sbuf_byte_buffer sb)\<lparr>bb_data := ?d\<rparr>\<rparr>) = Some m2"
    "sm_wf m2" "sm_current_sequence m2 = seq_of (Suc n)" "stored m2 (Suc n) p"
    "\<forall>k p. k \<le> n \<longrightarrow> Suc n \<le> k + 1022 \<longrightarrow> stored (c_send_buffers c) k p \<longrightarrow> stored m2 k p"
    "\<forall>i x. sb_cell (sm_buffers m2) i = Some x \<longrightarrow> sb_cell (sm_buffers (c_send_buffers c)) i = Some x \<or> bb_data (sbuf_byte_buffer x) = ?d"
    using put [rule_format, OF d(3)] unfolding tk by blast
  have cells: "sb_cell (sm_buffers (c_send_buffers c)) i = Some x \<or> (\<exists>rest. bb_data (sbuf_byte_buffer x) = 1 # rest)"
    if "sb_cell (sm_buffers m2) i = Some x" for i x
    using m2(6) that by (auto simp: overwrite_def hdr_bytes_def enc_u8_def)
  have snd: "ts_send_to os net s address ?d ?len =
      Some (sent_len os fd (dest_of address) p net, sent os fd (dest_of address) p net)"
    using ts_send_to_eq [OF fd, of ?len ?d os net address] sb(4) d(3) tk by simp
  show ?thesis
    using sb d m2(1-5) snd len nn cells
    by (simp add: channel_send_reliable_def Let_def sres_default_def) (rule exI [of _ m2], simp)
qed


subsection \<open>Receiving\<close>

lemma bb_data_content: "bb_ok n b \<Longrightarrow> bb_data b = bb_content b @ drop (bb_length b) (bb_data b)"
  by (simp add: bb_content_def)

lemma read_type:
  assumes "bb_content b = hdr_bytes t ch s @ body"
  shows "read_u8 \<lparr>ib_index = 0\<rparr> (bb_data b) = Some (t, \<lparr>ib_index = 1\<rparr>)"
proof -
  have "bb_data b = (hdr_bytes t ch s @ body) @ drop (bb_length b) (bb_data b)"
    using assms append_take_drop_id [of "bb_length b" "bb_data b"] by (simp add: bb_content_def)
  then obtain rest where "bb_data b = t # rest" by (simp add: hdr_bytes_def enc_u8_def)
  then show ?thesis by (simp add: read_u8_def)
qed

lemma receive_published_internal_reliable:
  assumes pub: "r_published (c_receiver c) = b # bs" and ok: "bb_ok n b"
    and con: "bb_content b = hdr_bytes 1 ch s @ body" and room: "length body \<le> length buf"
  shows "receive_published_internal c buf = Some ((word_of_nat (length body), c_address c, True),
     c\<lparr>c_receiver := receiver_return_buffer ((c_receiver c)\<lparr>r_published := bs\<rparr>) b,
       c_stats := (c_stats c)\<lparr>cs_published_consumed := cs_published_consumed (c_stats c) + 1\<rparr>\<rparr>,
     overwrite buf 0 body)"
proof -
  have len: "bb_length b = 4 + length body" "bb_length b \<le> length (bb_data b)"
    using con length_bb_content [OF ok] bb_ok_room [OF ok] by simp_all
  have "take (length body) (drop 4 (bb_data b)) = drop 4 (bb_content b)"
    using len by (simp add: bb_content_def drop_take)
  then have sl: "slice (bb_data b) 4 (bb_length b) = Some body" using con len by simp
  show ?thesis
    using pub read_type [OF con] sl len room
    by (simp add: receive_published_internal_def take_published_def)
qed

lemma receive_published_internal_none:
  assumes pub: "r_published (c_receiver c) = b # bs" and con: "bb_content b = hdr_bytes 3 ch s @ body"
  shows "receive_published_internal c buf = Some ((0, c_address c, True),
     c\<lparr>c_receiver := receiver_return_buffer ((c_receiver c)\<lparr>r_published := bs\<rparr>) b\<rparr>, buf)"
  using pub read_type [OF con] by (simp add: receive_published_internal_def take_published_def)

lemma receive_published_unfold:
  "receive_published c buf = do {
     ((len, address, retry), c, buf) \<leftarrow> receive_published_internal c buf;
     if len > 0 then Some ((len, address), c, buf)
     else if \<not> retry then Some ((0, c_address c), c, buf)
     else receive_published_loop 999 c buf }"
  unfolding receive_published_def using receive_published_loop.simps(2) [of 999 c buf] by simp

lemma receive_published_reliable:
  assumes "r_published (c_receiver c) = b # bs" "bb_ok n b" "bb_content b = hdr_bytes 1 ch s @ body"
    "length body \<le> length buf" "body \<noteq> []" "length body < 2 ^ 32"
  shows "receive_published c buf = Some ((word_of_nat (length body), c_address c),
     c\<lparr>c_receiver := receiver_return_buffer ((c_receiver c)\<lparr>r_published := bs\<rparr>) b,
       c_stats := (c_stats c)\<lparr>cs_published_consumed := cs_published_consumed (c_stats c) + 1\<rparr>\<rparr>,
     overwrite buf 0 body)"
proof -
  have "(word_of_nat (length body) :: u32) > 0"
    using assms(5,6) by (simp add: word_less_nat_alt unat_of_nat)
  then show ?thesis
    using receive_published_internal_reliable [OF assms(1-4)] by (simp add: receive_published_unfold)
qed

subsection \<open>Resending\<close>

text \<open>What a nack for a number is answered with: the stored packet, or a none message.\<close>

definition resend_bytes :: "channel \<Rightarrow> u16 \<Rightarrow> bytes" where
  "resend_bytes c s =
     (case get_send_buffer (c_send_buffers c) s of
        Some (Some sb) \<Rightarrow> bb_content (sbuf_byte_buffer sb)
      | _ \<Rightarrow> hdr_bytes 3 (c_id c) s)"

definition resendable :: "channel \<Rightarrow> bool" where
  "resendable c \<longleftrightarrow> sm_wf (c_send_buffers c) \<and>
     (\<forall>i sb. sb_cell (sm_buffers (c_send_buffers c)) i = Some sb \<longrightarrow>
        (\<exists>t rest. bb_data (sbuf_byte_buffer sb) = t # rest \<and> t \<noteq> 5))"

lemma resend_one_ok:
  assumes "resendable c" "ts_socket s = Some fd"
  shows "\<exists>st. resend_one os s q address c net = Some (c\<lparr>c_stats := st\<rparr>, sent os fd (dest_of address) (resend_bytes c q) net)"
proof (cases "sb_cell (sm_buffers (c_send_buffers c)) (slot_of q)")
  case None
  have g: "get_send_buffer (c_send_buffers c) q = Some None"
    using assms(1) None by (simp add: resendable_def get_send_buffer_eq)
  have n: "create_none q (c_id c) (replicate 4 0) = Some (hdr_bytes 3 (c_id c) q)"
    by (simp add: create_none_def header_write_eq overwrite_def)
  show ?thesis
    using g n ts_send_to_eq [OF assms(2), of 4 "hdr_bytes 3 (c_id c) q" os net address]
    by (auto simp: resend_one_def resend_bytes_def Let_def)
next
  case (Some sb)
  let ?b = "sbuf_byte_buffer sb"
  have g: "get_send_buffer (c_send_buffers c) q = Some (Some sb)"
    using assms(1) Some by (simp add: resendable_def get_send_buffer_eq)
  obtain t rest where t: "bb_data ?b = t # rest" "t \<noteq> 5" using assms(1) Some unfolding resendable_def by blast
  have len: "bb_length ?b \<le> length (bb_data ?b)"
    using assms(1) Some bb_ok_room by (auto simp: resendable_def sm_wf_def)
  have "read_u8 \<lparr>ib_index = 0\<rparr> (bb_data ?b) = Some (t, \<lparr>ib_index = 1\<rparr>)" by (simp add: t read_u8_def)
  then show ?thesis
    using g t(2) ts_send_to_eq [OF assms(2) len, of os net address]
    by (auto simp: resend_one_def resend_bytes_def Let_def bb_content_def)
qed

lemma resend_stats [simp]:
  "resend_bytes (c\<lparr>c_stats := st\<rparr>) = resend_bytes c" "resendable (c\<lparr>c_stats := st\<rparr>) = resendable c"
  by (simp_all add: resend_bytes_def fun_eq_iff resendable_def split: option.split)

lemma resend_all_ok:
  assumes "resendable c" "ts_socket s = Some fd"
  shows "\<exists>st. resend_all os s qs c net = Some (c\<lparr>c_stats := st\<rparr>,
     fold (\<lambda>(q, address). sent os fd (dest_of address) (resend_bytes c q)) qs net)"
  using assms(1)
proof (induction qs arbitrary: c net)
  case Nil
  show ?case by (intro exI [of _ "c_stats c"]) simp
next
  case (Cons x qs)
  obtain q address where x: "x = (q, address)" by (cases x)
  obtain st where st: "resend_one os s q address c net = Some (c\<lparr>c_stats := st\<rparr>, sent os fd (dest_of address) (resend_bytes c q) net)"
    using resend_one_ok [OF Cons.prems assms(2)] by blast
  have "resendable (c\<lparr>c_stats := st\<rparr>)" using Cons.prems by simp
  from Cons.IH [OF this, of "sent os fd (dest_of address) (resend_bytes c q) net"] st show ?case by (auto simp: x)
qed

lemma resend_nacked_ok:
  assumes "resendable c" "ts_socket s = Some fd" "iter [] = []"
  shows "\<exists>st. resend_nacked os iter c s net = Some (c\<lparr>c_stats := st, c_nacked_sequence_map := []\<rparr>,
     fold (\<lambda>(q, address). sent os fd (dest_of address) (resend_bytes c q)) (iter (c_nacked_sequence_map c)) net)"
proof (cases "c_nacked_sequence_map c = []")
  case True
  then show ?thesis using assms(3) by (intro exI [of _ "c_stats c"]) (simp add: resend_nacked_def)
next
  case False
  then show ?thesis
    using resend_all_ok [OF assms(1,2), of os "iter (c_nacked_sequence_map c)" net] by (auto simp: resend_nacked_def)
qed


subsection \<open>Nacks\<close>

text \<open>
  What the code needs of the crate \<open>varuint\<close>: the reader returns what the writer wrote, with
  the number of bytes it took, and a 32-bit value takes at most five bytes.
\<close>

definition varint_codec :: "(nat \<Rightarrow> bytes) \<Rightarrow> (nat \<Rightarrow> bytes \<Rightarrow> (nat \<times> nat) option) \<Rightarrow> bool" where
  "varint_codec vw vr \<longleftrightarrow> (\<forall>w v rest. w \<le> 32 \<longrightarrow> v < 2 ^ w \<longrightarrow> vr w (vw v @ rest) = Some (v, length (vw v)))
     \<and> (\<forall>v < 2 ^ 32. length (vw v) \<le> 5)"

lemma nack_list_vbytes_length:
  assumes "varint_codec vw vr" "length ns < 65536"
  shows "length (nack_list_vbytes vw ns) \<le> 5 + 10 * length ns"
proof -
  have five: "length (vw v) \<le> 5" if "v < 2 ^ 32" for v using assms(1) that by (simp add: varint_codec_def)
  have "length (nack_vbytes vw n) \<le> 10" for n
  proof -
    have "unat (n_start_sequence n) < 2 ^ 32" "unat (n_flags n) < 2 ^ 32"
      using unsigned_less [of "n_start_sequence n", where ?'a = nat]
        unsigned_less [of "n_flags n", where ?'a = nat] by simp_all
    then show ?thesis using five [of "unat (n_start_sequence n)"] five [of "unat (n_flags n)"]
      by (simp add: nack_vbytes_def)
  qed
  then have "length (concat (map (nack_vbytes vw) ns)) \<le> 10 * length ns"
    by (induction ns) (auto intro: add_le_mono)
  moreover have "length (vw (length ns)) \<le> 5" using five assms(2) by simp
  ultimately show ?thesis by (simp add: nack_list_vbytes_def)
qed

definition nack_packet :: "(nat \<Rightarrow> bytes) \<Rightarrow> u8 \<Rightarrow> nack list \<Rightarrow> bytes" where
  "nack_packet vw i ns = hdr_bytes 4 i 0 @ nack_list_vbytes vw ns"

lemma send_nacks_ok:
  assumes cn: "create_nacks (c_receiver c) = Some (n, r)" and "length (r_nack_list r) \<le> 31" "varint_codec vw vr"
    "length (c_nack_send_data c) = 512" "ts_socket s = Some fd"
  shows "\<exists>c'. send_nacks os vw c s net = Some (c', if r_nack_list r = [] then net
       else sent os fd (dest_of (c_address c)) (nack_packet vw (c_id c) (r_nack_list r)) net)
     \<and> c_receiver c' = r \<and> c_send_buffers c' = c_send_buffers c \<and> c_nacked_sequence_map c' = c_nacked_sequence_map c
     \<and> length (c_nack_send_data c') = 512 \<and> c_frag c' = c_frag c"
proof (cases "r_nack_list r = []")
  case True
  then show ?thesis using assms(4) by (simp add: send_nacks_def cn)
next
  case False
  let ?v = "nack_list_vbytes vw (r_nack_list r)" and ?d = "overwrite (c_nack_send_data c) 0 (hdr_bytes 4 (c_id c) 0)"
  have v: "length ?v \<le> 508" using nack_list_vbytes_length [OF assms(3), of "r_nack_list r"] assms(2) by simp
  have h: "header_write (header_default\<lparr>h_message_type := 4, h_channel := c_id c\<rparr>) (c_nack_send_data c) = Some ?d"
    "length ?d = 512" using assms(4) by (simp_all add: header_write_eq header_default_def)
  have w: "nack_write_varint vw (r_nack_list r) ?d 4 = Some (4 + length ?v, overwrite ?d 4 ?v)"
    using nack_write_varint_room [of "r_nack_list r" 4 vw ?d] False v h assms(2) by simp
  have p: "take (4 + length ?v) (overwrite ?d 4 ?v) = nack_packet vw (c_id c) (r_nack_list r)"
    using v assms(4) by (simp add: overwrite_def nack_packet_def)
  have "ts_send_to os net s (c_address c) (overwrite ?d 4 ?v) (4 + length ?v) =
      Some (sent_len os fd (dest_of (c_address c)) (nack_packet vw (c_id c) (r_nack_list r)) net,
            sent os fd (dest_of (c_address c)) (nack_packet vw (c_id c) (r_nack_list r)) net)"
    using ts_send_to_eq [OF assms(5), of "4 + length ?v" "overwrite ?d 4 ?v" os net "c_address c"] v h(2) unfolding p by simp
  then show ?thesis using False h w v by (simp add: send_nacks_def cn)
qed

lemma map_of_fold_update:
  "map_of (fold (\<lambda>s m. AList.update s a m) ss m) q = (if q \<in> set ss then Some a else map_of m q)"
  by (induction ss arbitrary: m) (auto simp: update_conv')

lemma process_nack_message_ok:
  assumes "varint_codec vw vr" "length ns < 65536" "take (length (nack_packet vw i ns)) buf = nack_packet vw i ns"
  shows "\<exists>c'. process_nack_message vr c address buf = Some c' \<and> c_send_buffers c' = c_send_buffers c \<and> c_id c' = c_id c
     \<and> (\<forall>q. map_of (c_nacked_sequence_map c') q =
          (if q \<in> requested ns then Some address else map_of (c_nacked_sequence_map c) q))"
proof -
  have "drop 4 buf = drop 4 (take (length (nack_packet vw i ns)) buf @ drop (length (nack_packet vw i ns)) buf)"
    by (simp only: append_take_drop_id)
  then have at: "drop 4 buf = nack_list_vbytes vw ns @ drop (length (nack_packet vw i ns)) buf"
    unfolding assms(3) by (simp add: nack_packet_def)
  have vr: "vr w (vw v @ rest) = Some (v, length (vw v))" if "w \<le> 32" "v < 2 ^ w" for w v rest
    using assms(1) that by (simp add: varint_codec_def)
  have "nack_read_varint vr [] buf 4 = Some ([] @ concat (map (\<lambda>n. get_nacked n []) ns))"
    by (rule nack_read_varint_prefix [OF vr assms(2) at])
  then show ?thesis
    by (simp add: process_nack_message_def copy_nacked_to_map_def map_of_fold_update requested_def)
qed

lemma sent_mono: "set (net_out net) \<subseteq> set (net_out (sent os fd dest d net))"
  by (simp add: net_out_sent)

lemma in_net_out_sent: "os_send os net fd dest d \<Longrightarrow> (fd, dest, d) \<in> set (net_out (sent os fd dest d net))"
  by (simp add: net_out_sent)

text \<open>Every answer of a batch of resends is on the wire when the system accepts everything.\<close>

lemma resends_on_wire:
  assumes "\<And>net fd dest d. os_send os net fd dest d" "(q, address) \<in> set qs"
  shows "(fd, dest_of address, f q) \<in> set (net_out (fold (\<lambda>(q, address). sent os fd (dest_of address) (f q)) qs net))"
proof -
  have mono: "x \<in> set (net_out (fold (\<lambda>(q, address). sent os fd (dest_of address) (f q)) ys net))"
    if "x \<in> set (net_out net)" for x ys net
    using that
  proof (induction ys arbitrary: net)
    case (Cons y ys)
    have "x \<in> set (net_out (sent os fd (dest_of (snd y)) (f (fst y)) net))"
      using Cons.prems sent_mono by blast
    from Cons.IH [OF this] show ?case by (simp add: case_prod_beta)
  qed simp
  show ?thesis using assms(2)
  proof (induction qs arbitrary: net)
    case (Cons y qs)
    show ?case
    proof (cases "y = (q, address)")
      case True
      then show ?thesis using mono [OF in_net_out_sent [OF assms(1)]] by simp
    next
      case False
      with Cons show ?thesis by simp
    qed
  qed simp
qed


subsection \<open>Properties\<close>

text \<open>
  C28. A reliable message goes out once, with the next number, and is kept: when no nack is due,
  \<open>send_reliable\<close> hands the system exactly one datagram, the four-byte header with the
  channel and the next sequence number followed by the body, it stores the same bytes
  under that number for resending, and the messages of the last 1022 numbers stay stored.
\<close>

theorem send_reliable_spec:
  assumes "sm_wf (c_send_buffers c)" "sm_current_sequence (c_send_buffers c) = seq_of n" "ts_socket s = Some fd"
    "fst (next_nack (c_nack_redundancy c) (c_receiver c)) = None" "body_len \<le> length data"
  shows "\<exists>r c' p. p = hdr_bytes 1 (c_id c) (seq_of (Suc n)) @ take body_len data
    \<and> channel_send_reliable os now net c address data body_len s = Some (r, c', sent os fd (dest_of address) p net)
    \<and> sres_error r = 0 \<and> sres_sent_len r = word_of_nat (sent_len os fd (dest_of address) p net)
    \<and> stored (c_send_buffers c') (Suc n) p \<and> sm_wf (c_send_buffers c')
    \<and> sm_current_sequence (c_send_buffers c') = seq_of (Suc n)
    \<and> (\<forall>k q. k \<le> n \<longrightarrow> Suc n \<le> k + 1022 \<longrightarrow> stored (c_send_buffers c) k q \<longrightarrow> stored (c_send_buffers c') k q)"
proof -
  have nn: "next_nack (c_nack_redundancy c) (c_receiver c) = (None, snd (next_nack (c_nack_redundancy c) (c_receiver c)))"
    using assms(4) by (simp add: prod_eq_iff)
  show ?thesis
    using channel_send_reliable_plain [OF assms(1-3) nn assms(5), of os now net address] by fastforce
qed

theorem send_reliable_spec_witness:
  "\<exists>r c'. channel_send_reliable os_ideal 0 net_empty (channel_create 1 na_default cc_default_ordered) na_default [7, 8, 9] 2
       (ts_create\<lparr>ts_socket := Some 0\<rparr>) = Some (r, c', sent os_ideal 0 Connected (hdr_bytes 1 1 1 @ [7, 8]) net_empty)
     \<and> sres_error r = 0 \<and> stored (c_send_buffers c') 1 (hdr_bytes 1 1 1 @ [7, 8])"
proof -
  let ?c = "channel_create 1 na_default cc_default_ordered" and ?s = "ts_create\<lparr>ts_socket := Some 0\<rparr>"
  have "sm_wf (c_send_buffers ?c)" "sm_current_sequence (c_send_buffers ?c) = seq_of 0" "ts_socket ?s = Some 0"
    "fst (next_nack (c_nack_redundancy ?c) (c_receiver ?c)) = None" "2 \<le> length [7, 8, 9 :: u8]"
    using sm_wf_default by (simp_all add: channel_create_def sm_default_def seq_of_def next_nack_def receiver_create_def)
  from send_reliable_spec [OF this, of os_ideal 0 net_empty na_default] show ?thesis
    by (auto simp: seq_of_def dest_of_def na_default_def channel_create_def numeral_2_eq_2)
qed



lemma create_send_buffer_first:
  "len \<le> 1240 \<Longrightarrow> \<exists>m. create_send_buffer now sm_default len = Some (Some \<lparr>sbuf_sequence = 1,
     sbuf_byte_buffer = \<lparr>bb_data = replicate 1240 0, bb_length = len, bb_pooled = True, bb_version = 0\<rparr>,
     sbuf_created_at = now\<rparr>, m) \<and> sm_wf m \<and> bp_buffer_size (sm_buffer_pool m) = 1240"
proof -
  assume len: "len \<le> 1240"
  obtain sb m where r: "create_send_buffer now sm_default len = Some (Some sb, m)" "sm_wf m" "sm_fresh now sm_default len sb m"
    using create_send_buffer_ok [OF sm_wf_default] by blast
  have wf: "sb_wf (sm_buffers sm_default)" using sm_wf_default by (simp add: sm_wf_def)
  have cell: "sb_cell (sm_buffers sm_default) i = None" for i by (simp add: sm_default_def sb_cell_def)
  have one: "next_sequence (sm_current_sequence sm_default) = 1" by (simp add: sm_default_def next_sequence_def)
  have pool: "get_buffer (sm_buffer_pool sm_default) len = Some (\<lparr>bb_data = replicate 1240 0, bb_length = len,
      bb_pooled = True, bb_version = 0\<rparr>, sm_buffer_pool sm_default)" "bp_buffer_size (sm_buffer_pool sm_default) = 1240"
    using len by (simp_all add: sm_default_def get_buffer_def bp_create_def)
  have "sb = \<lparr>sbuf_sequence = 1, sbuf_byte_buffer = \<lparr>bb_data = replicate 1240 0, bb_length = len, bb_pooled = True,
      bb_version = 0\<rparr>, sbuf_created_at = now\<rparr>"
    using r(1) wf cell pool(1) one by (simp add: create_send_buffer_def Let_def)
  moreover have "bp_buffer_size (sm_buffer_pool m) = 1240" using r(3) pool(2) by (simp add: sm_fresh_def)
  ultimately show ?thesis using r(1,2) by blast
qed



text \<open>
  C31. A message that was sent with room for a nack is resent with the wrong length: the
  rewrite to a plain message copies the whole pooled buffer, so the datagram carries,
  behind the body, the unused rest of the buffer.
\<close>

theorem resend_wrong_length:
  assumes "get_send_buffer (c_send_buffers c) q = Some (Some sb)" "ts_socket s = Some fd"
    "bb_data (sbuf_byte_buffer sb) = hdr_bytes 5 ch q' @ nacked @ body @ unused" "length nacked = 6"
    "bb_length (sbuf_byte_buffer sb) = 10 + length body" "length (body @ unused) \<le> 2044"
    "length (c_resend_rewrite_buffer c) = 2048"
  shows "\<exists>c'. resend_one os s q address c net =
     Some (c', sent os fd (dest_of address) (hdr_bytes 1 ch q' @ body @ unused) net)"
proof -
  let ?b = "bb_data (sbuf_byte_buffer sb)" and ?rw = "c_resend_rewrite_buffer c"
  let ?r1 = "overwrite ?rw 4 (body @ unused)"
  let ?r2 = "overwrite ?r1 0 (hdr_bytes 1 ch q')"
  have ty: "read_u8 \<lparr>ib_index = 0\<rparr> ?b = Some (5, \<lparr>ib_index = 1\<rparr>)"
    by (simp add: assms(3) read_u8_def hdr_bytes_def enc_u8_def)
  have hd: "header_read ?b = Some (header_default\<lparr>h_message_type := 5, h_channel := ch, h_sequence := q'\<rparr>)"
    using header_read_prefix [of 5 ch q' "nacked @ body @ unused"] by (simp add: assms(3))
  have len: "length ?b = 10 + length (body @ unused)" using assms(3,4) by simp
  have sl: "slice ?b 10 (length ?b) = Some (body @ unused)"
    using len assms(3,4) by simp
  have cp: "copy_into ?rw 4 (4 + length (body @ unused)) (body @ unused) = Some ?r1" "length ?r1 = 2048"
    using assms(6,7) by simp_all
  have hw: "header_write (header_default\<lparr>h_channel := ch, h_sequence := q', h_message_type := 1\<rparr>) ?r1 = Some ?r2"
    "length ?r2 = 2048"
    using cp(2) by (simp_all add: header_write_eq)
  have rw: "rewrite_reliable_nack_to_reliable ?rw ?b = Some (4 + length (body @ unused), ?r2)"
    using hd sl cp hw len by (simp add: rewrite_reliable_nack_to_reliable_def)
  have tk: "take (4 + length (body @ unused)) ?r2 = hdr_bytes 1 ch q' @ body @ unused"
    using assms(6,7) by (simp add: overwrite_def)
  have "ts_send_to os net s address ?r2 (4 + length (body @ unused)) =
     Some (sent_len os fd (dest_of address) (hdr_bytes 1 ch q' @ body @ unused) net,
           sent os fd (dest_of address) (hdr_bytes 1 ch q' @ body @ unused) net)"
    using ts_send_to_eq [OF assms(2), of "4 + length (body @ unused)" ?r2 os net address] hw(2) assms(6) unfolding tk by simp
  then show ?thesis
    using assms(1) ty rw by (simp add: resend_one_def Let_def)
qed


theorem resend_wrong_length_witness:
  "\<exists>c sb c'. get_send_buffer (c_send_buffers c) 1 = Some (Some sb) \<and> bb_length (sbuf_byte_buffer sb) = 11
     \<and> resend_one os_ideal (ts_create\<lparr>ts_socket := Some 0\<rparr>) 1 na_default c net_empty =
         Some (c', sent os_ideal 0 Connected (hdr_bytes 1 1 1 @ [7] @ replicate 1229 0) net_empty)"
proof -
  let ?b = "\<lparr>bb_data = hdr_bytes 5 1 1 @ replicate 6 0 @ [7] @ replicate 1229 0, bb_length = 11,
      bb_pooled = True, bb_version = 0\<rparr>"
  let ?sb = "\<lparr>sbuf_sequence = 1, sbuf_byte_buffer = ?b, sbuf_created_at = 0\<rparr>"
  have "bb_ok (bp_buffer_size (sm_buffer_pool sm_default)) ?b" by (simp add: bb_ok_def sm_default_def bp_create_def)
  then obtain m where m: "sm_wf m" "sb_cell (sm_buffers m) (slot_of 1) = Some ?sb"
    using sm_put_back_ok [OF sm_wf_default, of ?sb] by auto
  let ?c = "(channel_create 1 na_default cc_default_ordered)\<lparr>c_send_buffers := m\<rparr>"
  have g: "get_send_buffer (c_send_buffers ?c) 1 = Some (Some ?sb)" using m by (simp add: get_send_buffer_eq)
  have "\<exists>c'. resend_one os_ideal (ts_create\<lparr>ts_socket := Some 0\<rparr>) 1 na_default ?c net_empty =
      Some (c', sent os_ideal 0 (dest_of na_default) (hdr_bytes 1 1 1 @ [7] @ replicate 1229 0) net_empty)"
    by (rule resend_wrong_length [OF g, where nacked = "replicate 6 0"]) (simp_all add: channel_create_def)
  moreover have "dest_of na_default = Connected" by (simp add: dest_of_def na_default_def)
  ultimately obtain c' where "resend_one os_ideal (ts_create\<lparr>ts_socket := Some 0\<rparr>) 1 na_default ?c net_empty =
      Some (c', sent os_ideal 0 Connected (hdr_bytes 1 1 1 @ [7] @ replicate 1229 0) net_empty)" by metis
  with g show ?thesis
    by - (rule exI [of _ ?c], rule exI [of _ ?sb], rule exI [of _ c'], simp)
qed

end
