(* ===== verification/Tachyon_State.thy ===== *)
theory Tachyon_State
  imports Channel
begin

text \<open>
  \<^verbatim>\<open>src/src/tachyon/connection.rs\<close>, \<^verbatim>\<open>src/src/tachyon/connection_impl.rs\<close> and the state of
  \<^verbatim>\<open>src/src/tachyon.rs\<close>: the tables of connections, channels and identities of an endpoint, and
  the handshake that links an identity to an address. A hash map is an association list with
  one entry per key; where the code walks a map and the order shows, the order is an argument
  or, for the events of \<open>remove_connection_by_identity\<close>, that of the list.
\<close>

subsection \<open>Connection and Identity\<close>

record identity =
  id_id :: u32
  id_session_id :: u32
  id_linked :: u32

definition identity_default :: identity where
  "identity_default = \<lparr>id_id = 0, id_session_id = 0, id_linked = 0\<rparr>"

definition identity_is_valid :: "identity \<Rightarrow> bool" where
  "identity_is_valid self \<longleftrightarrow> id_id self > 0 \<and> id_session_id self > 0"

definition identity_is_linked :: "identity \<Rightarrow> bool" where
  "identity_is_linked self \<longleftrightarrow> identity_is_valid self \<and> id_linked self = 1"

definition identity_set_linked :: "identity \<Rightarrow> u32 \<Rightarrow> identity" where
  "identity_set_linked self linked = self\<lparr>id_linked := linked\<rparr>"

record connection =
  conn_address :: network_address
  conn_identity :: identity
  conn_tachyon_id :: u16
  conn_received_at :: u64
  conn_since_last_received :: u64

definition connection_create :: "network_address \<Rightarrow> u16 \<Rightarrow> connection" where
  "connection_create address tachyon_id =
     \<lparr>conn_address = address, conn_identity = identity_default, conn_tachyon_id = tachyon_id,
      conn_received_at = 0, conn_since_last_received = 0\<rparr>"

subsection \<open>Tachyon\<close>

record tachyon_stats =
  tst_channel_stats :: channel_stats
  tst_packets_dropped :: u64
  tst_unreliable_sent :: u64
  tst_unreliable_received :: u64

definition tst_default :: tachyon_stats where
  "tst_default = \<lparr>tst_channel_stats = cs_default, tst_packets_dropped = 0, tst_unreliable_sent = 0,
     tst_unreliable_received = 0\<rparr>"

record tachyon_config =
  tcf_use_identity :: u32
  tcf_drop_packet_chance :: u64
  tcf_drop_reliable_only :: u32

definition SOCKET_RECEIVE_BUFFER_LEN :: nat where
  "SOCKET_RECEIVE_BUFFER_LEN = 1024 * 1024"

type_synonym channel_key = "network_address \<times> u8"

text \<open>
  The callbacks are foreign functions that get their arguments by value: whether one is
  installed is a flag, and the calls are recorded in \<open>t_events\<close>, oldest first.
\<close>

datatype event = Connection_Event u8 connection | Identity_Event u8 connection

record tachyon =
  t_id :: u16
  t_socket :: tachyon_socket
  t_socket_receive_buffer :: bytes
  t_unreliable_sender :: "unreliable_sender option"
  t_identities :: "(u32 \<times> u32) list"
  t_connections :: "(network_address \<times> connection) list"
  t_identity_to_address_map :: "(u32 \<times> network_address) list"
  t_channels :: "(channel_key \<times> channel) list"
  t_channel_config :: "(u8 \<times> channel_config) list"
  t_config :: tachyon_config
  t_nack_send_data :: bytes
  t_stats :: tachyon_stats
  t_start_time :: nat
  t_last_identity_link_request :: int
  t_identity :: identity
  t_identity_event_callback :: bool
  t_connection_event_callback :: bool
  t_events :: "event list"

definition create_with_id :: "nat \<Rightarrow> tachyon_config \<Rightarrow> u16 \<Rightarrow> tachyon" where
  "create_with_id now config i =
     (let tachyon = \<lparr>t_id = i, t_socket = ts_create, t_socket_receive_buffer = replicate SOCKET_RECEIVE_BUFFER_LEN 0,
        t_unreliable_sender = None, t_identities = [], t_connections = [], t_identity_to_address_map = [],
        t_channels = [], t_channel_config = [], t_config = config, t_nack_send_data = replicate 4096 0,
        t_stats = tst_default, t_start_time = now, t_last_identity_link_request = int now - 100 * 10 ^ 9,
        t_identity = identity_default, t_identity_event_callback = False, t_connection_event_callback = False,
        t_events = []\<rparr>
      in tachyon\<lparr>t_channel_config := AList.update 2 cc_default_unordered (AList.update 1 cc_default_ordered [])\<rparr>)"

definition tachyon_create :: "nat \<Rightarrow> tachyon_config \<Rightarrow> tachyon" where
  "tachyon_create now config = create_with_id now config 0"

definition time_since_start :: "nat \<Rightarrow> tachyon \<Rightarrow> u64" where
  "time_since_start now self = word_of_nat (elapsed_millis now (t_start_time self))"

definition get_channel :: "tachyon \<Rightarrow> network_address \<Rightarrow> u8 \<Rightarrow> channel option" where
  "get_channel self address channel_id = map_of (t_channels self) (address, channel_id)"

fun create_channels_loop ::
  "network_address \<Rightarrow> (u8 \<times> channel_config) list \<Rightarrow> (channel_key \<times> channel) list \<Rightarrow> (channel_key \<times> channel) list" where
  "create_channels_loop address [] channels = channels"
| "create_channels_loop address ((channel_id, config) # rest) channels =
     (case map_of channels (address, channel_id) of
        Some _ \<Rightarrow> create_channels_loop address rest channels
      | None \<Rightarrow> create_channels_loop address rest
          (AList.update (address, channel_id) (channel_create channel_id address config) channels))"

definition create_configured_channels :: "tachyon \<Rightarrow> network_address \<Rightarrow> tachyon" where
  "create_configured_channels self address =
     self\<lparr>t_channels := create_channels_loop address (t_channel_config self) (t_channels self)\<rparr>"

definition get_channel_count :: "tachyon \<Rightarrow> network_address \<Rightarrow> u32" where
  "get_channel_count self address =
     word_of_nat (length (filter (\<lambda>config. map_of (t_channels self) (address, fst config) \<noteq> None) (t_channel_config self)))"

definition remove_configured_channels :: "tachyon \<Rightarrow> network_address \<Rightarrow> tachyon" where
  "remove_configured_channels self address =
     self\<lparr>t_channels := fold (\<lambda>config. AList.delete (address, fst config)) (t_channel_config self) (t_channels self)\<rparr>"

definition configure_channel :: "tachyon \<Rightarrow> u8 \<Rightarrow> channel_config \<Rightarrow> bool \<times> tachyon" where
  "configure_channel self channel_id config =
     (if channel_id < 3 then (False, self)
      else (True, self\<lparr>t_channel_config := AList.update channel_id config (t_channel_config self)\<rparr>))"

subsection \<open>Connections and the identity handshake\<close>

abbreviation (input) IDENTITY_SEND_INTERVAL :: int where "IDENTITY_SEND_INTERVAL \<equiv> 300"
abbreviation (input) CONNECTION_ADDED_EVENT :: u8 where "CONNECTION_ADDED_EVENT \<equiv> 1"
abbreviation (input) CONNECTION_REMOVED_EVENT :: u8 where "CONNECTION_REMOVED_EVENT \<equiv> 2"
abbreviation (input) LINK_IDENTITY_EVENT :: u8 where "LINK_IDENTITY_EVENT \<equiv> 1"
abbreviation (input) UNLINK_IDENTITY_EVENT :: u8 where "UNLINK_IDENTITY_EVENT \<equiv> 2"
abbreviation (input) IDENTITY_LINKED_EVENT :: u8 where "IDENTITY_LINKED_EVENT \<equiv> 3"
abbreviation (input) IDENTITY_UNLINKED_EVENT :: u8 where "IDENTITY_UNLINKED_EVENT \<equiv> 4"

definition fire_identity_event :: "tachyon \<Rightarrow> u8 \<Rightarrow> network_address \<Rightarrow> u32 \<Rightarrow> u32 \<Rightarrow> tachyon" where
  "fire_identity_event self event_id address i session_id =
     (if t_identity_event_callback self then
        let conn = (connection_create address (t_id self))
              \<lparr>conn_identity := \<lparr>id_id = i, id_session_id = session_id, id_linked = 0\<rparr>\<rparr>;
            conn = (if event_id = IDENTITY_LINKED_EVENT
                    then conn\<lparr>conn_identity := (conn_identity conn)\<lparr>id_linked := 1\<rparr>\<rparr> else conn)
        in self\<lparr>t_events := t_events self @ [Identity_Event event_id conn]\<rparr>
      else self)"

definition fire_connection_event :: "tachyon \<Rightarrow> u8 \<Rightarrow> network_address \<Rightarrow> tachyon" where
  "fire_connection_event self event_id address =
     (if t_connection_event_callback self
      then self\<lparr>t_events := t_events self @ [Connection_Event event_id (connection_create address (t_id self))]\<rparr>
      else self)"

definition create_connection :: "nat \<Rightarrow> tachyon \<Rightarrow> network_address \<Rightarrow> identity \<Rightarrow> tachyon" where
  "create_connection now self address identity =
     (let conn = (connection_create address (t_id self))
            \<lparr>conn_identity := identity, conn_received_at := time_since_start now self\<rparr>;
          self = self\<lparr>t_connections := AList.update address conn (t_connections self)\<rparr>;
          self = create_configured_channels self address
      in fire_connection_event self CONNECTION_ADDED_EVENT address)"

definition remove_connection :: "tachyon \<Rightarrow> network_address \<Rightarrow> tachyon" where
  "remove_connection self address =
     (let self = self\<lparr>t_connections := AList.delete address (t_connections self)\<rparr>;
          self = remove_configured_channels self address
      in fire_connection_event self CONNECTION_REMOVED_EVENT address)"

definition get_connection :: "tachyon \<Rightarrow> network_address \<Rightarrow> connection option" where
  "get_connection self address = map_of (t_connections self) address"

definition get_connection_by_identity :: "tachyon \<Rightarrow> u32 \<Rightarrow> connection option" where
  "get_connection_by_identity self i =
     (case map_of (t_identity_to_address_map self) i of
        Some address \<Rightarrow> get_connection self address
      | None \<Rightarrow> None)"

definition remove_connection_by_identity :: "tachyon \<Rightarrow> u32 \<Rightarrow> tachyon" where
  "remove_connection_by_identity self i =
     (let addresses = map conn_address (filter (\<lambda>conn. id_id (conn_identity conn) = i) (map snd (t_connections self)))
      in fold (\<lambda>addr self. remove_connection self addr) addresses self)"

definition set_identity :: "tachyon \<Rightarrow> u32 \<Rightarrow> u32 \<Rightarrow> tachyon" where
  "set_identity self i session_id =
     (let self = remove_connection_by_identity self i
      in if session_id = 0 then self\<lparr>t_identities := AList.delete i (t_identities self)\<rparr>
         else self\<lparr>t_identities := AList.update i session_id (t_identities self)\<rparr>)"

definition on_receive_connection_update :: "nat \<Rightarrow> tachyon \<Rightarrow> network_address \<Rightarrow> tachyon" where
  "on_receive_connection_update now self address =
     (let since_start = time_since_start now self
      in case map_of (t_connections self) address of
           Some conn \<Rightarrow> self\<lparr>t_connections :=
             AList.update address (conn\<lparr>conn_received_at := since_start\<rparr>) (t_connections self)\<rparr>
         | None \<Rightarrow> create_connection now self address identity_default)"

definition validate_and_update_linked_connection :: "nat \<Rightarrow> tachyon \<Rightarrow> network_address \<Rightarrow> bool \<times> tachyon" where
  "validate_and_update_linked_connection now self address =
     (let since_start = time_since_start now self
      in case map_of (t_connections self) address of
           Some conn \<Rightarrow>
             if id_id (conn_identity conn) = 0 then (False, self)
             else (True, self\<lparr>t_connections :=
               AList.update address (conn\<lparr>conn_received_at := since_start\<rparr>) (t_connections self)\<rparr>)
         | None \<Rightarrow> (False, self))"

definition get_connection_identity :: "tachyon \<Rightarrow> network_address \<Rightarrow> identity" where
  "get_connection_identity self address =
     (case map_of (t_connections self) address of
        Some conn \<Rightarrow> conn_identity conn
      | None \<Rightarrow> identity_default)"

definition send_identity_message ::
  "os \<Rightarrow> network \<Rightarrow> tachyon \<Rightarrow> u8 \<Rightarrow> u32 \<Rightarrow> u32 \<Rightarrow> network_address \<Rightarrow> network option" where
  "send_identity_message os net self message_type i session_id address = do {
     let header = \<lparr>ch_message_type = message_type, ch_id = i, ch_session_id = session_id\<rparr>;
     send_buffer \<leftarrow> ch_write header (replicate 12 0);
     (_, net) \<leftarrow> ts_send_to os net (t_socket self) address send_buffer (length send_buffer);
     Some net }"

definition send_link_identity :: "os \<Rightarrow> network \<Rightarrow> tachyon \<Rightarrow> u32 \<Rightarrow> u32 \<Rightarrow> network option" where
  "send_link_identity os net self i session_id =
     send_identity_message os net self MESSAGE_TYPE_LINK_IDENTITY i session_id na_default"

definition send_unlink_identity :: "os \<Rightarrow> network \<Rightarrow> tachyon \<Rightarrow> u32 \<Rightarrow> u32 \<Rightarrow> network option" where
  "send_unlink_identity os net self i session_id =
     send_identity_message os net self MESSAGE_TYPE_UNLINK_IDENTITY i session_id na_default"

definition send_identity_linked :: "os \<Rightarrow> network \<Rightarrow> tachyon \<Rightarrow> network_address \<Rightarrow> network option" where
  "send_identity_linked os net self address =
     send_identity_message os net self MESSAGE_TYPE_IDENTITY_LINKED 0 0 address"

definition send_identity_unlinked :: "os \<Rightarrow> network \<Rightarrow> tachyon \<Rightarrow> network_address \<Rightarrow> network option" where
  "send_identity_unlinked os net self address =
     send_identity_message os net self MESSAGE_TYPE_IDENTITY_UNLINKED 0 0 address"

definition try_link_identity ::
  "os \<Rightarrow> nat \<Rightarrow> network \<Rightarrow> tachyon \<Rightarrow> network_address \<Rightarrow> u32 \<Rightarrow> u32 \<Rightarrow> (bool \<times> tachyon \<times> network) option" where
  "try_link_identity os now net self address i session_id =
     (case map_of (t_identities self) i of
        Some current_session_id \<Rightarrow>
          if session_id \<noteq> current_session_id then Some (False, self, net)
          else let identity = get_connection_identity self address
               in if id_id identity = i \<and> id_session_id identity = current_session_id then Some (True, self, net)
                  else do {
                    let self = remove_connection_by_identity self i;
                    let identity = \<lparr>id_id = i, id_session_id = session_id, id_linked = 0\<rparr>;
                    let self = create_connection now self address identity;
                    let self = self\<lparr>t_identity_to_address_map := AList.update i address (t_identity_to_address_map self)\<rparr>;
                    net \<leftarrow> send_identity_linked os net self address;
                    Some (True, self, net) }
      | None \<Rightarrow> Some (False, self, net))"

definition try_unlink_identity ::
  "os \<Rightarrow> network \<Rightarrow> tachyon \<Rightarrow> network_address \<Rightarrow> u32 \<Rightarrow> u32 \<Rightarrow> (bool \<times> tachyon \<times> network) option" where
  "try_unlink_identity os net self address i session_id =
     (case map_of (t_identities self) i of
        Some current_session_id \<Rightarrow>
          if session_id \<noteq> current_session_id then Some (False, self, net)
          else do {
            let self = remove_connection_by_identity self i;
            let self = self\<lparr>t_identity_to_address_map := AList.delete i (t_identity_to_address_map self)\<rparr>;
            net \<leftarrow> send_identity_unlinked os net self address;
            Some (True, self, net) }
      | None \<Rightarrow> do {
          net \<leftarrow> send_identity_unlinked os net self address;
          Some (False, self, net) })"

definition client_identity_update :: "os \<Rightarrow> nat \<Rightarrow> network \<Rightarrow> tachyon \<Rightarrow> (tachyon \<times> network) option" where
  "client_identity_update os now net self =
     (if tcf_use_identity (t_config self) = 0 then Some (self, net)
      else if ts_socket (t_socket self) = None then Some (self, net)
      else if ts_is_server (t_socket self) then Some (self, net)
      else if \<not> identity_is_valid (t_identity self) then Some (self, net)
      else if identity_is_linked (t_identity self) then Some (self, net)
      else if (int now - t_last_identity_link_request self) div 1000000 > IDENTITY_SEND_INTERVAL then do {
        let self = self\<lparr>t_last_identity_link_request := int now\<rparr>;
        net \<leftarrow> send_link_identity os net self (id_id (t_identity self)) (id_session_id (t_identity self));
        Some (self, net) }
      else Some (self, net))"

definition can_send :: "tachyon \<Rightarrow> bool" where
  "can_send self \<longleftrightarrow>
     (if ts_is_server (t_socket self) then True
      else if tcf_use_identity (t_config self) = 1 then id_linked (t_identity self) = 1
      else True)"

text \<open>\<open>get_connections\<close> visits the map in the order of its buckets, an argument.\<close>

fun get_connections_loop ::
  "u64 \<Rightarrow> nat \<Rightarrow> nat \<Rightarrow> network_address list \<Rightarrow> (network_address \<times> connection) list \<Rightarrow> connection list
     \<Rightarrow> connection list \<times> (network_address \<times> connection) list" where
  "get_connections_loop since_start result_count count [] conns acc = (acc, conns)"
| "get_connections_loop since_start result_count count (a # as) conns acc =
     (case map_of conns a of
        Some conn \<Rightarrow>
          (let conn = conn\<lparr>conn_since_last_received := since_start - conn_received_at conn\<rparr>;
               conns = AList.update a conn conns;
               acc = acc @ [conn];
               count = count + 1
           in if count \<ge> result_count then (acc, conns)
              else get_connections_loop since_start result_count count as conns acc)
      | None \<Rightarrow> get_connections_loop since_start result_count count as conns acc)"

definition get_connections ::
  "(network_address list \<Rightarrow> network_address list) \<Rightarrow> nat \<Rightarrow> tachyon \<Rightarrow> 32 word \<Rightarrow> connection list \<times> tachyon" where
  "get_connections order now self max_count =
     (let result_count = min (length (t_connections self)) (unat (scast max_count :: 64 word));
          (acc, conns) = get_connections_loop (time_since_start now self) result_count 0
             (order (map fst (t_connections self))) (t_connections self) []
      in (acc, self\<lparr>t_connections := conns\<rparr>))"


subsection \<open>Invariant\<close>

text \<open>
  Maps have one entry per key, a connection knows its address and the number of its endpoint,
  and a channel belongs to an existing connection and a configured number.
\<close>

definition t_wf :: "tachyon \<Rightarrow> bool" where
  "t_wf t \<longleftrightarrow> distinct (map fst (t_connections t)) \<and> distinct (map fst (t_channels t))
     \<and> (\<forall>a conn. map_of (t_connections t) a = Some conn \<longrightarrow> conn_address conn = a \<and> conn_tachyon_id conn = t_id t)
     \<and> (\<forall>a i c. map_of (t_channels t) (a, i) = Some c \<longrightarrow>
          map_of (t_connections t) a \<noteq> None \<and> map_of (t_channel_config t) i \<noteq> None \<and> c_address c = a \<and> c_id c = i)"

lemma t_wf_frame [simp]:
  "t_wf (t\<lparr>t_identities := x1\<rparr>) = t_wf t" "t_wf (t\<lparr>t_identity_to_address_map := x2\<rparr>) = t_wf t"
  "t_wf (t\<lparr>t_events := x3\<rparr>) = t_wf t" "t_wf (t\<lparr>t_socket := x4\<rparr>) = t_wf t" "t_wf (t\<lparr>t_stats := x5\<rparr>) = t_wf t"
  "t_wf (t\<lparr>t_identity := x6\<rparr>) = t_wf t" "t_wf (t\<lparr>t_unreliable_sender := x7\<rparr>) = t_wf t"
  "t_wf (t\<lparr>t_last_identity_link_request := x8\<rparr>) = t_wf t" "t_wf (t\<lparr>t_socket_receive_buffer := x9\<rparr>) = t_wf t"
  by (simp_all add: t_wf_def)

lemma t_wf_channel:
  assumes "t_wf t" "map_of (t_channels t) (a, i) = Some c"
  shows "map_of (t_connections t) a \<noteq> None" "map_of (t_channel_config t) i \<noteq> None" "c_address c = a" "c_id c = i"
  using assms unfolding t_wf_def by blast+

lemma t_wf_connection: "t_wf t \<Longrightarrow> map_of (t_connections t) a = Some conn \<Longrightarrow> conn_address conn = a"
  unfolding t_wf_def by blast

lemma channel_create_sel [simp]:
  "c_address (channel_create i a cfg) = a" "c_id (channel_create i a cfg) = i"
  by (simp_all add: channel_create_def)

lemma map_of_create_channels:
  "map_of (create_channels_loop a cfg chs) (b, j) =
     (case map_of chs (b, j) of Some c \<Rightarrow> Some c
      | None \<Rightarrow> if b = a then map_option (channel_create j a) (map_of cfg j) else None)"
proof (induction cfg arbitrary: chs)
  case (Cons x cfg)
  obtain i c where x: "x = (i, c)" by (cases x)
  show ?case
    by (cases "map_of chs (a, i)") (auto simp: x Cons.IH update_conv' split: option.splits)
qed (simp split: option.split)

lemma distinct_create_channels: "distinct (map fst chs) \<Longrightarrow> distinct (map fst (create_channels_loop a cfg chs))"
  by (induction a cfg chs rule: create_channels_loop.induct) (auto simp: distinct_update split: option.split)

lemma map_of_remove_channels:
  "map_of (fold (\<lambda>config. AList.delete (a, fst config)) cfg chs) k =
     (if fst k = a \<and> snd k \<in> fst ` set cfg then None else map_of chs k)"
  by (induction cfg arbitrary: chs) (cases k, auto simp: delete_conv')+

lemma distinct_remove_channels:
  "distinct (map fst chs) \<Longrightarrow> distinct (map fst (fold (\<lambda>config. AList.delete (a, fst config)) cfg chs))"
  by (induction cfg arbitrary: chs) (auto simp: distinct_delete)

lemma fire_frame [simp]:
  "t_connections (fire_connection_event t e a) = t_connections t" "t_channels (fire_connection_event t e a) = t_channels t"
  "t_channel_config (fire_connection_event t e a) = t_channel_config t" "t_socket (fire_connection_event t e a) = t_socket t"
  "t_identities (fire_connection_event t e a) = t_identities t"
  "t_identity_to_address_map (fire_connection_event t e a) = t_identity_to_address_map t"
  "t_config (fire_connection_event t e a) = t_config t"
  by (simp_all add: fire_connection_event_def)

lemma fire_identity_frame [simp]:
  "t_connections (fire_identity_event t e a i s) = t_connections t" "t_channels (fire_identity_event t e a i s) = t_channels t"
  "t_channel_config (fire_identity_event t e a i s) = t_channel_config t" "t_socket (fire_identity_event t e a i s) = t_socket t"
  "t_identities (fire_identity_event t e a i s) = t_identities t"
  "t_identity_to_address_map (fire_identity_event t e a i s) = t_identity_to_address_map t"
  by (simp_all add: fire_identity_event_def Let_def)

lemma remove_connection_frame [simp]:
  "t_channel_config (remove_connection t a) = t_channel_config t" "t_socket (remove_connection t a) = t_socket t"
  "t_identities (remove_connection t a) = t_identities t"
  "t_identity_to_address_map (remove_connection t a) = t_identity_to_address_map t"
  "map_of (t_connections (remove_connection t a)) = (map_of (t_connections t))(a := None)"
  by (simp_all add: remove_connection_def remove_configured_channels_def delete_conv' fun_eq_iff)

lemma create_connection_frame [simp]:
  "t_channel_config (create_connection now t a idn) = t_channel_config t" "t_socket (create_connection now t a idn) = t_socket t"
  "t_identities (create_connection now t a idn) = t_identities t"
  "t_identity_to_address_map (create_connection now t a idn) = t_identity_to_address_map t"
  by (simp_all add: create_connection_def create_configured_channels_def Let_def)

lemma connection_ids [simp]:
  "t_id (fire_connection_event t e a) = t_id t" "t_id (fire_identity_event t e a i s) = t_id t"
  "t_id (create_connection now t a idn) = t_id t" "t_id (remove_connection t a) = t_id t"
  "t_id (on_receive_connection_update now t a) = t_id t"
  by (auto simp: fire_connection_event_def fire_identity_event_def create_connection_def create_configured_channels_def
      remove_connection_def remove_configured_channels_def on_receive_connection_update_def Let_def split: option.split)

lemma create_connection_maps:
  "map_of (t_connections (create_connection now t a idn)) = (map_of (t_connections t))(a \<mapsto>
     (connection_create a (t_id t))\<lparr>conn_identity := idn, conn_received_at := time_since_start now t\<rparr>)"
  "map_of (t_channels (create_connection now t a idn)) (b, j) =
     (case map_of (t_channels t) (b, j) of Some c \<Rightarrow> Some c
      | None \<Rightarrow> if b = a then map_option (channel_create j a) (map_of (t_channel_config t) j) else None)"
  by (simp_all add: create_connection_def create_configured_channels_def Let_def update_conv' map_of_create_channels)

lemma create_connection_wf:
  assumes "t_wf t"
  shows "t_wf (create_connection now t a idn)"
proof -
  let ?t = "create_connection now t a idn"
  have "distinct (map fst (t_connections ?t))" "distinct (map fst (t_channels ?t))"
    using assms by (simp_all add: t_wf_def create_connection_def create_configured_channels_def Let_def
        distinct_update distinct_create_channels)
  moreover have "map_of (t_connections ?t) b \<noteq> None \<and> map_of (t_channel_config ?t) i \<noteq> None \<and> c_address c = b \<and> c_id c = i"
    if "map_of (t_channels ?t) (b, i) = Some c" for b i c
    using that assms by (auto simp: create_connection_maps t_wf_def split: option.splits if_splits)
  ultimately show ?thesis
    using assms by (auto simp: t_wf_def create_connection_maps(1) connection_create_def)
qed

lemma remove_connection_channels:
  "map_of (t_channels (remove_connection t a)) k =
     (if fst k = a \<and> map_of (t_channel_config t) (snd k) \<noteq> None then None else map_of (t_channels t) k)"
  by (simp add: remove_connection_def remove_configured_channels_def map_of_remove_channels map_of_eq_None_iff)

lemma remove_connection_wf:
  assumes "t_wf t"
  shows "t_wf (remove_connection t a)"
proof -
  let ?t = "remove_connection t a"
  have "distinct (map fst (t_connections ?t))" "distinct (map fst (t_channels ?t))"
    using assms by (simp_all add: t_wf_def remove_connection_def remove_configured_channels_def Let_def
        distinct_delete distinct_remove_channels)
  moreover have "map_of (t_connections ?t) b \<noteq> None \<and> map_of (t_channel_config ?t) i \<noteq> None \<and> c_address c = b \<and> c_id c = i"
    if "map_of (t_channels ?t) (b, i) = Some c" for b i c
  proof -
    have c: "map_of (t_channels t) (b, i) = Some c" "b \<noteq> a \<or> map_of (t_channel_config t) i = None"
      using that by (auto simp: remove_connection_channels split: if_splits)
    with assms show ?thesis unfolding t_wf_def by fastforce
  qed
  ultimately show ?thesis
    using assms by (auto simp: t_wf_def)
qed

lemma remove_addresses:
  assumes "t_wf t"
  shows "t_wf (fold (\<lambda>addr t. remove_connection t addr) as t)
     \<and> map_of (t_connections (fold (\<lambda>addr t. remove_connection t addr) as t)) =
         (\<lambda>a. if a \<in> set as then None else map_of (t_connections t) a)
     \<and> t_channel_config (fold (\<lambda>addr t. remove_connection t addr) as t) = t_channel_config t
     \<and> t_socket (fold (\<lambda>addr t. remove_connection t addr) as t) = t_socket t
     \<and> t_identities (fold (\<lambda>addr t. remove_connection t addr) as t) = t_identities t
     \<and> t_identity_to_address_map (fold (\<lambda>addr t. remove_connection t addr) as t) = t_identity_to_address_map t
     \<and> (\<forall>k. map_of (t_channels (fold (\<lambda>addr t. remove_connection t addr) as t)) k =
          (if fst k \<in> set as then None else map_of (t_channels t) k))"
  using assms
proof (induction as arbitrary: t)
  case (Cons a as)
  have wf: "t_wf (remove_connection t a)" by (rule remove_connection_wf [OF Cons.prems])
  have "map_of (t_channels (remove_connection t a)) k = (if fst k = a then None else map_of (t_channels t) k)" for k
  proof (cases "map_of (t_channels t) k")
    case (Some c)
    then have "map_of (t_channel_config t) (snd k) \<noteq> None" using Cons.prems by (cases k) (auto simp: t_wf_def)
    then show ?thesis by (simp add: remove_connection_channels)
  qed (simp add: remove_connection_channels)
  with Cons.IH [OF wf] show ?case by (auto simp: fun_eq_iff)
qed simp

text \<open>Removing an identity removes exactly its connections, and their channels.\<close>

lemma remove_connection_by_identity_ok:
  fixes t :: tachyon and i :: u32
  assumes "t_wf t"
  defines "t' \<equiv> remove_connection_by_identity t i"
  shows "t_wf t'"
    and "map_of (t_connections t') a = (case map_of (t_connections t) a of
      Some conn \<Rightarrow> if id_id (conn_identity conn) = i then None else Some conn | None \<Rightarrow> None)"
    and "map_of (t_channels t') k = (case map_of (t_connections t) (fst k) of
      Some conn \<Rightarrow> if id_id (conn_identity conn) = i then None else map_of (t_channels t) k | None \<Rightarrow> None)"
    and "t_channel_config t' = t_channel_config t" "t_socket t' = t_socket t" "t_identities t' = t_identities t"
    "t_identity_to_address_map t' = t_identity_to_address_map t"
proof -
  define as where "as = map conn_address (filter (\<lambda>conn. id_id (conn_identity conn) = i) (map snd (t_connections t)))"
  have mem: "a \<in> set as \<longleftrightarrow> (\<exists>conn. map_of (t_connections t) a = Some conn \<and> id_id (conn_identity conn) = i)" for a
  proof -
    have "(b, conn) \<in> set (t_connections t) \<longleftrightarrow> map_of (t_connections t) b = Some conn" for b conn
      using assms(1) by (simp add: t_wf_def)
    moreover have "conn_address conn = b" if "map_of (t_connections t) b = Some conn" for b conn
      using assms(1) that by (simp add: t_wf_def)
    ultimately show ?thesis unfolding as_def by (force simp: image_iff)
  qed
  note r = remove_addresses [OF assms(1), of as]
  have t': "t' = fold (\<lambda>addr t. remove_connection t addr) as t"
    by (simp add: t'_def remove_connection_by_identity_def as_def)
  show "t_wf t'" "t_channel_config t' = t_channel_config t" "t_socket t' = t_socket t" "t_identities t' = t_identities t"
    "t_identity_to_address_map t' = t_identity_to_address_map t"
    using r unfolding t' by blast+
  show "map_of (t_connections t') a = (case map_of (t_connections t) a of
      Some conn \<Rightarrow> if id_id (conn_identity conn) = i then None else Some conn | None \<Rightarrow> None)"
    using r unfolding t' by (simp add: mem split: option.split)
  have "map_of (t_channels t) k = None" if "map_of (t_connections t) (fst k) = None"
    using t_wf_channel(1) [OF assms(1)] that by (cases k; cases "map_of (t_channels t) k") fastforce+
  then show "map_of (t_channels t') k = (case map_of (t_connections t) (fst k) of
      Some conn \<Rightarrow> if id_id (conn_identity conn) = i then None else map_of (t_channels t) k | None \<Rightarrow> None)"
    using r unfolding t' by (cases k) (simp add: mem split: option.split)
qed

lemma AList_update_wf:
  assumes "t_wf t" "map_of (t_connections t) a = Some conn" "conn_address conn' = a" "conn_tachyon_id conn' = conn_tachyon_id conn"
  shows "t_wf (t\<lparr>t_connections := AList.update a conn' (t_connections t)\<rparr>)"
  using assms unfolding t_wf_def by (auto simp: update_conv' distinct_update)

lemma on_receive_connection_update_wf: "t_wf t \<Longrightarrow> t_wf (on_receive_connection_update now t a)"
  by (auto simp: on_receive_connection_update_def Let_def create_connection_wf AList_update_wf t_wf_connection
      split: option.split)

lemma validate_wf: "t_wf t \<Longrightarrow> t_wf (snd (validate_and_update_linked_connection now t a))"
  by (auto simp: validate_and_update_linked_connection_def Let_def AList_update_wf t_wf_connection split: option.split)

lemma set_identity_wf:
  assumes "t_wf t"
  shows "t_wf (set_identity t i s)"
  using remove_connection_by_identity_ok(1) [OF assms, of i] by (simp add: set_identity_def Let_def)

text \<open>The twelve bytes of an identity message.\<close>

definition identity_packet :: "u8 \<Rightarrow> u32 \<Rightarrow> u32 \<Rightarrow> bytes" where
  "identity_packet ty i s = ch_bytes \<lparr>ch_message_type = ty, ch_id = i, ch_session_id = s\<rparr> @ replicate 3 0"

lemma send_identity_message_eq:
  "send_identity_message os net t ty i s a =
     Some (case ts_socket (t_socket t) of Some fd \<Rightarrow> sent os fd (dest_of a) (identity_packet ty i s) net | None \<Rightarrow> net)"
proof -
  have w: "ch_write \<lparr>ch_message_type = ty, ch_id = i, ch_session_id = s\<rparr> (replicate 12 0) = Some (identity_packet ty i s)"
    by (simp add: ch_write_eq overwrite_def identity_packet_def)
  show ?thesis
    using ts_send_to_eq [of "t_socket t" _ "length (identity_packet ty i s)" "identity_packet ty i s" os net a] w
    by (simp add: send_identity_message_def ts_send_to_def split: option.split)
qed

lemmas identity_sends = send_identity_linked_def send_identity_unlinked_def send_link_identity_def send_unlink_identity_def
  send_identity_message_eq

subsection \<open>Links\<close>

text \<open>
  A connection that holds an identity holds its current session, no other connection holds
  the identity, and the reverse map leads to it. Identity 0 stands for no identity.
\<close>

definition links_ok :: "tachyon \<Rightarrow> bool" where
  "links_ok t \<longleftrightarrow> (\<forall>a conn. map_of (t_connections t) a = Some conn \<longrightarrow> id_id (conn_identity conn) \<noteq> 0 \<longrightarrow>
     map_of (t_identities t) (id_id (conn_identity conn)) = Some (id_session_id (conn_identity conn))
     \<and> map_of (t_identity_to_address_map t) (id_id (conn_identity conn)) = Some a)"

lemma links_ok_frame [simp]:
  "links_ok (t\<lparr>t_channels := x1\<rparr>) = links_ok t" "links_ok (t\<lparr>t_channel_config := x2\<rparr>) = links_ok t"
  "links_ok (t\<lparr>t_events := x3\<rparr>) = links_ok t" "links_ok (t\<lparr>t_socket := x4\<rparr>) = links_ok t"
  "links_ok (t\<lparr>t_stats := x5\<rparr>) = links_ok t" "links_ok (t\<lparr>t_identity := x6\<rparr>) = links_ok t"
  "links_ok (t\<lparr>t_unreliable_sender := x7\<rparr>) = links_ok t" "links_ok (t\<lparr>t_last_identity_link_request := x8\<rparr>) = links_ok t"
  "links_ok (t\<lparr>t_socket_receive_buffer := x9\<rparr>) = links_ok t"
  by (simp_all add: links_ok_def)

lemma links_unique:
  assumes "links_ok t" "map_of (t_connections t) a = Some ca" "map_of (t_connections t) b = Some cb"
    "id_id (conn_identity ca) = id_id (conn_identity cb)" "id_id (conn_identity ca) \<noteq> 0"
  shows "a = b"
  using assms unfolding links_ok_def by (metis option.inject)

lemma links_okI:
  assumes "links_ok t" "t_identities t' = t_identities t" "t_identity_to_address_map t' = t_identity_to_address_map t"
    "\<And>a conn. map_of (t_connections t') a = Some conn \<Longrightarrow> id_id (conn_identity conn) \<noteq> 0 \<Longrightarrow>
       \<exists>conn'. map_of (t_connections t) a = Some conn' \<and> conn_identity conn' = conn_identity conn"
  shows "links_ok t'"
  using assms unfolding links_ok_def by metis

lemma remove_by_identity_links:
  assumes "t_wf t" "links_ok t"
  shows "links_ok (remove_connection_by_identity t i)"
    and "map_of (t_connections (remove_connection_by_identity t i)) a = Some conn \<Longrightarrow> id_id (conn_identity conn) \<noteq> i"
  using remove_connection_by_identity_ok(2) [OF assms(1), of i]
  by (auto intro!: links_okI [OF assms(2)] simp: remove_connection_by_identity_ok(6,7) [OF assms(1)]
      split: option.splits if_splits)

lemma set_identity_links:
  assumes "t_wf t" "links_ok t"
  shows "links_ok (set_identity t i s)"
  using remove_by_identity_links [OF assms, of i]
  by (auto simp: set_identity_def Let_def links_ok_def update_conv' delete_conv')

lemma create_connection_links:
  assumes "links_ok t" "id_id idn = 0"
  shows "links_ok (create_connection now t a idn)"
  by (rule links_okI [OF assms(1)]) (auto simp: create_connection_maps(1) assms(2) split: if_splits)

lemma on_receive_connection_update_links:
  assumes "links_ok t"
  shows "links_ok (on_receive_connection_update now t a)"
  by (auto simp: on_receive_connection_update_def create_connection_links [OF assms] identity_default_def Let_def update_conv'
      intro!: links_okI [OF assms] split: option.split if_splits)

lemma validate_links:
  assumes "links_ok t"
  shows "links_ok (snd (validate_and_update_linked_connection now t a))"
  by (auto simp: validate_and_update_linked_connection_def Let_def update_conv' assms
      intro!: links_okI [OF assms] split: option.split if_splits)

lemma try_link_step:
  fixes now :: nat
  assumes wf: "t_wf t" and i: "map_of (t_identities t) i = Some s"
    and new: "get_connection_identity t a = idn" "id_id idn \<noteq> i \<or> id_session_id idn \<noteq> s"
  defines "t' \<equiv> (create_connection now (remove_connection_by_identity t i) a \<lparr>id_id = i, id_session_id = s, id_linked = 0\<rparr>)
     \<lparr>t_identity_to_address_map := AList.update i a (t_identity_to_address_map t)\<rparr>"
  shows "try_link_identity os now net t a i s = Some (True, t',
       case ts_socket (t_socket t) of Some fd \<Rightarrow> sent os fd (dest_of a) (identity_packet 8 0 0) net | None \<Rightarrow> net)"
    and "t_wf t'" and "links_ok t \<Longrightarrow> links_ok t'"
proof -
  let ?r = "remove_connection_by_identity t i"
  note r = remove_connection_by_identity_ok [OF wf, of i]
  show "try_link_identity os now net t a i s = Some (True, t',
       case ts_socket (t_socket t) of Some fd \<Rightarrow> sent os fd (dest_of a) (identity_packet 8 0 0) net | None \<Rightarrow> net)"
    using i new r(5,7) by (auto simp: try_link_identity_def identity_sends t'_def Let_def)
  show "t_wf t'"
    using create_connection_wf [OF r(1), of now a] by (simp add: t'_def)
  show "links_ok t'" if "links_ok t"
    using remove_by_identity_links [OF wf that, of i] i r(6,7)
    by (auto simp: links_ok_def t'_def create_connection_maps(1) connection_create_def update_conv')
qed

lemma try_unlink_eq:
  "try_unlink_identity os net t a i s =
     (let reply = (case ts_socket (t_socket t) of Some fd \<Rightarrow> sent os fd (dest_of a) (identity_packet 9 0 0) net | None \<Rightarrow> net)
      in case map_of (t_identities t) i of
           Some s' \<Rightarrow> if s \<noteq> s' then Some (False, t, net)
             else Some (True, (remove_connection_by_identity t i)
               \<lparr>t_identity_to_address_map := AList.delete i (t_identity_to_address_map t)\<rparr>, reply)
         | None \<Rightarrow> Some (False, t, reply))"
  if "t_wf t"
  using remove_connection_by_identity_ok(5,7) [OF that, of i]
  by (auto simp: try_unlink_identity_def identity_sends Let_def split: option.split)

lemma remove_link_step:
  fixes i :: u32
  assumes "t_wf t" "links_ok t"
  defines "t' \<equiv> (remove_connection_by_identity t i)\<lparr>t_identity_to_address_map := AList.delete i (t_identity_to_address_map t)\<rparr>"
  shows "t_wf t'" "links_ok t'"
  using remove_connection_by_identity_ok(1) [OF assms(1), of i] remove_by_identity_links [OF assms(1,2), of i]
    remove_connection_by_identity_ok(7) [OF assms(1), of i]
  by (auto simp: t'_def t_wf_def links_ok_def delete_conv')

lemma try_link_cases:
  assumes "t_wf t" "links_ok t" "try_link_identity os now net t a i s = Some (b, t', net')"
  shows "t_wf t' \<and> links_ok t' \<and> t_socket t' = t_socket t"
proof (cases "map_of (t_identities t) i = Some s \<and>
    (id_id (get_connection_identity t a) \<noteq> i \<or> id_session_id (get_connection_identity t a) \<noteq> s)")
  case True
  then show ?thesis
    using try_link_step(1) [where a = a and os = os and now = now and net = net, OF assms(1) _ refl]
      try_link_step(2,3) [where a = a and now = now, OF assms(1) _ refl] assms(2,3) remove_connection_by_identity_ok(5) [OF assms(1), of i]
    by auto
next
  case False
  then show ?thesis using assms by (auto simp: try_link_identity_def Let_def split: option.splits if_splits)
qed

lemma try_unlink_cases:
  assumes "t_wf t" "links_ok t" "try_unlink_identity os net t a i s = Some (b, t', net')"
  shows "t_wf t' \<and> links_ok t' \<and> t_socket t' = t_socket t"
  using assms remove_link_step [OF assms(1,2), of i] remove_connection_by_identity_ok(5) [OF assms(1), of i]
  by (auto simp: try_unlink_eq [OF assms(1)] Let_def split: option.splits if_splits)

lemma create_sel [simp]:
  "t_connections (create_with_id now cfg i) = []" "t_channels (create_with_id now cfg i) = []"
  "t_identities (create_with_id now cfg i) = []" "t_identity_to_address_map (create_with_id now cfg i) = []"
  "t_socket (create_with_id now cfg i) = ts_create" "t_id (create_with_id now cfg i) = i"
  "t_channel_config (create_with_id now cfg i) = [(1, cc_default_ordered), (2, cc_default_unordered)]"
  "t_config (create_with_id now cfg i) = cfg"
  by (simp_all add: create_with_id_def)

lemma create_wf [simp]: "t_wf (create_with_id now cfg i)" "links_ok (create_with_id now cfg i)"
  by (simp_all add: t_wf_def links_ok_def)

lemma set_identity_sel [simp]: "t_socket (set_identity t i s) = t_socket t"
  if "t_wf t"
  using remove_connection_by_identity_ok(5) [OF that, of i] by (simp add: set_identity_def Let_def)

lemma identities_set_identity:
  "t_wf t \<Longrightarrow> map_of (t_identities (set_identity t i s)) =
     (map_of (t_identities t))(i := if s = 0 then None else Some s)"
  by (simp add: set_identity_def Let_def remove_connection_by_identity_ok(6) update_conv' delete_conv' fun_eq_iff)

subsection \<open>Properties\<close>

text \<open>
  C18. Linking moves an identity: when the session is the current one and the address does not
  hold it yet, \<open>try_link_identity\<close> succeeds and answers with one IDENTITY_LINKED message;
  afterwards the address, and no other, is connected under the identity, with the
  session and with every configured channel; an address that held the identity before has
  neither connection nor channels left; every other connection and its channels are
  unchanged.
\<close>

theorem link_exclusive:
  assumes "t_wf t" "links_ok t" "map_of (t_identities t) i = Some s" "i \<noteq> 0" "ts_socket (t_socket t) = Some fd"
    "id_id (get_connection_identity t a) \<noteq> i"
  shows "\<exists>t'. try_link_identity os now net t a i s = Some (True, t', sent os fd (dest_of a) (identity_packet 8 0 0) net)
    \<and> t_wf t' \<and> links_ok t'
    \<and> get_connection_identity t' a = \<lparr>id_id = i, id_session_id = s, id_linked = 0\<rparr>
    \<and> get_connection_by_identity t' i = get_connection t' a
    \<and> (\<forall>c. get_channel t' a c \<noteq> None \<longleftrightarrow> map_of (t_channel_config t) c \<noteq> None)
    \<and> (\<forall>b. b \<noteq> a \<longrightarrow> id_id (get_connection_identity t b) = i \<longrightarrow>
          get_connection t' b = None \<and> (\<forall>c. get_channel t' b c = None))
    \<and> (\<forall>b. b \<noteq> a \<longrightarrow> id_id (get_connection_identity t b) \<noteq> i \<longrightarrow>
          get_connection t' b = get_connection t b \<and> (\<forall>c. get_channel t' b c = get_channel t b c))"
proof -
  let ?r = "remove_connection_by_identity t i"
  define t' where "t' = (create_connection now ?r a \<lparr>id_id = i, id_session_id = s, id_linked = 0\<rparr>)
     \<lparr>t_identity_to_address_map := AList.update i a (t_identity_to_address_map t)\<rparr>"
  note r = remove_connection_by_identity_ok [OF assms(1), of i]
  have step: "try_link_identity os now net t a i s = Some (True, t', sent os fd (dest_of a) (identity_packet 8 0 0) net)"
    "t_wf t'" "links_ok t'"
    using try_link_step(1) [where a = a and os = os and now = now and net = net, OF assms(1,3) refl]
      try_link_step(2,3) [where a = a and now = now, OF assms(1,3) refl] assms(2,5,6) by (simp_all add: t'_def)
  have conns: "map_of (t_connections t') = (map_of (t_connections ?r))(a \<mapsto> (connection_create a (t_id ?r))
      \<lparr>conn_identity := \<lparr>id_id = i, id_session_id = s, id_linked = 0\<rparr>, conn_received_at := time_since_start now ?r\<rparr>)"
    by (simp add: t'_def create_connection_maps(1))
  have chans: "map_of (t_channels t') (b, c) = (case map_of (t_channels ?r) (b, c) of Some x \<Rightarrow> Some x
      | None \<Rightarrow> if b = a then map_option (channel_create c a) (map_of (t_channel_config t) c) else None)" for b c
    by (simp add: t'_def create_connection_maps(2) r(4) split: option.split)
  have gone: "map_of (t_channels ?r) (b, c) = None" if "map_of (t_connections t) b = None" for b c
    using that by (simp add: r(3))
  have cfg: "map_of (t_channel_config t) c \<noteq> None" if "map_of (t_channels ?r) (b, c) \<noteq> None" for b c
    using that t_wf_channel(2) [OF r(1)] r(4) by fastforce
  have here: "get_channel t' a c \<noteq> None \<longleftrightarrow> map_of (t_channel_config t) c \<noteq> None" for c
    using cfg [of a c] by (auto simp: get_channel_def chans split: option.split)
  have old: "get_connection t' b = None \<and> (\<forall>c. get_channel t' b c = None)"
    if "b \<noteq> a" "id_id (get_connection_identity t b) = i" for b
    using that assms(4) by (auto simp: get_connection_def get_channel_def get_connection_identity_def identity_default_def
        conns chans r(2,3) split: option.splits)
  have other: "get_connection t' b = get_connection t b \<and> (\<forall>c. get_channel t' b c = get_channel t b c)"
    if "b \<noteq> a" "id_id (get_connection_identity t b) \<noteq> i" for b
  proof (cases "map_of (t_connections t) b")
    case None
    then have "map_of (t_channels t) (b, c) = None" for c using t_wf_channel(1) [OF assms(1), of b c] by fastforce
    with None that show ?thesis by (simp add: get_connection_def get_channel_def conns chans r(2,3))
  next
    case (Some conn)
    with that show ?thesis
      by (auto simp: get_connection_def get_channel_def get_connection_identity_def conns chans r(2,3) split: option.split)
  qed
  have "get_connection_identity t' a = \<lparr>id_id = i, id_session_id = s, id_linked = 0\<rparr>"
    unfolding get_connection_identity_def conns by (simp add: connection_create_def)
  moreover have "get_connection_by_identity t' i = get_connection t' a"
    by (simp add: t'_def get_connection_by_identity_def get_connection_def update_conv')
  ultimately show ?thesis using step here old other by blast
qed


theorem link_exclusive_witness:
  "\<exists>t t'. try_link_identity os_ideal 5 net_empty t (na_localhost 100) 1 10 =
        Some (True, t', sent os_ideal 0 (dest_of (na_localhost 100)) (identity_packet 8 0 0) net_empty)
     \<and> get_connection_identity t' (na_localhost 100) = \<lparr>id_id = 1, id_session_id = 10, id_linked = 0\<rparr>
     \<and> get_channel t' (na_localhost 100) 1 \<noteq> None"
proof -
  let ?c = "(create_with_id 0 \<lparr>tcf_use_identity = 1, tcf_drop_packet_chance = 0, tcf_drop_reliable_only = 0\<rparr> 0)
     \<lparr>t_socket := ts_create\<lparr>ts_socket := Some 0\<rparr>\<rparr>"
  let ?t = "set_identity ?c 1 10"
  have wf: "t_wf ?c" "links_ok ?c" by simp_all
  have "map_of (t_identities ?t) 1 = Some 10" "ts_socket (t_socket ?t) = Some 0"
    using wf by (simp_all add: identities_set_identity)
  moreover have "id_id (get_connection_identity ?t (na_localhost 100)) \<noteq> 1" "map_of (t_channel_config ?t) 1 \<noteq> None"
    by (simp_all add: set_identity_def Let_def remove_connection_by_identity_def get_connection_identity_def identity_default_def)
  moreover have "(1 :: u32) \<noteq> 0" by simp
  ultimately obtain t' where "try_link_identity os_ideal 5 net_empty ?t (na_localhost 100) 1 10 =
      Some (True, t', sent os_ideal 0 (dest_of (na_localhost 100)) (identity_packet 8 0 0) net_empty)"
    "get_connection_identity t' (na_localhost 100) = \<lparr>id_id = 1, id_session_id = 10, id_linked = 0\<rparr>"
    "get_channel t' (na_localhost 100) 1 \<noteq> None"
    using link_exclusive [where t = ?t and i = 1 and s = 10 and fd = 0 and a = "na_localhost 100" and os = os_ideal and now = 5
        and net = net_empty, OF set_identity_wf [OF wf(1)] set_identity_links [OF wf]]
    by blast
  then show ?thesis by blast
qed

text \<open>
  C23. A link request that must not change anything does not: with an unknown identity or a
  session that is not the current one it is refused and nothing is sent; from the address
  that holds the identity already it is accepted, but the answer is not repeated, so a
  client whose IDENTITY_LINKED message was lost is never told that it is linked.
\<close>

theorem link_without_effect:
  "(map_of (t_identities t) i \<noteq> Some s \<longrightarrow> try_link_identity os now net t a i s = Some (False, t, net)) \<and>
   (map_of (t_identities t) i = Some s \<longrightarrow> id_id (get_connection_identity t a) = i \<longrightarrow>
      id_session_id (get_connection_identity t a) = s \<longrightarrow> try_link_identity os now net t a i s = Some (True, t, net))"
  by (auto simp: try_link_identity_def Let_def split: option.split)

theorem link_without_effect_witness:
  "let t = (create_with_id 0 \<lparr>tcf_use_identity = 1, tcf_drop_packet_chance = 0, tcf_drop_reliable_only = 0\<rparr> 0)
        \<lparr>t_identities := [(1, 10)], t_connections := [(na_localhost 100,
           (connection_create (na_localhost 100) 0)\<lparr>conn_identity := \<lparr>id_id = 1, id_session_id = 10, id_linked = 0\<rparr>\<rparr>)]\<rparr>
   in try_link_identity os_ideal 5 net_empty t (na_localhost 200) 1 11 = Some (False, t, net_empty)
      \<and> try_link_identity os_ideal 5 net_empty t (na_localhost 100) 1 10 = Some (True, t, net_empty)"
  using link_without_effect [of "(create_with_id 0 \<lparr>tcf_use_identity = 1, tcf_drop_packet_chance = 0, tcf_drop_reliable_only = 0\<rparr> 0)
        \<lparr>t_identities := [(1, 10)], t_connections := [(na_localhost 100,
           (connection_create (na_localhost 100) 0)\<lparr>conn_identity := \<lparr>id_id = 1, id_session_id = 10, id_linked = 0\<rparr>\<rparr>)]\<rparr>" 1 11
      os_ideal 5 net_empty "na_localhost 200"]
    link_without_effect [of "(create_with_id 0 \<lparr>tcf_use_identity = 1, tcf_drop_packet_chance = 0, tcf_drop_reliable_only = 0\<rparr> 0)
        \<lparr>t_identities := [(1, 10)], t_connections := [(na_localhost 100,
           (connection_create (na_localhost 100) 0)\<lparr>conn_identity := \<lparr>id_id = 1, id_session_id = 10, id_linked = 0\<rparr>\<rparr>)]\<rparr>" 1 10
      os_ideal 5 net_empty "na_localhost 100"]
  by (simp add: get_connection_identity_def Let_def)

end
