(* ===== verification/Tachyon.thy ===== *)
theory Tachyon
  imports Tachyon_State
begin

text \<open>
  \<^verbatim>\<open>src/src/tachyon.rs\<close> and \<^verbatim>\<open>src/src/tachyon/receive_result.rs\<close>: the operations of an
  endpoint, from the application's calls down to the socket. What they use from outside the
  repository is collected in a record: the operating system, the random numbers that
  simulate packet loss, the crate \<open>varuint\<close>, and the orders in which the hash maps of nacked
  numbers and of channels are walked.
\<close>

subsection \<open>Results\<close>

datatype receive_result =
    RR_Reliable network_address u8
  | RR_Error
  | RR_Empty
  | RR_Retry
  | RR_ChannelError
  | RR_UnReliable nat network_address

abbreviation (input) RECEIVE_ERROR_UNKNOWN :: u32 where "RECEIVE_ERROR_UNKNOWN \<equiv> 1"
abbreviation (input) RECEIVE_ERROR_CHANNEL :: u32 where "RECEIVE_ERROR_CHANNEL \<equiv> 2"

record tachyon_receive_result =
  trr_channel :: u16
  trr_address :: network_address
  trr_length :: u32
  trr_error :: u32

definition trr_default :: tachyon_receive_result where
  "trr_default = \<lparr>trr_channel = 0, trr_address = na_default, trr_length = 0, trr_error = 0\<rparr>"

record send_target =
  tgt_identity_id :: u32
  tgt_address :: network_address

record env =
  e_os :: os
  e_draw :: "nat \<Rightarrow> u64"
  e_vw :: "nat \<Rightarrow> bytes"
  e_vr :: "nat \<Rightarrow> bytes \<Rightarrow> (nat \<times> nat) option"
  e_nack_order :: "network_address hash_iter"
  e_channel_order :: "channel_key list \<Rightarrow> channel_key list"

subsection \<open>Starting\<close>

definition create_unreliable_sender :: "os \<Rightarrow> network \<Rightarrow> tachyon \<Rightarrow> unreliable_sender option option" where
  "create_unreliable_sender os net self = do {
     socket \<leftarrow> clone_socket os net (t_socket self);
     Some (if socket = None then None else Some (usnd_create socket)) }"

definition tachyon_bind :: "os \<Rightarrow> network \<Rightarrow> tachyon \<Rightarrow> network_address \<Rightarrow> (bool \<times> tachyon \<times> network) option" where
  "tachyon_bind os net self address = do {
     (r, socket, net) \<leftarrow> bind_socket os net (t_socket self) address;
     let self = self\<lparr>t_socket := socket\<rparr>;
     case r of
       CC_Success \<Rightarrow> do {
         sender \<leftarrow> create_unreliable_sender os net self;
         Some (True, self\<lparr>t_unreliable_sender := sender\<rparr>, net) }
     | CC_Error \<Rightarrow> Some (False, self, net) }"

definition tachyon_connect ::
  "os \<Rightarrow> nat \<Rightarrow> network \<Rightarrow> tachyon \<Rightarrow> network_address \<Rightarrow> (bool \<times> tachyon \<times> network) option" where
  "tachyon_connect os now net self address = do {
     (r, socket, net) \<leftarrow> connect_socket os net (t_socket self) address;
     let self = self\<lparr>t_socket := socket\<rparr>;
     case r of
       CC_Success \<Rightarrow> do {
         let local_address = na_default;
         let self = create_connection now self local_address identity_default;
         sender \<leftarrow> create_unreliable_sender os net self;
         Some (True, self\<lparr>t_unreliable_sender := sender\<rparr>, net) }
     | CC_Error \<Rightarrow> Some (False, self, net) }"

subsection \<open>Statistics and update\<close>

definition get_combined_stats :: "tachyon \<Rightarrow> tachyon_stats \<times> tachyon" where
  "get_combined_stats self =
     (let channels = map (\<lambda>(key, channel). (key, update_stats channel)) (t_channels self);
          channel_stats = fold (\<lambda>(key, channel) stats. cs_add_from stats (c_stats channel)) channels cs_default
      in ((t_stats self)\<lparr>tst_channel_stats := channel_stats\<rparr>, self\<lparr>t_channels := channels\<rparr>))"

fun update_channels ::
  "env \<Rightarrow> tachyon_socket \<Rightarrow> channel_key list \<Rightarrow> (channel_key \<times> channel) list \<Rightarrow> network
     \<Rightarrow> ((channel_key \<times> channel) list \<times> network) option" where
  "update_channels env socket [] channels net = Some (channels, net)"
| "update_channels env socket (key # keys) channels net =
     (case map_of channels key of
        Some channel \<Rightarrow> do {
          (channel, net) \<leftarrow> channel_update (e_os env) (e_vw env) (e_nack_order env) channel socket net;
          update_channels env socket keys (AList.update key channel channels) net }
      | None \<Rightarrow> update_channels env socket keys channels net)"

definition tachyon_update :: "env \<Rightarrow> nat \<Rightarrow> network \<Rightarrow> tachyon \<Rightarrow> (tachyon \<times> network) option" where
  "tachyon_update env now net self = do {
     (self, net) \<leftarrow> client_identity_update (e_os env) now net self;
     (channels, net) \<leftarrow> update_channels env (t_socket self) (e_channel_order env (map fst (t_channels self)))
       (t_channels self) net;
     Some (self\<lparr>t_channels := channels\<rparr>, net) }"

subsection \<open>Receiving\<close>

definition receive_published_channel_id ::
  "tachyon \<Rightarrow> bytes \<Rightarrow> network_address \<Rightarrow> u8 \<Rightarrow> (u32 \<times> tachyon \<times> bytes) option" where
  "receive_published_channel_id self receive_buffer address channel_id =
     (case map_of (t_channels self) (address, channel_id) of
        Some channel \<Rightarrow> do {
          ((len, _), channel, receive_buffer) \<leftarrow> receive_published channel receive_buffer;
          Some (len, self\<lparr>t_channels := AList.update (address, channel_id) channel (t_channels self)\<rparr>, receive_buffer) }
      | None \<Rightarrow> Some (0, self, receive_buffer))"

fun receive_published_keys ::
  "channel_key list \<Rightarrow> tachyon \<Rightarrow> bytes \<Rightarrow> (tachyon_receive_result \<times> tachyon \<times> bytes) option" where
  "receive_published_keys [] self receive_buffer = Some (trr_default, self, receive_buffer)"
| "receive_published_keys (key # keys) self receive_buffer =
     (case map_of (t_channels self) key of
        Some channel \<Rightarrow> do {
          ((len, address), channel, receive_buffer) \<leftarrow> receive_published channel receive_buffer;
          let self = self\<lparr>t_channels := AList.update key channel (t_channels self)\<rparr>;
          if len > 0
          then Some (trr_default\<lparr>trr_length := len, trr_address := address, trr_channel := ucast (c_id channel)\<rparr>,
                     self, receive_buffer)
          else receive_published_keys keys self receive_buffer }
      | None \<Rightarrow> receive_published_keys keys self receive_buffer)"

definition receive_published_all_channels ::
  "env \<Rightarrow> tachyon \<Rightarrow> bytes \<Rightarrow> (tachyon_receive_result \<times> tachyon \<times> bytes) option" where
  "receive_published_all_channels env self receive_buffer =
     receive_published_keys (e_channel_order env (map fst (t_channels self))) self receive_buffer"

text \<open>
  The first half of \<open>receive_from_socket\<close>, up to the end of the match on what the socket
  returned: an early result, or the header, the sender and the length of a datagram that
  belongs to a channel or to the application.
\<close>

definition receive_gate ::
  "env \<Rightarrow> nat \<Rightarrow> network \<Rightarrow> tachyon
     \<Rightarrow> ((receive_result + header \<times> network_address \<times> nat) \<times> tachyon \<times> network) option" where
  "receive_gate env now net self = do {
     (socket_result, socket, net, data) \<leftarrow> ts_receive (e_draw env) net (t_socket self) (t_socket_receive_buffer self)
       (tcf_drop_packet_chance (t_config self)) (tcf_drop_reliable_only (t_config self) = 1);
     let self = self\<lparr>t_socket := socket, t_socket_receive_buffer := data\<rparr>;
     case socket_result of
       SR_Success received_len address \<Rightarrow> do {
         header \<leftarrow> header_read (t_socket_receive_buffer self);
         if ts_is_server (t_socket self) then
           if tcf_use_identity (t_config self) = 1 then
             if h_message_type header = MESSAGE_TYPE_LINK_IDENTITY then do {
               ch \<leftarrow> ch_read (t_socket_receive_buffer self);
               (ok, self, net) \<leftarrow> try_link_identity (e_os env) now net self address (ch_id ch) (ch_session_id ch);
               let self = (if ok then fire_identity_event self LINK_IDENTITY_EVENT address (ch_id ch) (ch_session_id ch) else self);
               Some (Inl RR_Retry, self, net) }
             else if h_message_type header = MESSAGE_TYPE_UNLINK_IDENTITY then do {
               ch \<leftarrow> ch_read (t_socket_receive_buffer self);
               (ok, self, net) \<leftarrow> try_unlink_identity (e_os env) net self address (ch_id ch) (ch_session_id ch);
               let self = (if ok then fire_identity_event self UNLINK_IDENTITY_EVENT address (ch_id ch) (ch_session_id ch) else self);
               Some (Inl RR_Retry, self, net) }
             else (case validate_and_update_linked_connection now self address of
                 (False, self) \<Rightarrow> Some (Inl RR_Retry, self, net)
               | (True, self) \<Rightarrow> Some (Inr (header, address, received_len), self, net))
           else Some (Inr (header, address, received_len), on_receive_connection_update now self address, net)
         else if tcf_use_identity (t_config self) = 1 then
           if h_message_type header = MESSAGE_TYPE_IDENTITY_LINKED then
             Some (Inl RR_Retry, fire_identity_event (self\<lparr>t_identity := identity_set_linked (t_identity self) 1\<rparr>)
               IDENTITY_LINKED_EVENT address 0 0, net)
           else if h_message_type header = MESSAGE_TYPE_IDENTITY_UNLINKED then
             Some (Inl RR_Retry, fire_identity_event (self\<lparr>t_identity := identity_set_linked (t_identity self) 0\<rparr>)
               IDENTITY_UNLINKED_EVENT address 0 0, net)
           else if \<not> identity_is_linked (t_identity self) then Some (Inl RR_Retry, self, net)
           else Some (Inr (header, address, received_len), self, net)
         else Some (Inr (header, address, received_len), self, net) }
     | SR_Empty \<Rightarrow> Some (Inl RR_Empty, self, net)
     | SR_Error \<Rightarrow> Some (Inl RR_Error, self, net)
     | SR_Dropped \<Rightarrow>
         Some (Inl RR_Retry, self\<lparr>t_stats := (t_stats self)\<lparr>tst_packets_dropped := tst_packets_dropped (t_stats self) + 1\<rparr>\<rparr>, net) }"

text \<open>The second half: what a channel does with its datagram.\<close>

definition channel_receive ::
  "env \<Rightarrow> nat \<Rightarrow> channel \<Rightarrow> header \<Rightarrow> network_address \<Rightarrow> bytes \<Rightarrow> nat \<Rightarrow> (receive_result \<times> channel) option" where
  "channel_receive env now channel header address data received_len = do {
     let channel = channel\<lparr>c_stats := (c_stats channel)
       \<lparr>cs_bytes_received := cs_bytes_received (c_stats channel) + word_of_nat received_len\<rparr>\<rparr>;
     if h_message_type header = MESSAGE_TYPE_NONE then do {
       channel \<leftarrow> process_none_message channel (h_sequence header) data received_len;
       Some (RR_Retry, channel) }
     else if h_message_type header = MESSAGE_TYPE_NACK then do {
       channel \<leftarrow> process_nack_message (e_vr env) channel address data;
       Some (RR_Retry, channel) }
     else if h_message_type header = MESSAGE_TYPE_FRAGMENT then do {
       channel \<leftarrow> process_fragment_message now channel (h_sequence header) data received_len;
       Some (RR_Retry, channel) }
     else if h_message_type header = MESSAGE_TYPE_RELIABLE \<or> h_message_type header = MESSAGE_TYPE_RELIABLE_WITH_NACK then do {
       channel \<leftarrow> (if h_message_type header = MESSAGE_TYPE_RELIABLE_WITH_NACK
         then process_single_nack channel address data else Some channel);
       (accepted, receiver) \<leftarrow> receive_packet (c_receiver channel) (h_sequence header) data received_len;
       let channel = channel\<lparr>c_receiver := receiver\<rparr>;
       Some (if accepted
         then (RR_Reliable address (c_id channel),
               channel\<lparr>c_stats := (c_stats channel)\<lparr>cs_received := cs_received (c_stats channel) + 1\<rparr>\<rparr>)
         else (RR_Retry, channel)) }
     else Some (RR_Error, channel) }"

definition receive_from_socket :: "env \<Rightarrow> nat \<Rightarrow> network \<Rightarrow> tachyon \<Rightarrow> (receive_result \<times> tachyon \<times> network) option" where
  "receive_from_socket env now net self = do {
     (gate, self, net) \<leftarrow> receive_gate env now net self;
     case gate of
       Inl result \<Rightarrow> Some (result, self, net)
     | Inr (header, address, received_len) \<Rightarrow>
         if h_message_type header = MESSAGE_TYPE_UNRELIABLE
         then Some (RR_UnReliable received_len address,
                    self\<lparr>t_stats := (t_stats self)\<lparr>tst_unreliable_received := tst_unreliable_received (t_stats self) + 1\<rparr>\<rparr>, net)
         else (case map_of (t_channels self) (address, h_channel header) of
             None \<Rightarrow> Some (RR_ChannelError, self, net)
           | Some channel \<Rightarrow> do {
               (result, channel) \<leftarrow> channel_receive env now channel header address (t_socket_receive_buffer self) received_len;
               Some (result, self\<lparr>t_channels := AList.update (address, h_channel header) channel (t_channels self)\<rparr>, net) }) }"

text \<open>One round of the loop: \<open>Inl\<close> returns, \<open>Inr True\<close> goes on, \<open>Inr False\<close> breaks.\<close>

definition receive_round ::
  "env \<Rightarrow> nat \<Rightarrow> network \<Rightarrow> tachyon \<Rightarrow> bytes \<Rightarrow> ((tachyon_receive_result + bool) \<times> tachyon \<times> network \<times> bytes) option" where
  "receive_round env now net self receive_buffer = do {
     (receive_result, self, net) \<leftarrow> receive_from_socket env now net self;
     case receive_result of
       RR_Reliable socket_addr channel_id \<Rightarrow> do {
         (published, self, receive_buffer) \<leftarrow> receive_published_channel_id self receive_buffer socket_addr channel_id;
         if published > 0
         then Some (Inl (trr_default\<lparr>trr_channel := ucast channel_id, trr_length := published, trr_address := socket_addr\<rparr>),
                    self, net, receive_buffer)
         else Some (Inr True, self, net, receive_buffer) }
     | RR_UnReliable received_len socket_addr \<Rightarrow> do {
         len \<leftarrow> usize_sub received_len 1;
         src \<leftarrow> slice (t_socket_receive_buffer self) 1 received_len;
         receive_buffer \<leftarrow> copy_into receive_buffer 0 len src;
         Some (Inl (trr_default\<lparr>trr_length := word_of_nat len, trr_address := socket_addr\<rparr>), self, net, receive_buffer) }
     | RR_Empty \<Rightarrow> Some (Inr False, self, net, receive_buffer)
     | RR_Retry \<Rightarrow> Some (Inr True, self, net, receive_buffer)
     | RR_Error \<Rightarrow> Some (Inl (trr_default\<lparr>trr_error := RECEIVE_ERROR_UNKNOWN\<rparr>), self, net, receive_buffer)
     | RR_ChannelError \<Rightarrow> Some (Inl (trr_default\<lparr>trr_error := RECEIVE_ERROR_CHANNEL\<rparr>), self, net, receive_buffer) }"

fun receive_rounds ::
  "nat \<Rightarrow> env \<Rightarrow> nat \<Rightarrow> network \<Rightarrow> tachyon \<Rightarrow> bytes \<Rightarrow> (tachyon_receive_result option \<times> tachyon \<times> network \<times> bytes) option" where
  "receive_rounds 0 env now net self receive_buffer = Some (None, self, net, receive_buffer)"
| "receive_rounds (Suc n) env now net self receive_buffer = do {
     (r, self, net, receive_buffer) \<leftarrow> receive_round env now net self receive_buffer;
     case r of
       Inl result \<Rightarrow> Some (Some result, self, net, receive_buffer)
     | Inr go_on \<Rightarrow> if go_on then receive_rounds n env now net self receive_buffer
         else Some (None, self, net, receive_buffer) }"

definition receive_loop ::
  "env \<Rightarrow> nat \<Rightarrow> network \<Rightarrow> tachyon \<Rightarrow> bytes \<Rightarrow> (tachyon_receive_result \<times> tachyon \<times> network \<times> bytes) option" where
  "receive_loop env now net self receive_buffer = do {
     (r, self, net, receive_buffer) \<leftarrow> receive_rounds 100 env now net self receive_buffer;
     case r of
       Some result \<Rightarrow> Some (result, self, net, receive_buffer)
     | None \<Rightarrow> do {
         (result, self, receive_buffer) \<leftarrow> receive_published_all_channels env self receive_buffer;
         Some (result, self, net, receive_buffer) } }"

subsection \<open>Sending\<close>

definition send_unreliable ::
  "os \<Rightarrow> network \<Rightarrow> tachyon \<Rightarrow> network_address \<Rightarrow> bytes \<Rightarrow> nat \<Rightarrow> (send_result \<times> tachyon \<times> network) option" where
  "send_unreliable os net self address data body_len =
     (if \<not> can_send self then Some (sres_default\<lparr>sres_error := SEND_ERROR_IDENTITY\<rparr>, self, net)
      else case t_unreliable_sender self of
        Some sender \<Rightarrow> do {
          (result, sender, net) \<leftarrow> usnd_send os net sender address data body_len;
          let self = self\<lparr>t_unreliable_sender := Some sender\<rparr>;
          Some (result,
            if sres_error result = 0
            then self\<lparr>t_stats := (t_stats self)\<lparr>tst_unreliable_sent := tst_unreliable_sent (t_stats self) + 1\<rparr>\<rparr> else self,
            net) }
      | None \<Rightarrow> Some (sres_default\<lparr>sres_error := SEND_ERROR_UNKNOWN\<rparr>, self, net))"

text \<open>The loop over the fragments: the bytes sent, or \<open>None\<close> when a fragment is missing.\<close>

fun send_fragments ::
  "os \<Rightarrow> tachyon_socket \<Rightarrow> network_address \<Rightarrow> u16 list \<Rightarrow> channel \<Rightarrow> nat \<Rightarrow> network
     \<Rightarrow> (nat option \<times> channel \<times> network) option" where
  "send_fragments os socket address [] channel fragment_bytes_sent net = Some (Some fragment_bytes_sent, channel, net)"
| "send_fragments os socket address (seq # rest) channel fragment_bytes_sent net = do {
     r \<leftarrow> get_send_buffer (c_send_buffers channel) seq;
     case r of
       Some fragment \<Rightarrow> do {
         (sent, net) \<leftarrow> ts_send_to os net socket address (bb_data (sbuf_byte_buffer fragment))
           (bb_length (sbuf_byte_buffer fragment));
         let channel = channel\<lparr>c_stats := (c_stats channel)
           \<lparr>cs_bytes_sent := cs_bytes_sent (c_stats channel) + word_of_nat sent,
            cs_fragments_sent := cs_fragments_sent (c_stats channel) + 1\<rparr>\<rparr>;
         send_fragments os socket address rest channel (fragment_bytes_sent + sent) net }
     | None \<Rightarrow> Some (None, channel, net) }"

text \<open>What \<open>send_reliable\<close> does with the channel it found.\<close>

definition send_on_channel ::
  "os \<Rightarrow> nat \<Rightarrow> network \<Rightarrow> tachyon_socket \<Rightarrow> channel \<Rightarrow> network_address \<Rightarrow> bytes \<Rightarrow> nat
     \<Rightarrow> (send_result \<times> channel \<times> network) option" where
  "send_on_channel os now net socket channel address data body_len =
     (if should_fragment body_len then do {
        (frag_sequences, frag, sender) \<leftarrow> create_fragments now (c_frag channel) (c_send_buffers channel) (c_id channel) data body_len;
        let channel = channel\<lparr>c_frag := frag, c_send_buffers := sender\<rparr>;
        if length frag_sequences = 0 then Some (sres_default\<lparr>sres_error := SEND_ERROR_FRAGMENT\<rparr>, channel, net)
        else do {
          (r, channel, net) \<leftarrow> send_fragments os socket address frag_sequences channel 0 net;
          case r of
            None \<Rightarrow> Some (sres_default\<lparr>sres_error := SEND_ERROR_FRAGMENT\<rparr>, channel, net)
          | Some fragment_bytes_sent \<Rightarrow>
              Some (sres_default\<lparr>sres_sent_len := word_of_nat fragment_bytes_sent,
                      sres_header := header_default\<lparr>h_message_type := MESSAGE_TYPE_FRAGMENT\<rparr>\<rparr>,
                    channel\<lparr>c_stats := (c_stats channel)\<lparr>cs_sent := cs_sent (c_stats channel) + 1\<rparr>\<rparr>, net) } }
      else channel_send_reliable os now net channel address data body_len socket)"

definition tachyon_send_reliable ::
  "os \<Rightarrow> nat \<Rightarrow> network \<Rightarrow> tachyon \<Rightarrow> u8 \<Rightarrow> network_address \<Rightarrow> bytes \<Rightarrow> nat \<Rightarrow> (send_result \<times> tachyon \<times> network) option" where
  "tachyon_send_reliable os now net self channel_id address data body_len =
     (if \<not> can_send self then Some (sres_default\<lparr>sres_error := SEND_ERROR_IDENTITY\<rparr>, self, net)
      else if body_len = 0 then Some (sres_default\<lparr>sres_error := SEND_ERROR_LENGTH\<rparr>, self, net)
      else if channel_id = 0 then Some (sres_default\<lparr>sres_error := SEND_ERROR_CHANNEL\<rparr>, self, net)
      else if ts_socket (t_socket self) = None then Some (sres_default\<lparr>sres_error := SEND_ERROR_SOCKET\<rparr>, self, net)
      else case map_of (t_channels self) (address, channel_id) of
        None \<Rightarrow> Some (sres_default\<lparr>sres_error := SEND_ERROR_CHANNEL\<rparr>, self, net)
      | Some channel \<Rightarrow> do {
          (result, channel, net) \<leftarrow> send_on_channel os now net (t_socket self) channel address data body_len;
          Some (result, self\<lparr>t_channels := AList.update (address, channel_id) channel (t_channels self)\<rparr>, net) })"

definition send_to_target ::
  "os \<Rightarrow> nat \<Rightarrow> network \<Rightarrow> tachyon \<Rightarrow> u8 \<Rightarrow> send_target \<Rightarrow> bytes \<Rightarrow> nat \<Rightarrow> (send_result \<times> tachyon \<times> network) option" where
  "send_to_target os now net self channel target data len =
     (let send = (\<lambda>address. if channel > 0 then tachyon_send_reliable os now net self channel address data len
                            else send_unreliable os net self address data len)
      in if tgt_identity_id target > 0 then
           case map_of (t_identity_to_address_map self) (tgt_identity_id target) of
             Some addr \<Rightarrow> send addr
           | None \<Rightarrow> Some (sres_default\<lparr>sres_error := SEND_ERROR_IDENTITY\<rparr>, self, net)
         else send (tgt_address target))"

subsection \<open>Sample endpoints\<close>

definition sample_env :: env where
  "sample_env = \<lparr>e_os = os_ideal, e_draw = (\<lambda>_. 0), e_vw = (\<lambda>v. enc_u32 (word_of_nat v)),
     e_vr = (\<lambda>w d. if 4 \<le> length d then Some (unat (dec_u32 (take 4 d)), 4) else None),
     e_nack_order = id, e_channel_order = id\<rparr>"

definition sample_server :: "u32 \<Rightarrow> tachyon" where
  "sample_server use_identity =
     (create_with_id 0 \<lparr>tcf_use_identity = use_identity, tcf_drop_packet_chance = 0, tcf_drop_reliable_only = 0\<rparr> 0)
       \<lparr>t_socket := ts_create\<lparr>ts_socket := Some 0, ts_is_server := True\<rparr>\<rparr>"

abbreviation sample_peer :: socket_addr where
  "sample_peer \<equiv> SocketV4 127 0 0 1 100"

abbreviation arriving :: "bytes \<Rightarrow> network" where
  "arriving d \<equiv> net_empty\<lparr>net_in := (\<lambda>_. [Some (sample_peer, d)])\<rparr>"

lemma create_buffer:
  "length (t_socket_receive_buffer (create_with_id now cfg i)) = 1048576" "t_socket_receive_buffer (create_with_id now cfg i) ! 0 = 0"
proof -
  have n: "SOCKET_RECEIVE_BUFFER_LEN = 1048576" by (simp add: SOCKET_RECEIVE_BUFFER_LEN_def)
  then have "0 < SOCKET_RECEIVE_BUFFER_LEN" by linarith
  then have "replicate SOCKET_RECEIVE_BUFFER_LEN (0 :: u8) ! 0 = 0" "length (replicate SOCKET_RECEIVE_BUFFER_LEN (0 :: u8)) = SOCKET_RECEIVE_BUFFER_LEN"
    by simp_all
  moreover have "t_socket_receive_buffer (create_with_id now cfg i) = replicate SOCKET_RECEIVE_BUFFER_LEN 0"
    by (simp add: create_with_id_def)
  ultimately show "length (t_socket_receive_buffer (create_with_id now cfg i)) = 1048576"
    "t_socket_receive_buffer (create_with_id now cfg i) ! 0 = 0" using n by simp_all
qed

lemma sample_server_sel [simp]:
  "ts_is_server (t_socket (sample_server u))" "ts_socket (t_socket (sample_server u)) = Some 0"
  "tcf_use_identity (t_config (sample_server u)) = u" "t_connections (sample_server u) = []" "t_identities (sample_server u) = []"
  "t_socket_receive_buffer (sample_server u) ! 0 = 0" "t_wf (sample_server u)" "links_ok (sample_server u)"
  "length (t_socket_receive_buffer (sample_server u)) = 1048576" "tcf_drop_packet_chance (t_config (sample_server u)) = 0"
  "t_channels (sample_server u) = []" "t_channel_config (sample_server u) = [(1, cc_default_ordered), (2, cc_default_unordered)]"
  by (simp_all add: sample_server_def create_buffer)

lemma create_connection_more [simp]:
  "t_config (create_connection now t a idn) = t_config t"
  "t_socket_receive_buffer (create_connection now t a idn) = t_socket_receive_buffer t"
  by (simp_all add: create_connection_def create_configured_channels_def fire_connection_event_def Let_def)

lemma sample_channel:
  "get_channel (create_connection 0 (sample_server u) a idn) a 1 = Some (channel_create 1 a cc_default_ordered)"
  by (simp add: get_channel_def create_connection_maps(2))

end
