(* ===== verification/Tachyon_Endpoint.thy ===== *)
theory Tachyon_Endpoint
  imports Tachyon
begin

text \<open>
  An endpoint (\<^verbatim>\<open>src/src/tachyon.rs\<close>) as a state machine: every operation keeps a channel under
  its key and the tables of connections, channels and identities consistent.
\<close>

subsection \<open>A channel stays where it is\<close>

abbreviation same_key :: "channel \<Rightarrow> channel \<Rightarrow> bool" where
  "same_key c c' \<equiv> c_id c' = c_id c \<and> c_address c' = c_address c"

lemma receive_published_internal_key:
  "receive_published_internal c buf = Some (x, c', buf') \<Longrightarrow> same_key c c'"
  by (auto simp: receive_published_internal_def Let_def elim!: bind_SomeE case_prod_SomeE split: prod.splits option.splits sum.splits if_splits)

lemma receive_published_loop_key: "receive_published_loop n c buf = Some (x, c', buf') \<Longrightarrow> same_key c c'"
proof (induction n arbitrary: c buf)
  case (Suc n)
  then obtain len a again c1 buf1 where i: "receive_published_internal c buf = Some ((len, a, again), c1, buf1)"
    and r: "c' = c1 \<or> receive_published_loop n c1 buf1 = Some (x, c', buf')"
    by (auto elim!: bind_SomeE case_prod_SomeE split: if_splits)
  show ?case using receive_published_internal_key [OF i] r Suc.IH [of c1 buf1] by auto
qed simp

lemma receive_published_key: "receive_published c buf = Some (x, c', buf') \<Longrightarrow> same_key c c'"
  by (simp add: receive_published_def receive_published_loop_key)

lemma resend_all_key: "resend_all os s qs c net = Some (c', net') \<Longrightarrow> same_key c c'"
proof (induction os s qs c net rule: resend_all.induct)
  case (2 os s q a rest c net)
  then obtain c1 net1 where "resend_one os s q a c net = Some (c1, net1)" "resend_all os s rest c1 net1 = Some (c', net')"
    by (auto elim!: bind_SomeE case_prod_SomeE)
  moreover from this(1) have "same_key c c1"
    by (auto simp: resend_one_def Let_def elim!: bind_SomeE case_prod_SomeE split: option.splits if_splits)
  ultimately show ?case using 2 by auto
qed simp

lemma channel_update_key:
  assumes "channel_update os vw iter c s net = Some (c', net')"
  shows "same_key c c'"
proof -
  obtain c1 net1 c2 net2 where c1: "send_nacks os vw c s net = Some (c1, net1)"
    and c2: "resend_nacked os iter c1 s net1 = Some (c2, net2)" and c': "same_key c2 c'"
    using assms by (auto simp: channel_update_def elim!: bind_SomeE case_prod_SomeE)
  have "same_key c c1" using c1 by (auto simp: send_nacks_def Let_def elim!: bind_SomeE case_prod_SomeE split: if_splits)
  moreover have "same_key c1 c2"
    using c2 by (auto simp: resend_nacked_def elim!: bind_SomeE case_prod_SomeE dest: resend_all_key split: if_splits)
  ultimately show ?thesis using c' by simp
qed

lemma channel_receive_key: "channel_receive env now c h a d n = Some (r, c') \<Longrightarrow> same_key c c'"
  by (auto simp: channel_receive_def process_none_message_def process_nack_message_def process_fragment_message_def
      process_single_nack_def copy_nacked_to_map_def Let_def elim!: bind_SomeE case_prod_SomeE split: if_splits)

lemma channel_send_reliable_key: "channel_send_reliable os now net c a d n s = Some (r, c', net') \<Longrightarrow> same_key c c'"
  by (auto simp: channel_send_reliable_def Let_def elim!: bind_SomeE case_prod_SomeE split: prod.splits option.splits)

lemma send_fragments_key: "send_fragments os s a qs c n net = Some (r, c', net') \<Longrightarrow> same_key c c'"
  by (induction os s a qs c n net rule: send_fragments.induct)
    (auto simp: Let_def elim!: bind_SomeE case_prod_SomeE split: option.splits)

lemma send_on_channel_key: "send_on_channel os now net s c a d n = Some (r, c', net') \<Longrightarrow> same_key c c'"
  by (auto simp: send_on_channel_def Let_def elim!: bind_SomeE case_prod_SomeE dest!: send_fragments_key
      dest: channel_send_reliable_key split: if_splits option.splits)

subsection \<open>The invariant through every operation\<close>

abbreviation t_inv :: "tachyon \<Rightarrow> bool" where
  "t_inv t \<equiv> t_wf t \<and> links_ok t"

lemma put_channel_inv:
  assumes "t_inv t" "map_of (t_channels t) k = Some c" "same_key c c'"
  shows "t_inv (t\<lparr>t_channels := AList.update k c' (t_channels t)\<rparr>)"
proof -
  have "t_wf (t\<lparr>t_channels := AList.update k c' (t_channels t)\<rparr>)"
    using assms t_wf_channel [of t "fst k" "snd k" c] unfolding t_wf_def
    by (auto simp: update_conv' distinct_update split: if_splits)
  then show ?thesis using assms(1) by simp
qed

lemma bind_inv:
  assumes "t_inv t" "tachyon_bind os net t a = Some (b, t', net')"
  shows "t_inv t'"
  using assms by (auto simp: tachyon_bind_def Let_def elim!: bind_SomeE case_prod_SomeE split: create_connect_result.splits)

lemma connect_inv:
  assumes "t_inv t" "tachyon_connect os now net t a = Some (b, t', net')"
  shows "t_inv t'"
  using assms
  by (auto simp: tachyon_connect_def Let_def create_connection_wf create_connection_links identity_default_def
      elim!: bind_SomeE case_prod_SomeE split: create_connect_result.splits)

lemma configure_channel_inv: "t_inv t \<Longrightarrow> t_inv (snd (configure_channel t i cfg))"
  by (auto simp: configure_channel_def t_wf_def update_conv')

lemma combined_stats_inv: "t_inv t \<Longrightarrow> t_inv (snd (get_combined_stats t))"
proof -
  assume t: "t_inv t"
  have k: "fst \<circ> (\<lambda>(key, channel). (key, update_stats channel)) = (fst :: channel_key \<times> channel \<Rightarrow> channel_key)"
    by auto
  have u: "same_key c (update_stats c)" for c by (simp add: update_stats_def)
  have "t_wf (snd (get_combined_stats t))"
    using t u unfolding t_wf_def by (simp add: get_combined_stats_def Let_def k map_of_map) auto
  with t show ?thesis by (simp add: get_combined_stats_def Let_def)
qed

lemma update_channels_inv:
  assumes "t_inv (t\<lparr>t_channels := cs\<rparr>)" "update_channels env s keys cs net = Some (cs', net')"
  shows "t_inv (t\<lparr>t_channels := cs'\<rparr>)"
  using assms
proof (induction env s keys cs net rule: update_channels.induct)
  case (2 env s key keys cs net)
  show ?case
  proof (cases "map_of cs key")
    case (Some c)
    then obtain c1 net1 where c1: "channel_update (e_os env) (e_vw env) (e_nack_order env) c s net = Some (c1, net1)"
      "update_channels env s keys (AList.update key c1 cs) net1 = Some (cs', net')"
      using 2(4) by (auto elim!: bind_SomeE case_prod_SomeE)
    have "t_inv (t\<lparr>t_channels := AList.update key c1 cs\<rparr>)"
      using put_channel_inv [OF 2(3), of key c c1] channel_update_key [OF c1(1)] Some by simp
    with 2(2) [OF Some c1(1) refl] c1(2) show ?thesis by blast
  qed (use 2 in simp)
qed simp

lemma client_identity_update_inv:
  "t_inv t \<Longrightarrow> client_identity_update os now net t = Some (t', net') \<Longrightarrow> t_inv t' \<and> t_channels t' = t_channels t"
  by (auto simp: client_identity_update_def Let_def elim!: bind_SomeE split: if_splits)

lemma update_inv:
  assumes "t_inv t" "tachyon_update env now net t = Some (t', net')"
  shows "t_inv t'"
proof -
  obtain t1 net1 cs where t1: "client_identity_update (e_os env) now net t = Some (t1, net1)"
    and cs: "update_channels env (t_socket t1) (e_channel_order env (map fst (t_channels t1))) (t_channels t1) net1 = Some (cs, net')"
    and t': "t' = t1\<lparr>t_channels := cs\<rparr>"
    using assms(2) by (auto simp: tachyon_update_def elim!: bind_SomeE case_prod_SomeE)
  have "t_inv t1" using client_identity_update_inv [OF assms(1) t1] by simp
  then show ?thesis unfolding t' by (intro update_channels_inv [OF _ cs]) simp
qed

lemma receive_published_channel_id_inv:
  assumes "t_inv t" "receive_published_channel_id t buf a i = Some (n, t', buf')"
  shows "t_inv t'"
proof (cases "map_of (t_channels t) (a, i)")
  case (Some c)
  with assms(2) obtain len x c' where "receive_published c buf = Some ((len, x), c', buf')"
    "t' = t\<lparr>t_channels := AList.update (a, i) c' (t_channels t)\<rparr>"
    by (auto simp: receive_published_channel_id_def elim!: bind_SomeE case_prod_SomeE)
  then show ?thesis using put_channel_inv [OF assms(1) Some] receive_published_key by metis
qed (use assms in \<open>simp add: receive_published_channel_id_def\<close>)

lemma receive_published_keys_inv:
  assumes "t_inv t" "receive_published_keys keys t buf = Some (r, t', buf')"
  shows "t_inv t'"
  using assms
proof (induction keys arbitrary: t buf)
  case (Cons k keys)
  show ?case
  proof (cases "map_of (t_channels t) k")
    case (Some c)
    obtain len x c1 buf1 where c1: "receive_published c buf = Some ((len, x), c1, buf1)"
      and r: "t' = t\<lparr>t_channels := AList.update k c1 (t_channels t)\<rparr> \<or>
        receive_published_keys keys (t\<lparr>t_channels := AList.update k c1 (t_channels t)\<rparr>) buf1 = Some (r, t', buf')"
      using Cons.prems(2) Some by (auto simp: Let_def elim!: bind_SomeE case_prod_SomeE split: if_splits)
    have "t_inv (t\<lparr>t_channels := AList.update k c1 (t_channels t)\<rparr>)"
      by (rule put_channel_inv [OF Cons.prems(1) Some receive_published_key [OF c1]])
    with r Cons.IH show ?thesis by blast
  qed (use Cons in simp)
qed simp

lemma fire_identity_inv [simp]: "t_wf (fire_identity_event t e a i s) = t_wf t" "links_ok (fire_identity_event t e a i s) = links_ok t"
  by (simp_all add: fire_identity_event_def Let_def)

lemma validate_cases:
  assumes "t_wf t" "links_ok t" "validate_and_update_linked_connection now t a = (b, t')"
  shows "t_wf t' \<and> links_ok t'"
  using validate_wf [OF assms(1), of now a] validate_links [OF assms(2), of now a] assms(3) by simp

lemma receive_gate_inv:
  assumes "t_inv t" "receive_gate env now net t = Some (r, t', net')"
  shows "t_inv t'"
proof -
  obtain sr sk net1 data where
    r: "ts_receive (e_draw env) net (t_socket t) (t_socket_receive_buffer t)
       (tcf_drop_packet_chance (t_config t)) (tcf_drop_reliable_only (t_config t) = 1) = Some (sr, sk, net1, data)"
    using assms(2) by (auto simp: receive_gate_def elim!: bind_SomeE case_prod_SomeE)
  let ?t = "t\<lparr>t_socket := sk, t_socket_receive_buffer := data\<rparr>"
  have t: "t_wf ?t" "links_ok ?t" using assms(1) by simp_all
  show ?thesis
    using assms(2) r t
    by (auto simp: receive_gate_def Let_def on_receive_connection_update_wf on_receive_connection_update_links
        elim!: bind_SomeE case_prod_SomeE dest!: try_link_cases [OF t] try_unlink_cases [OF t] validate_cases [OF t]
        split: bool.splits socket_receive_result.splits if_splits)
qed

lemma receive_from_socket_inv:
  assumes "t_inv t" "receive_from_socket env now net t = Some (r, t', net')"
  shows "t_inv t'"
proof -
  obtain g t1 net1 where g: "receive_gate env now net t = Some (g, t1, net1)"
    using assms(2) by (auto simp: receive_from_socket_def elim!: bind_SomeE case_prod_SomeE)
  have t1: "t_inv t1" by (rule receive_gate_inv [OF assms(1) g])
  show ?thesis
    using assms(2) g t1 put_channel_inv [OF t1]
    by (auto simp: receive_from_socket_def elim!: bind_SomeE case_prod_SomeE dest!: channel_receive_key
        split: sum.splits prod.splits if_splits option.splits)
qed

lemma receive_round_inv:
  assumes "t_inv t" "receive_round env now net t buf = Some (r, t', net', buf')"
  shows "t_inv t'"
proof -
  obtain rr t1 net1 where g: "receive_from_socket env now net t = Some (rr, t1, net1)"
    using assms(2) by (auto simp: receive_round_def elim!: bind_SomeE case_prod_SomeE)
  have t1: "t_inv t1" by (rule receive_from_socket_inv [OF assms(1) g])
  show ?thesis
    using assms(2) g t1 receive_published_channel_id_inv [OF t1]
    by (auto simp: receive_round_def elim!: bind_SomeE case_prod_SomeE split: receive_result.splits if_splits)
qed

lemma receive_rounds_inv:
  "t_inv t \<Longrightarrow> receive_rounds n env now net t buf = Some (r, t', net', buf') \<Longrightarrow> t_inv t'"
proof (induction n arbitrary: net t buf)
  case (Suc n)
  obtain x t1 net1 buf1 where x: "receive_round env now net t buf = Some (x, t1, net1, buf1)"
    and r: "t' = t1 \<or> receive_rounds n env now net1 t1 buf1 = Some (r, t', net', buf')"
    using Suc.prems(2) by (auto elim!: bind_SomeE case_prod_SomeE split: sum.splits if_splits)
  show ?case using receive_round_inv [OF Suc.prems(1) x] r Suc.IH by blast
qed simp

lemma receive_loop_inv:
  assumes "t_inv t" "receive_loop env now net t buf = Some (r, t', net', buf')"
  shows "t_inv t'"
proof -
  obtain x t1 net1 buf1 where x: "receive_rounds 100 env now net t buf = Some (x, t1, net1, buf1)"
    and r: "t' = t1 \<or> receive_published_all_channels env t1 buf1 = Some (r, t', buf')"
    using assms(2) by (auto simp: receive_loop_def elim!: bind_SomeE case_prod_SomeE split: option.splits)
  show ?thesis
    using receive_rounds_inv [OF assms(1) x] r receive_published_keys_inv [of t1 _ buf1 r t' buf']
    by (auto simp: receive_published_all_channels_def)
qed

lemma send_reliable_inv:
  assumes "t_inv t" "tachyon_send_reliable os now net t i a d n = Some (r, t', net')"
  shows "t_inv t'"
  using assms put_channel_inv [OF assms(1)]
  by (auto simp: tachyon_send_reliable_def elim!: bind_SomeE case_prod_SomeE dest!: send_on_channel_key
      split: if_splits option.splits)

lemma send_unreliable_inv:
  "t_inv t \<Longrightarrow> send_unreliable os net t a d n = Some (r, t', net') \<Longrightarrow> t_inv t'"
  by (auto simp: send_unreliable_def Let_def elim!: bind_SomeE case_prod_SomeE split: if_splits option.splits)

lemma send_to_target_inv:
  assumes "t_inv t" "send_to_target os now net t ch tgt d n = Some (r, t', net')"
  shows "t_inv t'"
  using assms send_reliable_inv [OF assms(1), of os now net ch _ d n r t' net']
    send_unreliable_inv [OF assms(1), of os net _ d n r t' net']
  by (auto simp: send_to_target_def Let_def split: if_splits option.splits)

lemma get_connections_loop_inv:
  "t_inv (t\<lparr>t_connections := cs\<rparr>) \<Longrightarrow> t_inv (t\<lparr>t_connections := snd (get_connections_loop now m n as cs acc)\<rparr>)"
proof (induction now m n as cs acc rule: get_connections_loop.induct)
  case (2 now m n a as cs acc)
  show ?case
  proof (cases "map_of cs a")
    case (Some conn)
    let ?conn = "conn\<lparr>conn_since_last_received := now - conn_received_at conn\<rparr>"
    have addr: "conn_address ?conn = a" using t_wf_connection [of "t\<lparr>t_connections := cs\<rparr>" a conn] 2(3) Some by simp
    have "t_wf (t\<lparr>t_connections := AList.update a ?conn cs\<rparr>)"
      using AList_update_wf [of "t\<lparr>t_connections := cs\<rparr>" a conn ?conn] 2(3) Some addr by simp
    moreover have "links_ok (t\<lparr>t_connections := AList.update a ?conn cs\<rparr>)"
      using 2(3) Some by (auto intro!: links_okI [of "t\<lparr>t_connections := cs\<rparr>"] simp: update_conv' split: if_splits)
    ultimately show ?thesis using 2(2) [OF Some refl refl refl refl] Some by (simp add: Let_def)
  qed (use 2 in simp)
qed simp

lemma get_connections_inv: "t_inv t \<Longrightarrow> t_inv (snd (get_connections ord now t m))"
  using get_connections_loop_inv [where t = t and cs = "t_connections t"] by (simp add: get_connections_def Let_def case_prod_beta)

subsection \<open>The number of an endpoint\<close>

text \<open>No operation changes the number under which a pool keeps the endpoint.\<close>

lemma remove_connection_by_identity_id [simp]: "t_id (remove_connection_by_identity t i) = t_id t"
proof -
  have "t_id (fold (\<lambda>addr self. remove_connection self addr) as t) = t_id t" for as
    by (induction as arbitrary: t) simp_all
  then show ?thesis by (simp add: remove_connection_by_identity_def)
qed

lemma handshake_ids:
  "try_link_identity os now net t a i s = Some (b, t', net') \<Longrightarrow> t_id t' = t_id t"
  "try_unlink_identity os net t a i s = Some (b, t', net') \<Longrightarrow> t_id t' = t_id t"
  "validate_and_update_linked_connection now t a = (b, t') \<Longrightarrow> t_id t' = t_id t"
  by (auto simp: try_link_identity_def try_unlink_identity_def validate_and_update_linked_connection_def Let_def
      elim!: bind_SomeE split: option.splits if_splits)

lemma receive_gate_id:
  assumes "receive_gate env now net t = Some (r, t', net')"
  shows "t_id t' = t_id t"
  using assms
  by (auto simp: receive_gate_def Let_def elim!: bind_SomeE case_prod_SomeE dest!: handshake_ids
      split: bool.splits socket_receive_result.splits if_splits)

lemma receive_round_id:
  assumes "receive_round env now net t buf = Some (r, t', net', buf')"
  shows "t_id t' = t_id t"
  using assms
  by (auto simp: receive_round_def receive_from_socket_def receive_published_channel_id_def elim!: bind_SomeE case_prod_SomeE
      dest!: receive_gate_id split: sum.splits option.splits receive_result.splits if_splits)

lemma receive_rounds_id: "receive_rounds n env now net t buf = Some (r, t', net', buf') \<Longrightarrow> t_id t' = t_id t"
proof (induction n arbitrary: net t buf)
  case (Suc n)
  obtain x t1 net1 buf1 where x: "receive_round env now net t buf = Some (x, t1, net1, buf1)"
    and r: "t' = t1 \<or> receive_rounds n env now net1 t1 buf1 = Some (r, t', net', buf')"
    using Suc.prems by (auto elim!: bind_SomeE case_prod_SomeE split: sum.splits if_splits)
  show ?case using receive_round_id [OF x] r Suc.IH by auto
qed simp

lemma receive_published_keys_id: "receive_published_keys keys t buf = Some (r, t', buf') \<Longrightarrow> t_id t' = t_id t"
proof (induction keys arbitrary: t buf)
  case (Cons k keys)
  then show ?case by (auto simp: Let_def elim!: bind_SomeE case_prod_SomeE split: option.splits if_splits)
qed simp

lemma receive_loop_id:
  assumes "receive_loop env now net t buf = Some (r, t', net', buf')"
  shows "t_id t' = t_id t"
  using assms
  by (auto simp: receive_loop_def receive_published_all_channels_def elim!: bind_SomeE case_prod_SomeE
      dest!: receive_rounds_id receive_published_keys_id split: option.splits)

subsection \<open>An endpoint as a state machine\<close>

text \<open>One call of the application, with any arguments, at any time and on any network.\<close>

inductive endpoint_step :: "env \<Rightarrow> tachyon \<Rightarrow> tachyon \<Rightarrow> bool" for env where
  bind: "tachyon_bind (e_os env) net t a = Some (b, t', net') \<Longrightarrow> endpoint_step env t t'"
| connect: "tachyon_connect (e_os env) now net t a = Some (b, t', net') \<Longrightarrow> endpoint_step env t t'"
| configure: "configure_channel t i cfg = (b, t') \<Longrightarrow> endpoint_step env t t'"
| identify: "endpoint_step env t (set_identity t i s)"
| identify_self: "endpoint_step env t (t\<lparr>t_identity := idn\<rparr>)"
| update: "tachyon_update env now net t = Some (t', net') \<Longrightarrow> endpoint_step env t t'"
| receive: "receive_loop env now net t buf = Some (r, t', net', buf') \<Longrightarrow> endpoint_step env t t'"
| send: "send_to_target (e_os env) now net t ch tgt d n = Some (r, t', net') \<Longrightarrow> endpoint_step env t t'"
| stats: "get_combined_stats t = (r, t') \<Longrightarrow> endpoint_step env t t'"
| list_connections: "get_connections ord now t m = (cs, t') \<Longrightarrow> endpoint_step env t t'"

inductive endpoint :: "env \<Rightarrow> tachyon \<Rightarrow> bool" for env where
  start: "endpoint env (create_with_id now cfg i)"
| step: "endpoint env t \<Longrightarrow> endpoint_step env t t' \<Longrightarrow> endpoint env t'"

lemma endpoint_step_inv: "endpoint_step env t t' \<Longrightarrow> t_inv t \<Longrightarrow> t_inv t'"
proof (induction rule: endpoint_step.induct)
  case (configure t i cfg b t')
  then show ?case using configure_channel_inv [of t i cfg] by simp
next
  case (stats t r t')
  then show ?case using combined_stats_inv [of t] by simp
next
  case (list_connections ord now t m cs t')
  then show ?case using get_connections_inv [of t ord now m] by simp
next
  case (identify t i s)
  then show ?case by (simp add: set_identity_wf set_identity_links)
next
  case (identify_self t idn)
  then show ?case by simp
qed (rule bind_inv connect_inv update_inv receive_loop_inv send_to_target_inv; assumption)+

lemma endpoint_inv: "endpoint env t \<Longrightarrow> t_inv t"
  by (induction rule: endpoint.induct) (use endpoint_step_inv in auto)

subsection \<open>Properties\<close>

text \<open>
  C11. The tables of an endpoint stay consistent, whatever the application calls and whatever
  arrives: a connection carries the address it is stored under and the number of its
  endpoint; a channel exists only for a connected address and a configured number and
  carries both; a connection that holds an identity holds its current session, and no
  other address holds the same identity.
\<close>

theorem endpoint_invariant:
  assumes "endpoint env t"
  shows "(\<forall>a conn. get_connection t a = Some conn \<longrightarrow> conn_address conn = a \<and> conn_tachyon_id conn = t_id t)
    \<and> (\<forall>a i c. get_channel t a i = Some c \<longrightarrow>
        get_connection t a \<noteq> None \<and> map_of (t_channel_config t) i \<noteq> None \<and> c_address c = a \<and> c_id c = i)
    \<and> (\<forall>a. id_id (get_connection_identity t a) \<noteq> 0 \<longrightarrow>
        map_of (t_identities t) (id_id (get_connection_identity t a)) = Some (id_session_id (get_connection_identity t a))
        \<and> get_connection_by_identity t (id_id (get_connection_identity t a)) = get_connection t a)
    \<and> (\<forall>a b. id_id (get_connection_identity t a) = id_id (get_connection_identity t b) \<longrightarrow>
        id_id (get_connection_identity t a) \<noteq> 0 \<longrightarrow> a = b)"
proof -
  have wf: "t_wf t" "links_ok t" using endpoint_inv [OF assms] by simp_all
  have "get_connection t a \<noteq> None \<and> map_of (t_channel_config t) i \<noteq> None \<and> c_address c = a \<and> c_id c = i"
    if "get_channel t a i = Some c" for a i c
    using t_wf_channel [OF wf(1)] that by (simp add: get_channel_def get_connection_def)
  moreover have "map_of (t_identities t) (id_id (get_connection_identity t a)) = Some (id_session_id (get_connection_identity t a))
      \<and> get_connection_by_identity t (id_id (get_connection_identity t a)) = get_connection t a"
    if "id_id (get_connection_identity t a) \<noteq> 0" for a
    using wf(2) that unfolding links_ok_def
    by (auto simp: get_connection_identity_def identity_default_def get_connection_by_identity_def split: option.splits)
  moreover have "a = b"
    if "id_id (get_connection_identity t a) = id_id (get_connection_identity t b)" "id_id (get_connection_identity t a) \<noteq> 0" for a b
    using links_unique [OF wf(2)] that
    by (auto simp: get_connection_identity_def identity_default_def split: option.splits)
  moreover have "conn_address conn = a \<and> conn_tachyon_id conn = t_id t" if "get_connection t a = Some conn" for a conn
    using wf(1) that by (auto simp: t_wf_def get_connection_def)
  ultimately show ?thesis by blast
qed

theorem endpoint_invariant_witness:
  "\<exists>t c. endpoint sample_env t \<and> get_channel t na_default 1 = Some c \<and> c_address c = na_default \<and> c_id c = 1"
proof -
  let ?t0 = "create_with_id 0 \<lparr>tcf_use_identity = 0, tcf_drop_packet_chance = 0, tcf_drop_reliable_only = 0\<rparr> 0"
  obtain t net where t: "tachyon_connect os_ideal 0 net_empty ?t0 (na_localhost 100) = Some (True, t, net)"
    "map_of (t_channels t) (na_default, 1) \<noteq> None"
    by (simp add: tachyon_connect_def connect_socket_def create_unreliable_sender_def clone_socket_def os_ideal_def
        ts_create_def create_connection_maps(2))
  have "endpoint sample_env t"
    using endpoint.step [OF endpoint.start endpoint_step.connect, of sample_env 0 net_empty 0
        "\<lparr>tcf_use_identity = 0, tcf_drop_packet_chance = 0, tcf_drop_reliable_only = 0\<rparr>" 0 "na_localhost 100"] t(1)
    by (auto simp: sample_env_def)
  moreover from this t(2) endpoint_invariant [of sample_env t]
  have "\<exists>c. get_channel t na_default 1 = Some c \<and> c_address c = na_default \<and> c_id c = 1"
    by (auto simp: get_channel_def)
  ultimately show ?thesis by blast
qed

end
