(* ===== verification/Endpoint_Behaviour.thy ===== *)
theory Endpoint_Behaviour
  imports Tachyon_Endpoint
begin

text \<open>
  What an endpoint (\<^verbatim>\<open>src/src/tachyon.rs\<close>) does with the datagrams that reach it and with the
  messages it is given: delivery, the gate of the identities and the handshake, and the
  inputs that break it.
\<close>

subsection \<open>What passes the gate\<close>

definition receiving :: "tachyon \<Rightarrow> network \<Rightarrow> nat \<Rightarrow> socket_addr \<Rightarrow> bytes \<Rightarrow> (socket_addr \<times> bytes) option list \<Rightarrow> bool" where
  "receiving t net fd src d q \<longleftrightarrow> ts_socket (t_socket t) = Some fd \<and> net_in net fd = Some (src, d) # q
     \<and> tcf_drop_packet_chance (t_config t) = 0 \<and> 12 \<le> length (t_socket_receive_buffer t)
     \<and> length d \<le> length (t_socket_receive_buffer t)"

abbreviation taken_from :: "network \<Rightarrow> nat \<Rightarrow> (socket_addr \<times> bytes) option list \<Rightarrow> network" where
  "taken_from net fd q \<equiv> net\<lparr>net_in := (net_in net)(fd := q)\<rparr>"

abbreviation filled :: "tachyon \<Rightarrow> bytes \<Rightarrow> tachyon" where
  "filled t d \<equiv> t\<lparr>t_socket_receive_buffer := overwrite (t_socket_receive_buffer t) 0 d\<rparr>"

lemma sample_receiving: "length d \<le> 2000 \<Longrightarrow> receiving (sample_server u) (arriving d) 0 sample_peer d []"
  by (simp add: receiving_def)

lemma receiving_ts:
  assumes "receiving t net fd src d q"
  shows "ts_receive draw net (t_socket t) (t_socket_receive_buffer t) (tcf_drop_packet_chance (t_config t)) rel =
     Some (SR_Success (length d) (if ts_is_server (t_socket t) then from_socket_addr src else na_default),
       t_socket t, taken_from net fd q, overwrite (t_socket_receive_buffer t) 0 d)"
  using assms ts_receive_eq [of "t_socket t" fd net src d q "t_socket_receive_buffer t" draw rel]
  unfolding receiving_def by simp

lemma header_read_some:
  assumes "4 \<le> length buf"
  shows "\<exists>h. header_read buf = Some h \<and> h_message_type h = buf ! 0"
proof -
  obtain x0 x1 x2 x3 rest where "buf = x0 # x1 # x2 # x3 # rest"
    using assms by (auto simp: Suc_le_length_iff numeral_eq_Suc)
  then show ?thesis
    by (simp add: header_read_def read_u8_def read_u16_def Let_def header_default_def)
qed

lemma header_filled:
  assumes "receiving t net fd src d q"
  shows "\<exists>h. header_read (overwrite (t_socket_receive_buffer t) 0 d) = Some h
     \<and> h_message_type h = (if d = [] then t_socket_receive_buffer t ! 0 else d ! 0)"
proof -
  have "4 \<le> length (overwrite (t_socket_receive_buffer t) 0 d)" using assms by (simp add: receiving_def)
  moreover have "overwrite (t_socket_receive_buffer t) 0 d ! 0 = (if d = [] then t_socket_receive_buffer t ! 0 else d ! 0)"
    by (auto simp: overwrite_def nth_append)
  ultimately show ?thesis using header_read_some by metis
qed

lemma channel_receive_reliable:
  assumes "receive_packet (c_receiver c) s data n = Some (True, r')" "h_message_type h = 1" "h_sequence h = s"
  shows "\<exists>st. channel_receive env now c h a data n = Some (RR_Reliable a (c_id c), c\<lparr>c_receiver := r', c_stats := st\<rparr>)"
  using assms by (auto simp: channel_receive_def Let_def)

subsection \<open>Sending a large message\<close>

lemma send_fragments_ok:
  assumes "sm_wf (c_send_buffers c)" "ts_socket s = Some fd" "\<forall>x \<in> set qs. resend_packet (c_send_buffers c) x \<noteq> []"
  shows "\<exists>st m. send_fragments os s a qs c n net =
     Some (Some m, c\<lparr>c_stats := st\<rparr>, fold (sent os fd (dest_of a)) (map (resend_packet (c_send_buffers c)) qs) net)"
  using assms
proof (induction qs arbitrary: c n net)
  case Nil
  show ?case by (intro exI [of _ "c_stats c"]) simp
next
  case (Cons x qs)
  obtain sb where sb: "get_send_buffer (c_send_buffers c) x = Some (Some sb)"
    "resend_packet (c_send_buffers c) x = bb_content (sbuf_byte_buffer sb)"
    using Cons.prems(3) by (auto simp: resend_packet_def split: option.splits)
  have "bb_length (sbuf_byte_buffer sb) \<le> length (bb_data (sbuf_byte_buffer sb))"
    using sb(1) Cons.prems(1) bb_ok_room by (auto simp: get_send_buffer_eq sm_wf_def)
  note snd = ts_send_to_eq [OF Cons.prems(2) this, of os net a, folded bb_content_def]
  let ?sl = "sent_len os fd (dest_of a) (bb_content (sbuf_byte_buffer sb)) net"
  let ?c = "c\<lparr>c_stats := (c_stats c)\<lparr>cs_bytes_sent := cs_bytes_sent (c_stats c) + word_of_nat ?sl,
      cs_fragments_sent := cs_fragments_sent (c_stats c) + 1\<rparr>\<rparr>"
  have "\<exists>st m. send_fragments os s a qs ?c (n + ?sl) (sent os fd (dest_of a) (bb_content (sbuf_byte_buffer sb)) net) =
     Some (Some m, ?c\<lparr>c_stats := st\<rparr>, fold (sent os fd (dest_of a)) (map (resend_packet (c_send_buffers ?c)) qs)
       (sent os fd (dest_of a) (bb_content (sbuf_byte_buffer sb)) net))"
    using Cons.prems by (intro Cons.IH) simp_all
  then show ?case using sb snd by (auto simp: Let_def)
qed

text \<open>A datagram of a sender that needs no identity, or has one, passes the gate.\<close>

lemma gate_admits:
  assumes r: "receiving t net fd src d q" and srv: "ts_is_server (t_socket t)"
    and h: "header_read (overwrite (t_socket_receive_buffer t) 0 d) = Some h"
    and idn: "tcf_use_identity (t_config t) = 1 \<Longrightarrow> id_id (get_connection_identity t (from_socket_addr src)) \<noteq> 0
      \<and> h_message_type h \<notin> {6, 7}"
  shows "receive_gate env now net t = Some (Inr (h, from_socket_addr src, length d),
     on_receive_connection_update now (filled t d) (from_socket_addr src), taken_from net fd q)"
  using receiving_ts [OF r] srv h idn
  by (auto simp: receive_gate_def Let_def validate_and_update_linked_connection_def on_receive_connection_update_def
      get_connection_identity_def identity_default_def split: option.splits)

subsection \<open>The handshake\<close>

lemma identity_filled:
  assumes "receiving t net fd src (identity_packet ty i s) q"
  shows "\<exists>h. header_read (overwrite (t_socket_receive_buffer t) 0 (identity_packet ty i s)) = Some h \<and> h_message_type h = ty"
    and "ch_read (overwrite (t_socket_receive_buffer t) 0 (identity_packet ty i s)) =
      Some \<lparr>ch_message_type = ty, ch_id = i, ch_session_id = s\<rparr>"
proof -
  have "identity_packet ty i s \<noteq> []" "identity_packet ty i s ! 0 = ty"
    by (simp_all add: identity_packet_def ch_bytes_def enc_u8_def)
  then show "\<exists>h. header_read (overwrite (t_socket_receive_buffer t) 0 (identity_packet ty i s)) = Some h \<and> h_message_type h = ty"
    using header_filled [OF assms] by auto
  show "ch_read (overwrite (t_socket_receive_buffer t) 0 (identity_packet ty i s)) =
      Some \<lparr>ch_message_type = ty, ch_id = i, ch_session_id = s\<rparr>"
    by (simp add: overwrite_def identity_packet_def ch_read_prefix)
qed

text \<open>A server answers a link request with the current session.\<close>

lemma server_links:
  assumes wf: "t_wf t" and r: "receiving t net fd src (identity_packet 6 i s) q" and srv: "ts_is_server (t_socket t)"
    and on: "tcf_use_identity (t_config t) = 1" and i: "map_of (t_identities t) i = Some s"
    and other: "id_id (get_connection_identity t (from_socket_addr src)) \<noteq> i"
  shows "\<exists>t'. receive_from_socket env now net t =
       Some (RR_Retry, t', sent (e_os env) fd (dest_of (from_socket_addr src)) (identity_packet 8 0 0) (taken_from net fd q))
     \<and> get_connection_identity t' (from_socket_addr src) = \<lparr>id_id = i, id_session_id = s, id_linked = 0\<rparr>"
proof -
  let ?a = "from_socket_addr src" and ?t = "filled t (identity_packet 6 i s)"
  have fd: "ts_socket (t_socket ?t) = Some fd" using r by (simp add: receiving_def)
  have wf': "t_wf ?t" "map_of (t_identities ?t) i = Some s" "id_id (get_connection_identity ?t ?a) \<noteq> i"
    using wf i other by (simp_all add: get_connection_identity_def)
  obtain t1 where l: "try_link_identity (e_os env) now (taken_from net fd q) ?t ?a i s =
      Some (True, t1, sent (e_os env) fd (dest_of ?a) (identity_packet 8 0 0) (taken_from net fd q))"
    and idn: "get_connection_identity t1 ?a = \<lparr>id_id = i, id_session_id = s, id_linked = 0\<rparr>"
    using try_link_step(1) [where a = ?a and os = "e_os env" and now = now and net = "taken_from net fd q", OF wf'(1,2) refl]
      wf'(3) fd
    by (auto simp: get_connection_identity_def create_connection_maps(1) connection_create_def)
  show ?thesis
    using receiving_ts [OF r] identity_filled [OF r] srv on l idn
    by (auto simp: receive_from_socket_def receive_gate_def Let_def get_connection_identity_def)
qed

lemma client_linked:
  assumes r: "receiving t net fd src (identity_packet 8 0 0) q" and cl: "\<not> ts_is_server (t_socket t)"
    and on: "tcf_use_identity (t_config t) = 1"
  shows "\<exists>t'. receive_from_socket env now net t = Some (RR_Retry, t', taken_from net fd q)
     \<and> t_identity t' = (t_identity t)\<lparr>id_linked := 1\<rparr> \<and> can_send t'"
  using receiving_ts [OF r] identity_filled(1) [OF r] cl on
  by (auto simp: receive_from_socket_def receive_gate_def Let_def identity_set_linked_def fire_identity_event_def can_send_def)

subsection \<open>Properties\<close>



text \<open>
  C20. An empty datagram can stop the program: after an unreliable message (or before any
  message) the type byte left in the receive buffer is 0, and an empty datagram, read
  with that byte, makes \<open>receive_loop\<close> compute the length 0 - 1 and panic. A server that does
  not use identities accepts it from anybody.
\<close>

theorem empty_datagram_panics:
  assumes "receiving t net fd src [] q" "ts_is_server (t_socket t)" "tcf_use_identity (t_config t) \<noteq> 1"
    "t_socket_receive_buffer t ! 0 = 0"
  shows "receive_loop env now net t buf = None"
proof -
  obtain h where h: "header_read (t_socket_receive_buffer t) = Some h" "h_message_type h = 0"
    using header_filled [OF assms(1)] assms(4) by auto
  have "\<exists>t1 net1. receive_from_socket env now net t = Some (RR_UnReliable 0 (from_socket_addr src), t1, net1)"
    using h assms(2,3) receiving_ts [OF assms(1)] by (simp add: receive_from_socket_def receive_gate_def Let_def)
  then have "receive_round env now net t buf = None"
    by (auto simp: receive_round_def usize_sub_def)
  then show ?thesis
    using receive_rounds.simps(2) [of 99 env now net t buf] by (simp add: receive_loop_def)
qed

theorem empty_datagram_panics_witness: "receive_loop sample_env 7 (arriving []) (sample_server 0) (replicate 10 0) = None"
  by (rule empty_datagram_panics [OF sample_receiving]) simp_all

text \<open>
  C21. A short link request is completed with the bytes of the datagram before it: the server
  reads identity and session from the receive buffer without looking at the length, so an
  address that sends the single byte 6 right after somebody's link request takes over the
  identity without knowing the session.
\<close>

theorem stale_bytes_link:
  assumes wf: "t_wf t" and r: "receiving t net fd src [6] q" and srv: "ts_is_server (t_socket t)"
    and on: "tcf_use_identity (t_config t) = 1"
    and left: "t_socket_receive_buffer t = identity_packet 6 i s @ rest" and i: "map_of (t_identities t) i = Some s"
    and other: "id_id (get_connection_identity t (from_socket_addr src)) \<noteq> i"
  shows "\<exists>t' net'. receive_from_socket env now net t = Some (RR_Retry, t', net')
    \<and> get_connection_identity t' (from_socket_addr src) = \<lparr>id_id = i, id_session_id = s, id_linked = 0\<rparr>"
proof -
  let ?a = "from_socket_addr src"
  have same: "overwrite (t_socket_receive_buffer t) 0 [6] = t_socket_receive_buffer t"
    by (simp add: left overwrite_def identity_packet_def ch_bytes_def enc_u8_def)
  have c: "ch_read (t_socket_receive_buffer t) = Some \<lparr>ch_message_type = 6, ch_id = i, ch_session_id = s\<rparr>"
    by (simp add: left identity_packet_def ch_read_prefix)
  obtain h where h: "header_read (t_socket_receive_buffer t) = Some h" "h_message_type h = 6"
    using header_filled [OF r] by (auto simp: same)
  obtain t1 net1 where l: "try_link_identity (e_os env) now (taken_from net fd q) t ?a i s = Some (True, t1, net1)"
    and idn: "get_connection_identity t1 ?a = \<lparr>id_id = i, id_session_id = s, id_linked = 0\<rparr>"
    using try_link_step(1) [where a = ?a and os = "e_os env" and now = now and net = "taken_from net fd q", OF wf i refl] other
    by (auto simp: get_connection_identity_def create_connection_maps(1) connection_create_def)
  show ?thesis
    using receiving_ts [OF r] same c h srv on l idn
    by (simp add: receive_from_socket_def receive_gate_def Let_def get_connection_identity_def)
qed

theorem stale_bytes_link_witness:
  "\<exists>t' net'. receive_from_socket sample_env 7 (arriving [6])
       ((sample_server 1)\<lparr>t_identities := [(1, 10)], t_socket_receive_buffer := identity_packet 6 1 10\<rparr>) = Some (RR_Retry, t', net')
     \<and> get_connection_identity t' (from_socket_addr sample_peer) = \<lparr>id_id = 1, id_session_id = 10, id_linked = 0\<rparr>"
  by (rule stale_bytes_link [where rest = "[]"])
    (simp_all add: receiving_def identity_packet_def get_connection_identity_def identity_default_def)

text \<open>
  A large message goes out as its fragments: from 1200 bytes up to 1022 fragments,
  \<open>send_reliable\<close> hands the system one datagram per 1200 bytes, in order, whose bodies put
  together are exactly the message and whose headers carry consecutive numbers, the
  first of them and the number of fragments; they stay stored for resending.
\<close>

lemma large_message_sent:
  assumes "can_send t" "1200 \<le> body_len" "body_len \<le> 1022 * 1200" "body_len \<le> length data" "i \<noteq> 0"
    "ts_socket (t_socket t) = Some fd" "get_channel t a i = Some c" "sm_wf (c_send_buffers c)"
    "sm_current_sequence (c_send_buffers c) = seq_of n"
  shows "\<exists>r t' c' ps. tachyon_send_reliable os now net t i a data body_len = Some (r, t', fold (sent os fd (dest_of a)) ps net)
    \<and> sres_error r = 0 \<and> get_channel t' a i = Some c'
    \<and> length ps = (body_len + 1199) div 1200 \<and> concat (map (drop 10) ps) = take body_len data
    \<and> (\<forall>j < length ps. resend_packet (c_send_buffers c') (seq_of (n + 1 + j)) = ps ! j \<and> length (ps ! j) \<le> 1210
         \<and> ps ! j = frag_bytes (header_create_fragmented (seq_of (n + 1 + j)) (c_id c)
             (fst (get_next_group (c_frag c))) (seq_of (n + 1)) (word_of_nat (length ps))) @ drop 10 (ps ! j))"
proof -
  define cs where "cs = chunks 1200 (take body_len data)"
  let ?g = "fst (get_next_group (c_frag c))" and ?ss = "map seq_of [n + 1..<n + 1 + length cs]"
  let ?h = "\<lambda>j. header_create_fragmented (seq_of (n + 1 + j)) (c_id c) ?g (seq_of (n + 1)) (word_of_nat (length cs))"
  obtain fr' m' where c': "create_fragments now (c_frag c) (c_send_buffers c) (c_id c) data body_len = Some (?ss, fr', m')"
    "sm_wf m'" and pk: "\<And>j. j < length cs \<Longrightarrow> resend_packet m' (seq_of (n + 1 + j)) = frag_bytes (?h j) @ cs ! j"
    using create_fragments_ok [OF assms(8,9,4,3), of now "c_frag c" "c_id c"] unfolding cs_def by metis
  let ?ps = "map (resend_packet m') ?ss"
  have ps: "?ps ! j = frag_bytes (?h j) @ cs ! j" if "j < length cs" for j
    using pk [OF that] that by (simp add: nth_upt del: upt_Suc)
  let ?c1 = "c\<lparr>c_frag := fr', c_send_buffers := m'\<rparr>"
  have "resend_packet m' x \<noteq> []" if x: "x \<in> set ?ss" for x
  proof -
    obtain k where "x = seq_of k" "n + 1 \<le> k" "k < n + 1 + length cs" using x by (auto simp del: upt_Suc)
    with pk [of "k - (n + 1)"] show ?thesis by (auto simp: frag_bytes_def hdr_bytes_def enc_u8_def)
  qed
  then obtain st m where sf: "send_fragments os (t_socket t) a ?ss ?c1 0 net =
      Some (Some m, ?c1\<lparr>c_stats := st\<rparr>, fold (sent os fd (dest_of a)) ?ps net)"
    using send_fragments_ok [of ?c1 "t_socket t" fd ?ss os a 0 net] c'(2) assms(6) by auto
  have cnt: "length cs = (body_len + 1199) div 1200" using assms(4) by (simp add: cs_def length_chunks min_absorb2)
  have ne: "length cs \<noteq> 0" unfolding cnt using assms(2) by simp
  have ex: "\<exists>r t' c'. tachyon_send_reliable os now net t i a data body_len = Some (r, t', fold (sent os fd (dest_of a)) ?ps net)
      \<and> sres_error r = 0 \<and> get_channel t' a i = Some c' \<and> c_send_buffers c' = m'"
    using assms(1,2,5-7) c'(1) sf ne
    by (simp add: tachyon_send_reliable_def send_on_channel_def should_fragment_def get_channel_def update_conv'
        sres_default_def del: upt_Suc)
  have bodies: "map (drop 10) ?ps = cs"
    using ps by (intro nth_equalityI) (simp_all del: upt_Suc)
  have "length (cs ! j) \<le> 1200" if "j < length cs" for j
    using chunks_bounds [of "cs ! j" 1200 "take body_len data"] that by (simp add: cs_def)
  then have hd: "\<forall>j < length ?ps. resend_packet m' (seq_of (n + 1 + j)) = ?ps ! j \<and> length (?ps ! j) \<le> 1210
      \<and> ?ps ! j = frag_bytes (header_create_fragmented (seq_of (n + 1 + j)) (c_id c) ?g (seq_of (n + 1))
          (word_of_nat (length ?ps))) @ drop 10 (?ps ! j)"
    using pk ps by (auto simp del: upt_Suc)
  have lens: "length ?ps = (body_len + 1199) div 1200" "concat (map (drop 10) ?ps) = take body_len data"
    unfolding bodies using cnt by (simp_all add: cs_def)
  obtain r t' c' where "tachyon_send_reliable os now net t i a data body_len = Some (r, t', fold (sent os fd (dest_of a)) ?ps net)"
    "sres_error r = 0" "get_channel t' a i = Some c'" "c_send_buffers c' = m'"
    using ex by blast
  with hd lens show ?thesis by blast
qed

text \<open>
  C17. The handshake links the client: a client with an identity whose last request is more than
  300 ms old sends a link request; a server that knows the identity with that session and
  gets the request connects the sender under it and answers; and the client that gets
  the answer is linked and may send.
\<close>

theorem handshake_links:
  assumes cl: "\<not> ts_is_server (t_socket cl)" "tcf_use_identity (t_config cl) = 1" "ts_socket (t_socket cl) = Some fc"
      "t_identity cl = \<lparr>id_id = i, id_session_id = s, id_linked = 0\<rparr>" "i > 0" "s > 0"
      "int now - t_last_identity_link_request cl \<ge> 301 * 1000000"
    and sv: "t_wf sv" "ts_is_server (t_socket sv)" "tcf_use_identity (t_config sv) = 1" "map_of (t_identities sv) i = Some s"
      "id_id (get_connection_identity sv (from_socket_addr src)) \<noteq> i"
  shows "\<exists>cl'. client_identity_update (e_os env) now net cl = Some (cl', sent (e_os env) fc Connected (identity_packet 6 i s) net)
    \<and> (\<forall>net' fs q. receiving sv net' fs src (identity_packet 6 i s) q \<longrightarrow>
        (\<exists>sv'. receive_from_socket env now' net' sv = Some (RR_Retry, sv',
            sent (e_os env) fs (dest_of (from_socket_addr src)) (identity_packet 8 0 0) (net'\<lparr>net_in := (net_in net')(fs := q)\<rparr>))
          \<and> get_connection_identity sv' (from_socket_addr src) = \<lparr>id_id = i, id_session_id = s, id_linked = 0\<rparr>))
    \<and> (\<forall>net' from q. receiving cl' net' fc from (identity_packet 8 0 0) q \<longrightarrow>
        (\<exists>cl'' net''. receive_from_socket env now' net' cl' = Some (RR_Retry, cl'', net'')
          \<and> identity_is_linked (t_identity cl'') \<and> can_send cl''))"
proof -
  let ?cl = "cl\<lparr>t_last_identity_link_request := int now\<rparr>"
  have valid: "identity_is_valid (t_identity cl)" "\<not> identity_is_linked (t_identity cl)"
    using cl(4-6) by (simp_all add: identity_is_valid_def identity_is_linked_def)
  have late: "300 < (int now - t_last_identity_link_request cl) div 1000000" using cl(7) by linarith
  have dest: "dest_of na_default = Connected" by (simp add: dest_of_def na_default_def)
  have c: "client_identity_update (e_os env) now net cl = Some (?cl, sent (e_os env) fc Connected (identity_packet 6 i s) net)"
    using cl(1-4) valid late dest by (simp add: client_identity_update_def identity_sends)
  have "\<exists>cl'' net''. receive_from_socket env now' net' ?cl = Some (RR_Retry, cl'', net'') \<and> identity_is_linked (t_identity cl'') \<and> can_send cl''"
    if "receiving ?cl net' fc from (identity_packet 8 0 0) q" for net' "from" q
    using client_linked [OF that, of env now'] cl(1,2,4-6) by (auto simp: identity_is_linked_def identity_is_valid_def)
  with c server_links [OF sv(1) _ sv(2,3,4,5)] show ?thesis by blast
qed

theorem handshake_links_witness:
  "\<exists>cl cl' sv'. client_identity_update os_ideal (10 ^ 12) net_empty cl = Some (cl', sent os_ideal 0 Connected (identity_packet 6 1 10) net_empty)
     \<and> receive_from_socket sample_env 7 (arriving (identity_packet 6 1 10)) ((sample_server 1)\<lparr>t_identities := [(1, 10)]\<rparr>) =
         Some (RR_Retry, sv', sent os_ideal 0 (dest_of (from_socket_addr sample_peer)) (identity_packet 8 0 0)
           ((arriving (identity_packet 6 1 10))\<lparr>net_in := (net_in (arriving (identity_packet 6 1 10)))(0 := [])\<rparr>))
     \<and> (\<exists>cl'' net''. receive_from_socket sample_env 7 (arriving (identity_packet 8 0 0)) cl' = Some (RR_Retry, cl'', net'') \<and> can_send cl'')"
proof -
  let ?cl = "(sample_server 1)\<lparr>t_socket := ts_create\<lparr>ts_socket := Some 0\<rparr>, t_identity := \<lparr>id_id = 1, id_session_id = 10, id_linked = 0\<rparr>,
      t_last_identity_link_request := 0\<rparr>"
  let ?sv = "(sample_server 1)\<lparr>t_identities := [(1, 10)]\<rparr>"
  have len: "length (identity_packet ty i s) = 12" for ty i s by (simp add: identity_packet_def)
  have os: "e_os sample_env = os_ideal" by (simp add: sample_env_def)
  have "\<exists>cl'. client_identity_update (e_os sample_env) (10 ^ 12) net_empty ?cl =
        Some (cl', sent (e_os sample_env) 0 Connected (identity_packet 6 1 10) net_empty)
    \<and> (\<forall>net' fs q. receiving ?sv net' fs sample_peer (identity_packet 6 1 10) q \<longrightarrow>
        (\<exists>sv'. receive_from_socket sample_env 7 net' ?sv = Some (RR_Retry, sv',
            sent (e_os sample_env) fs (dest_of (from_socket_addr sample_peer)) (identity_packet 8 0 0) (net'\<lparr>net_in := (net_in net')(fs := q)\<rparr>))
          \<and> get_connection_identity sv' (from_socket_addr sample_peer) = \<lparr>id_id = 1, id_session_id = 10, id_linked = 0\<rparr>))
    \<and> (\<forall>net' from q. receiving cl' net' 0 from (identity_packet 8 0 0) q \<longrightarrow>
        (\<exists>cl'' net''. receive_from_socket sample_env 7 net' cl' = Some (RR_Retry, cl'', net'')
          \<and> identity_is_linked (t_identity cl'') \<and> can_send cl''))"
    by (rule handshake_links) (simp_all add: get_connection_identity_def identity_default_def ts_create_def)
  then obtain cl' where cl': "client_identity_update os_ideal (10 ^ 12) net_empty ?cl =
        Some (cl', sent os_ideal 0 Connected (identity_packet 6 1 10) net_empty)"
    and b: "\<And>net' fs q. receiving ?sv net' fs sample_peer (identity_packet 6 1 10) q \<Longrightarrow>
        (\<exists>sv'. receive_from_socket sample_env 7 net' ?sv = Some (RR_Retry, sv',
            sent os_ideal fs (dest_of (from_socket_addr sample_peer)) (identity_packet 8 0 0) (net'\<lparr>net_in := (net_in net')(fs := q)\<rparr>)))"
    and c: "\<And>net' from q. receiving cl' net' 0 from (identity_packet 8 0 0) q \<Longrightarrow>
        (\<exists>cl'' net''. receive_from_socket sample_env 7 net' cl' = Some (RR_Retry, cl'', net'') \<and> can_send cl'')"
    unfolding os by blast
  have "receiving ?sv (arriving (identity_packet 6 1 10)) 0 sample_peer (identity_packet 6 1 10) []"
    by (simp add: receiving_def len)
  moreover have "cl' = ?cl\<lparr>t_last_identity_link_request := int (10 ^ 12)\<rparr>"
    using cl' by (simp add: client_identity_update_def identity_sends identity_is_valid_def identity_is_linked_def ts_create_def)
  then have "receiving cl' (arriving (identity_packet 8 0 0)) 0 sample_peer (identity_packet 8 0 0) []"
    by (simp add: receiving_def len)
  ultimately show ?thesis using cl' b c by blast
qed

text \<open>
  C22. The reverse map of identities goes stale: when another identity links from the address of
  an identity, the old entry stays, and a message for the old identity is sent exactly
  as one for that address, which the new identity holds.
\<close>

theorem stale_identity_target:
  assumes "t_wf t" "links_ok t" "id_id (get_connection_identity t a) = i" "i \<noteq> 0" "j \<noteq> i" "map_of (t_identities t) j = Some s"
  shows "\<exists>t' net'. try_link_identity os now net t a j s = Some (True, t', net')
    \<and> id_id (get_connection_identity t' a) = j
    \<and> send_to_target os now' net'' t' ch \<lparr>tgt_identity_id = i, tgt_address = x\<rparr> data n =
        send_to_target os now' net'' t' ch \<lparr>tgt_identity_id = 0, tgt_address = a\<rparr> data n"
proof -
  obtain t' net' where l: "try_link_identity os now net t a j s = Some (True, t', net')"
    and idn: "id_id (get_connection_identity t' a) = j"
    and m: "map_of (t_identity_to_address_map t') i = map_of (t_identity_to_address_map t) i"
    using try_link_step(1) [where a = a and os = os and now = now and net = net, OF assms(1,6) refl] assms(3,5)
    by (auto simp: get_connection_identity_def create_connection_maps(1) connection_create_def update_conv')
  have "map_of (t_identity_to_address_map t) i = Some a"
    using assms(2-4) by (auto simp: links_ok_def get_connection_identity_def identity_default_def split: option.splits)
  moreover have "i > 0" using assms(4) by (simp add: word_gt_0)
  ultimately show ?thesis using l idn m by (auto simp: send_to_target_def)
qed

theorem stale_identity_target_witness:
  "\<exists>t t' net'. try_link_identity os_ideal 5 net_empty t (na_localhost 100) 2 20 = Some (True, t', net')
     \<and> id_id (get_connection_identity t' (na_localhost 100)) = 2
     \<and> send_to_target os_ideal 5 net_empty t' 1 \<lparr>tgt_identity_id = 1, tgt_address = na_default\<rparr> [9] 1 =
         send_to_target os_ideal 5 net_empty t' 1 \<lparr>tgt_identity_id = 0, tgt_address = na_localhost 100\<rparr> [9] 1"
proof -
  let ?a = "na_localhost 100" and ?s = "(sample_server 1)\<lparr>t_identities := [(1, 10), (2, 20)]\<rparr>"
  have s: "t_wf ?s" "links_ok ?s" by (simp_all add: links_ok_def)
  obtain t net where l: "try_link_identity os_ideal 0 net_empty ?s ?a 1 10 = Some (True, t, net)"
    and t: "id_id (get_connection_identity t ?a) = 1" "t_identities t = t_identities ?s"
    using try_link_step(1) [where a = ?a and os = os_ideal and now = 0 and net = net_empty and i = 1 and s = 10, OF s(1) _ refl]
      remove_connection_by_identity_ok(6) [OF s(1), of 1]
    by (auto simp: get_connection_identity_def create_connection_maps(1) connection_create_def identity_default_def)
  have inv: "t_wf t" "links_ok t" using try_link_cases [OF s l] by simp_all
  have two: "map_of (t_identities t) 2 = Some 20" by (simp add: t(2))
  show ?thesis
    using stale_identity_target [OF inv t(1) _ _ two, of os_ideal 5 net_empty 5 net_empty 1 na_default "[9]" 1] by auto
qed

end
