(* ===== verification/Pool.thy ===== *)
theory Pool
  imports Endpoint_Behaviour "HOL-Library.Multiset"
begin

text \<open>
  \<^verbatim>\<open>src/src/tachyon/pool.rs\<close>: several servers that receive on worker threads. The queues they
  share are \<open>ArrayQueue\<close>s of the crate \<open>crossbeam\<close>, an argument: the operations of a queue
  are a record, one per type of content. A worker is a machine whose steps are its
  operations on the shared queues and its calls of \<open>receive_loop\<close>; the threads of the crate
  \<open>rayon\<close> take these steps in any order.
\<close>

subsection \<open>Queues\<close>

text \<open>\<open>push\<close> returns whether there was room; an element that does not fit is dropped by every caller.\<close>

record ('a, 'q) array_queue =
  aq_new :: "nat \<Rightarrow> 'q"
  aq_push :: "'a \<Rightarrow> 'q \<Rightarrow> bool \<times> 'q"
  aq_pop :: "'q \<Rightarrow> 'a option \<times> 'q"
  aq_len :: "'q \<Rightarrow> nat"

subsection \<open>The pool\<close>

record pool_server_ref =
  psr_address :: network_address
  psr_id :: u16

record out_buffer_counts =
  obc_bytes_written :: u32
  obc_count :: u32

definition obc_default :: out_buffer_counts where
  "obc_default = \<lparr>obc_bytes_written = 0, obc_count = 0\<rparr>"

record out_buffer =
  ob_data :: bytes
  ob_bytes_written :: u32
  ob_count :: u32

record ('rq, 'rb, 'ob, 'su) pool =
  p_next_id :: u16
  p_max_servers :: u8
  p_receive_buffer_len :: u32
  p_servers :: "(u16 \<times> tachyon) list"
  p_receive_queue :: 'rq
  p_receive_buffers :: 'rb
  p_out_buffers :: 'ob
  p_published :: "bytes list"
  p_servers_in_use :: 'su
  p_counter :: "nat option"
  p_connections_by_identity :: "(u32 \<times> connection) list"
  p_connections_by_address :: "(network_address \<times> connection) list"

text \<open>What the pool uses from outside: the endpoint's environment, the queues and the orders of the hash maps.\<close>

record ('rq, 'rb, 'ob, 'su) pool_env =
  pe_env :: env
  pe_rq :: "(bytes list, 'rq) array_queue"
  pe_rb :: "(bytes, 'rb) array_queue"
  pe_ob :: "(out_buffer, 'ob) array_queue"
  pe_su :: "(tachyon, 'su) array_queue"
  pe_server_order :: "(u16 \<times> tachyon) list \<Rightarrow> (u16 \<times> tachyon) list"
  pe_connection_order :: "(network_address \<times> connection) list \<Rightarrow> (network_address \<times> connection) list"

abbreviation push_or_drop :: "('a, 'q) array_queue \<Rightarrow> 'a \<Rightarrow> 'q \<Rightarrow> 'q" where
  "push_or_drop aq x q \<equiv> snd (aq_push aq x q)"

fun pool_fill ::
  "nat \<Rightarrow> ('rq, 'rb, 'ob, 'su) pool_env \<Rightarrow> u32 \<Rightarrow> u32 \<Rightarrow> 'rq \<times> 'rb \<times> 'ob \<Rightarrow> 'rq \<times> 'rb \<times> 'ob" where
  "pool_fill 0 pe receive_buffer_len out_buffer_len queues = queues"
| "pool_fill (Suc n) pe receive_buffer_len out_buffer_len (queue, receive_buffers, out_buffers) =
     (let queue = push_or_drop (pe_rq pe) [] queue;
          receive_buffers = push_or_drop (pe_rb pe) (replicate (unat receive_buffer_len) 0) receive_buffers;
          buffer = \<lparr>ob_data = replicate (unat out_buffer_len) 0, ob_bytes_written = 0, ob_count = 0\<rparr>;
          out_buffers = push_or_drop (pe_ob pe) buffer out_buffers
      in pool_fill n pe receive_buffer_len out_buffer_len (queue, receive_buffers, out_buffers))"

definition pool_create :: "('rq, 'rb, 'ob, 'su) pool_env \<Rightarrow> u8 \<Rightarrow> u32 \<Rightarrow> u32 \<Rightarrow> ('rq, 'rb, 'ob, 'su) pool" where
  "pool_create pe max_servers receive_buffer_len out_buffer_len =
     (let receive_buffers = aq_new (pe_rb pe) (unat max_servers);
          out_buffers = aq_new (pe_ob pe) (unat max_servers);
          queue = aq_new (pe_rq pe) (unat max_servers);
          (queue, receive_buffers, out_buffers) =
            pool_fill (unat max_servers) pe receive_buffer_len out_buffer_len (queue, receive_buffers, out_buffers);
          in_use = aq_new (pe_su pe) (unat max_servers)
      in \<lparr>p_next_id = 0, p_max_servers = max_servers, p_receive_buffer_len = receive_buffer_len, p_servers = [],
          p_receive_queue = queue, p_receive_buffers = receive_buffers, p_out_buffers = out_buffers, p_published = [],
          p_servers_in_use = in_use, p_counter = None, p_connections_by_identity = [], p_connections_by_address = []\<rparr>)"

definition create_server ::
  "('rq, 'rb, 'ob, 'su) pool_env \<Rightarrow> nat \<Rightarrow> network \<Rightarrow> ('rq, 'rb, 'ob, 'su) pool \<Rightarrow> tachyon_config \<Rightarrow> network_address \<Rightarrow> u16
     \<Rightarrow> (bool \<times> ('rq, 'rb, 'ob, 'su) pool \<times> network) option" where
  "create_server pe now net self config address i =
     (if length (p_servers self) > unat (p_max_servers self) then Some (False, self, net)
      else if map_of (p_servers self) i \<noteq> None then Some (False, self, net)
      else do {
        let tachyon = tachyon_create now config;
        (ok, tachyon, net) \<leftarrow> tachyon_bind (e_os (pe_env pe)) net tachyon address;
        if ok then Some (True, self\<lparr>p_servers := AList.update i (tachyon\<lparr>t_id := i\<rparr>) (p_servers self)\<rparr>, net)
        else Some (False, self, net) })"

definition pool_set_identity ::
  "('rq, 'rb, 'ob, 'su) pool \<Rightarrow> u16 \<Rightarrow> u32 \<Rightarrow> u32 \<Rightarrow> u32 \<Rightarrow> ('rq, 'rb, 'ob, 'su) pool" where
  "pool_set_identity self server_id i session_id on_self =
     (case map_of (p_servers self) server_id of
        Some tachyon \<Rightarrow>
          (let tachyon = (if on_self = 1
             then tachyon\<lparr>t_identity := (t_identity tachyon)\<lparr>id_id := i, id_session_id := session_id\<rparr>\<rparr>
             else set_identity tachyon i session_id)
           in self\<lparr>p_servers := AList.update server_id tachyon (p_servers self)\<rparr>)
      | None \<Rightarrow> self)"

definition build_connection_maps ::
  "('rq, 'rb, 'ob, 'su) pool_env \<Rightarrow> ('rq, 'rb, 'ob, 'su) pool \<Rightarrow> ('rq, 'rb, 'ob, 'su) pool" where
  "build_connection_maps pe self =
     (let conns = concat (map (\<lambda>(_, server). map snd (pe_connection_order pe (t_connections server)))
                     (pe_server_order pe (p_servers self)))
      in self\<lparr>p_connections_by_address := fold (\<lambda>conn m. AList.update (conn_address conn) conn m) conns [],
              p_connections_by_identity := fold (\<lambda>conn m. if id_id (conn_identity conn) > 0
                 then AList.update (id_id (conn_identity conn)) conn m else m) conns []\<rparr>)"

definition get_server_having_connection :: "('rq, 'rb, 'ob, 'su) pool \<Rightarrow> network_address \<Rightarrow> u16" where
  "get_server_having_connection self address =
     (case map_of (p_connections_by_address self) address of Some conn \<Rightarrow> conn_tachyon_id conn | None \<Rightarrow> 0)"

definition get_server_having_identity :: "('rq, 'rb, 'ob, 'su) pool \<Rightarrow> u32 \<Rightarrow> u16" where
  "get_server_having_identity self identity_id =
     (case map_of (p_connections_by_identity self) identity_id of Some conn \<Rightarrow> conn_tachyon_id conn | None \<Rightarrow> 0)"

fun available_loop :: "(u16 \<times> tachyon) list \<Rightarrow> nat \<Rightarrow> pool_server_ref option \<Rightarrow> pool_server_ref option" where
  "available_loop [] low best = best"
| "available_loop ((_, server) # rest) low best =
     (let conn_count = length (t_connections server)
      in if conn_count < low \<and> ts_socket (t_socket server) \<noteq> None
         then available_loop rest conn_count (Some \<lparr>psr_address = ts_address (t_socket server), psr_id = t_id server\<rparr>)
         else available_loop rest low best)"

definition get_available_server ::
  "('rq, 'rb, 'ob, 'su) pool_env \<Rightarrow> ('rq, 'rb, 'ob, 'su) pool \<Rightarrow> pool_server_ref option" where
  "get_available_server pe self = available_loop (pe_server_order pe (p_servers self)) 10000 None"

definition get_server :: "('rq, 'rb, 'ob, 'su) pool \<Rightarrow> u16 \<Rightarrow> tachyon option" where
  "get_server self i = map_of (p_servers self) i"

subsection \<open>Sending\<close>

text \<open>The conversion \<open>length as usize\<close> of an \<open>i32\<close> extends the sign.\<close>

definition usize_of_i32 :: "32 word \<Rightarrow> nat" where
  "usize_of_i32 len = unat (scast len :: 64 word)"

definition send_on_server ::
  "os \<Rightarrow> nat \<Rightarrow> network \<Rightarrow> ('rq, 'rb, 'ob, 'su) pool \<Rightarrow> u16 \<Rightarrow> tachyon \<Rightarrow> u8 \<Rightarrow> network_address \<Rightarrow> bytes \<Rightarrow> nat
     \<Rightarrow> (send_result \<times> ('rq, 'rb, 'ob, 'su) pool \<times> network) option" where
  "send_on_server os now net self i server channel_id address data len = do {
     (result, server, net) \<leftarrow> (if channel_id = 0 then send_unreliable os net server address data len
       else tachyon_send_reliable os now net server channel_id address data len);
     Some (result, self\<lparr>p_servers := AList.update i server (p_servers self)\<rparr>, net) }"

definition send_to_identity ::
  "os \<Rightarrow> nat \<Rightarrow> network \<Rightarrow> ('rq, 'rb, 'ob, 'su) pool \<Rightarrow> u8 \<Rightarrow> u32 \<Rightarrow> bytes \<Rightarrow> 32 word
     \<Rightarrow> (send_result \<times> ('rq, 'rb, 'ob, 'su) pool \<times> network) option" where
  "send_to_identity os now net self channel_id i data len =
     (case map_of (p_connections_by_identity self) i of
        Some conn \<Rightarrow>
          (case map_of (p_servers self) (conn_tachyon_id conn) of
             Some server \<Rightarrow> send_on_server os now net self (conn_tachyon_id conn) server channel_id (conn_address conn) data (usize_of_i32 len)
           | None \<Rightarrow> Some (sres_default, self, net))
      | None \<Rightarrow> Some (sres_default, self, net))"

definition send_to_address ::
  "os \<Rightarrow> nat \<Rightarrow> network \<Rightarrow> ('rq, 'rb, 'ob, 'su) pool \<Rightarrow> u8 \<Rightarrow> network_address \<Rightarrow> bytes \<Rightarrow> 32 word
     \<Rightarrow> (send_result \<times> ('rq, 'rb, 'ob, 'su) pool \<times> network) option" where
  "send_to_address os now net self channel_id address data len =
     (case map_of (p_connections_by_address self) address of
        Some conn \<Rightarrow>
          (case map_of (p_servers self) (conn_tachyon_id conn) of
             Some sender \<Rightarrow> send_on_server os now net self (conn_tachyon_id conn) sender channel_id address data (usize_of_i32 len)
           | None \<Rightarrow> Some (sres_default, self, net))
      | None \<Rightarrow> Some (sres_default, self, net))"

definition pool_send_to_target ::
  "os \<Rightarrow> nat \<Rightarrow> network \<Rightarrow> ('rq, 'rb, 'ob, 'su) pool \<Rightarrow> u8 \<Rightarrow> send_target \<Rightarrow> bytes \<Rightarrow> 32 word
     \<Rightarrow> (send_result \<times> ('rq, 'rb, 'ob, 'su) pool \<times> network) option" where
  "pool_send_to_target os now net self channel_id target data len =
     (if tgt_identity_id target > 0 then send_to_identity os now net self channel_id (tgt_identity_id target) data len
      else send_to_address os now net self channel_id (tgt_address target) data len)"

subsection \<open>Receiving into the queues\<close>

definition pool_take_published :: "('rq, 'rb, 'ob, 'su) pool \<Rightarrow> bytes option \<times> ('rq, 'rb, 'ob, 'su) pool" where
  "pool_take_published self =
     (case p_published self of [] \<Rightarrow> (None, self) | value # rest \<Rightarrow> (Some value, self\<lparr>p_published := rest\<rparr>))"

fun move_received_loop ::
  "nat \<Rightarrow> ('rq, 'rb, 'ob, 'su) pool_env \<Rightarrow> ('rq, 'rb, 'ob, 'su) pool \<Rightarrow> nat \<Rightarrow> nat \<times> ('rq, 'rb, 'ob, 'su) pool" where
  "move_received_loop 0 pe self message_count = (message_count, self)"
| "move_received_loop (Suc n) pe self message_count =
     (case aq_pop (pe_rq pe) (p_receive_queue self) of
        (Some receive_queue, rq) \<Rightarrow> move_received_loop n pe
          (self\<lparr>p_receive_queue := push_or_drop (pe_rq pe) [] rq, p_published := p_published self @ receive_queue\<rparr>)
          (message_count + length receive_queue)
      | (None, rq) \<Rightarrow> move_received_loop n pe (self\<lparr>p_receive_queue := rq\<rparr>) message_count)"

definition move_received_to_published ::
  "('rq, 'rb, 'ob, 'su) pool_env \<Rightarrow> ('rq, 'rb, 'ob, 'su) pool \<Rightarrow> nat \<times> ('rq, 'rb, 'ob, 'su) pool" where
  "move_received_to_published pe self = move_received_loop (aq_len (pe_rq pe) (p_receive_queue self)) pe self 0"

abbreviation (input) RECEIVE_ROUNDS :: nat where "RECEIVE_ROUNDS \<equiv> 100000"

text \<open>One round of \<open>receive_server\<close>: whether to go on, the server, its queue and its buffer.\<close>

definition receive_server_round ::
  "env \<Rightarrow> nat \<Rightarrow> network \<Rightarrow> tachyon \<Rightarrow> bytes list \<Rightarrow> bytes \<Rightarrow> (bool \<times> tachyon \<times> bytes list \<times> bytes \<times> network) option" where
  "receive_server_round env now net server receive_queue receive_buffer = do {
     (res, server, net, receive_buffer) \<leftarrow> receive_loop env now net server receive_buffer;
     if trr_length res = 0 \<or> trr_error res > 0 then Some (False, server, receive_queue, receive_buffer, net)
     else do {
       message \<leftarrow> slice receive_buffer 0 (unat (trr_length res));
       Some (True, server, receive_queue @ [message], receive_buffer, net) } }"

fun receive_server ::
  "nat \<Rightarrow> env \<Rightarrow> nat \<Rightarrow> network \<Rightarrow> tachyon \<Rightarrow> bytes list \<Rightarrow> bytes \<Rightarrow> (tachyon \<times> bytes list \<times> bytes \<times> network) option" where
  "receive_server 0 env now net server receive_queue receive_buffer = Some (server, receive_queue, receive_buffer, net)"
| "receive_server (Suc n) env now net server receive_queue receive_buffer = do {
     (go_on, server, receive_queue, receive_buffer, net) \<leftarrow>
       receive_server_round env now net server receive_queue receive_buffer;
     if go_on then receive_server n env now net server receive_queue receive_buffer
     else Some (server, receive_queue, receive_buffer, net) }"

text \<open>
  The states of a worker: where it is in the closure that \<open>receive\<close> spawns. In
  \<open>receive_server\<close> the first argument of \<open>T_Receive\<close> is the number of rounds that are left.
\<close>

datatype task =
    T_Start
  | T_Server tachyon
  | T_Queue tachyon "bytes list"
  | T_Receive nat tachyon "bytes list" bytes
  | T_Return_Buffer tachyon "bytes list" bytes
  | T_Return_Queue tachyon "bytes list"
  | T_Return_Server tachyon
  | T_Done

fun task_step ::
  "('rq, 'rb, 'ob, 'su) pool_env \<Rightarrow> nat \<Rightarrow> task \<Rightarrow> ('rq, 'rb, 'ob, 'su) pool \<Rightarrow> network
     \<Rightarrow> (task \<times> ('rq, 'rb, 'ob, 'su) pool \<times> network) option" where
  "task_step pe now T_Start p net =
     (case aq_pop (pe_su pe) (p_servers_in_use p) of
        (Some server, q) \<Rightarrow> Some (T_Server server, p\<lparr>p_servers_in_use := q\<rparr>, net)
      | (None, q) \<Rightarrow> Some (T_Done, p\<lparr>p_servers_in_use := q\<rparr>, net))"
| "task_step pe now (T_Server server) p net =
     (case aq_pop (pe_rq pe) (p_receive_queue p) of
        (Some receive_queue, q) \<Rightarrow> Some (T_Queue server receive_queue, p\<lparr>p_receive_queue := q\<rparr>, net)
      | (None, q) \<Rightarrow> Some (T_Return_Server server, p\<lparr>p_receive_queue := q\<rparr>, net))"
| "task_step pe now (T_Queue server receive_queue) p net =
     (case aq_pop (pe_rb pe) (p_receive_buffers p) of
        (Some receive_buffer, q) \<Rightarrow> Some (T_Receive RECEIVE_ROUNDS server receive_queue receive_buffer, p\<lparr>p_receive_buffers := q\<rparr>, net)
      | (None, q) \<Rightarrow> Some (T_Return_Queue server receive_queue, p\<lparr>p_receive_buffers := q\<rparr>, net))"
| "task_step pe now (T_Receive 0 server receive_queue receive_buffer) p net =
     Some (T_Return_Buffer server receive_queue receive_buffer, p, net)"
| "task_step pe now (T_Receive (Suc n) server receive_queue receive_buffer) p net = do {
     (go_on, server, receive_queue, receive_buffer, net) \<leftarrow>
       receive_server_round (pe_env pe) now net server receive_queue receive_buffer;
     Some (if go_on then T_Receive n server receive_queue receive_buffer
           else T_Return_Buffer server receive_queue receive_buffer, p, net) }"
| "task_step pe now (T_Return_Buffer server receive_queue receive_buffer) p net =
     Some (T_Return_Queue server receive_queue,
           p\<lparr>p_receive_buffers := push_or_drop (pe_rb pe) receive_buffer (p_receive_buffers p)\<rparr>, net)"
| "task_step pe now (T_Return_Queue server receive_queue) p net =
     Some (T_Return_Server server, p\<lparr>p_receive_queue := push_or_drop (pe_rq pe) receive_queue (p_receive_queue p)\<rparr>, net)"
| "task_step pe now (T_Return_Server server) p net =
     Some (T_Done, p\<lparr>p_servers_in_use := push_or_drop (pe_su pe) server (p_servers_in_use p)\<rparr>, net)"
| "task_step pe now T_Done p net = None"

text \<open>\<open>receive\<close> moves the servers to the queue and spawns one worker per server, the third component.\<close>

definition pool_receive ::
  "('rq, 'rb, 'ob, 'su) pool_env \<Rightarrow> ('rq, 'rb, 'ob, 'su) pool \<Rightarrow> bool \<times> ('rq, 'rb, 'ob, 'su) pool \<times> task list" where
  "pool_receive pe self =
     (let server_count = length (p_servers self)
      in if server_count = 0 then (False, self, [])
         else (True,
           self\<lparr>p_servers_in_use := fold (push_or_drop (pe_su pe)) (map snd (pe_server_order pe (p_servers self))) (p_servers_in_use self),
                p_servers := [], p_counter := Some server_count\<rparr>,
           replicate server_count T_Start))"

fun collect_servers ::
  "nat \<Rightarrow> ('rq, 'rb, 'ob, 'su) pool_env \<Rightarrow> ('rq, 'rb, 'ob, 'su) pool \<Rightarrow> nat \<Rightarrow> nat \<times> ('rq, 'rb, 'ob, 'su) pool" where
  "collect_servers 0 pe self server_count = (server_count, self)"
| "collect_servers (Suc n) pe self server_count =
     (case aq_pop (pe_su pe) (p_servers_in_use self) of
        (Some server, q) \<Rightarrow> collect_servers n pe
          (self\<lparr>p_servers_in_use := q, p_servers := AList.update (t_id server) server (p_servers self)\<rparr>) (server_count + 1)
      | (None, q) \<Rightarrow> collect_servers n pe (self\<lparr>p_servers_in_use := q\<rparr>) server_count)"

text \<open>
  \<open>finish_receive\<close> after \<open>counter.wait()\<close>, that is, when every worker has signalled. One receive
  returns at most 100000 messages of each of at most 256 servers, far from the limit of the
  32-bit counts, which are natural numbers here.
\<close>

definition finish_receive ::
  "('rq, 'rb, 'ob, 'su) pool_env \<Rightarrow> ('rq, 'rb, 'ob, 'su) pool \<Rightarrow> (nat \<times> nat) \<times> ('rq, 'rb, 'ob, 'su) pool" where
  "finish_receive pe self =
     (case p_counter self of
        Some counter \<Rightarrow>
          (let (message_count, self) = move_received_to_published pe self;
               (server_count, self) = collect_servers (aq_len (pe_su pe) (p_servers_in_use self)) pe self 0
           in ((server_count, message_count), self\<lparr>p_counter := None\<rparr>))
      | None \<Rightarrow> ((0, 0), self))"


text \<open>
  \<open>receive_blocking\<close> runs the same worker on every server where it is: a worker starts with its
  server and ends before it would return it. The servers that came out are put back under
  their keys and the messages are published.
\<close>

fun task_result :: "task \<Rightarrow> tachyon option" where
  "task_result (T_Return_Server server) = Some server"
| "task_result _ = None"

definition blocking_tasks :: "('rq, 'rb, 'ob, 'su) pool \<Rightarrow> task list" where
  "blocking_tasks self = map (\<lambda>(_, server). T_Server server) (p_servers self)"

definition finish_blocking ::
  "('rq, 'rb, 'ob, 'su) pool_env \<Rightarrow> ('rq, 'rb, 'ob, 'su) pool \<Rightarrow> task list \<Rightarrow> ('rq, 'rb, 'ob, 'su) pool" where
  "finish_blocking pe self ts =
     snd (move_received_to_published pe
       (self\<lparr>p_servers := map (\<lambda>((key, server), t). (key, case task_result t of Some s \<Rightarrow> s | None \<Rightarrow> server)) (zip (p_servers self) ts)\<rparr>))"

subsection \<open>Receiving into the out buffers\<close>

text \<open>One round of \<open>receive_server_into_out_buffer\<close>: whether to go on, then the changed state.\<close>

definition out_buffer_round ::
  "env \<Rightarrow> nat \<Rightarrow> network \<Rightarrow> tachyon \<Rightarrow> out_buffer \<Rightarrow> bytes \<Rightarrow> length_prefixed
     \<Rightarrow> (bool \<times> tachyon \<times> out_buffer \<times> bytes \<times> length_prefixed \<times> network) option" where
  "out_buffer_round env now net server out_buffer receive_buffer writer = do {
     (res, server, net, receive_buffer) \<leftarrow> receive_loop env now net server receive_buffer;
     if trr_length res = 0 \<or> trr_error res > 0
     then Some (False, server, out_buffer\<lparr>ob_bytes_written := word_of_nat (ib_index (lp_writer writer))\<rparr>, receive_buffer, writer, net)
     else do {
       src \<leftarrow> slice receive_buffer 0 (unat (trr_length res));
       (writer, data) \<leftarrow> lp_write writer (trr_channel res) (trr_address res) src (ob_data out_buffer);
       Some (True, server, out_buffer\<lparr>ob_data := data, ob_count := ob_count out_buffer + 1\<rparr>, receive_buffer, writer, net) } }"

fun out_buffer_loop ::
  "nat \<Rightarrow> env \<Rightarrow> nat \<Rightarrow> network \<Rightarrow> tachyon \<Rightarrow> out_buffer \<Rightarrow> bytes \<Rightarrow> length_prefixed
     \<Rightarrow> (tachyon \<times> out_buffer \<times> bytes \<times> network) option" where
  "out_buffer_loop 0 env now net server out_buffer receive_buffer writer = Some (server, out_buffer, receive_buffer, net)"
| "out_buffer_loop (Suc n) env now net server out_buffer receive_buffer writer = do {
     (go_on, server, out_buffer, receive_buffer, writer, net) \<leftarrow> out_buffer_round env now net server out_buffer receive_buffer writer;
     if go_on then out_buffer_loop n env now net server out_buffer receive_buffer writer
     else Some (server, out_buffer, receive_buffer, net) }"

definition receive_server_into_out_buffer ::
  "env \<Rightarrow> nat \<Rightarrow> network \<Rightarrow> tachyon \<Rightarrow> out_buffer \<Rightarrow> bytes \<Rightarrow> (tachyon \<times> out_buffer \<times> bytes \<times> network) option" where
  "receive_server_into_out_buffer env now net server out_buffer receive_buffer =
     out_buffer_loop RECEIVE_ROUNDS env now net server out_buffer receive_buffer lp_default"

datatype out_task =
    O_Server tachyon
  | O_Out tachyon out_buffer
  | O_Receive nat tachyon out_buffer bytes length_prefixed
  | O_Return_Buffer tachyon out_buffer bytes
  | O_Return_Out tachyon out_buffer
  | O_Done tachyon

fun out_task_step ::
  "('rq, 'rb, 'ob, 'su) pool_env \<Rightarrow> nat \<Rightarrow> out_task \<Rightarrow> ('rq, 'rb, 'ob, 'su) pool \<Rightarrow> network
     \<Rightarrow> (out_task \<times> ('rq, 'rb, 'ob, 'su) pool \<times> network) option" where
  "out_task_step pe now (O_Server server) p net =
     (case aq_pop (pe_ob pe) (p_out_buffers p) of
        (Some out_buffer, q) \<Rightarrow> Some (O_Out server (out_buffer\<lparr>ob_bytes_written := 0, ob_count := 0\<rparr>), p\<lparr>p_out_buffers := q\<rparr>, net)
      | (None, q) \<Rightarrow> Some (O_Done server, p\<lparr>p_out_buffers := q\<rparr>, net))"
| "out_task_step pe now (O_Out server out_buffer) p net =
     (case aq_pop (pe_rb pe) (p_receive_buffers p) of
        (Some receive_buffer, q) \<Rightarrow>
          Some (O_Receive RECEIVE_ROUNDS server out_buffer receive_buffer lp_default, p\<lparr>p_receive_buffers := q\<rparr>, net)
      | (None, q) \<Rightarrow> Some (O_Return_Out server out_buffer, p\<lparr>p_receive_buffers := q\<rparr>, net))"
| "out_task_step pe now (O_Receive 0 server out_buffer receive_buffer writer) p net =
     Some (O_Return_Buffer server out_buffer receive_buffer, p, net)"
| "out_task_step pe now (O_Receive (Suc n) server out_buffer receive_buffer writer) p net = do {
     (go_on, server, out_buffer, receive_buffer, writer, net) \<leftarrow> out_buffer_round (pe_env pe) now net server out_buffer receive_buffer writer;
     Some (if go_on then O_Receive n server out_buffer receive_buffer writer
           else O_Return_Buffer server out_buffer receive_buffer, p, net) }"
| "out_task_step pe now (O_Return_Buffer server out_buffer receive_buffer) p net =
     Some (O_Return_Out server out_buffer,
           p\<lparr>p_receive_buffers := push_or_drop (pe_rb pe) receive_buffer (p_receive_buffers p)\<rparr>, net)"
| "out_task_step pe now (O_Return_Out server out_buffer) p net =
     Some (O_Done server, p\<lparr>p_out_buffers := push_or_drop (pe_ob pe) out_buffer (p_out_buffers p)\<rparr>, net)"
| "out_task_step pe now (O_Done server) p net = None"

text \<open>\<open>receive_blocking_out_buffer\<close> starts a worker on every server where it is and returns when all are done.\<close>

definition out_tasks :: "('rq, 'rb, 'ob, 'su) pool \<Rightarrow> out_task list" where
  "out_tasks self = map (\<lambda>(_, server). O_Server server) (p_servers self)"

fun out_task_server :: "out_task \<Rightarrow> tachyon" where
  "out_task_server (O_Server server) = server"
| "out_task_server (O_Out server out_buffer) = server"
| "out_task_server (O_Receive n server out_buffer receive_buffer writer) = server"
| "out_task_server (O_Return_Buffer server out_buffer receive_buffer) = server"
| "out_task_server (O_Return_Out server out_buffer) = server"
| "out_task_server (O_Done server) = server"

definition finish_out_tasks :: "('rq, 'rb, 'ob, 'su) pool \<Rightarrow> out_task list \<Rightarrow> ('rq, 'rb, 'ob, 'su) pool" where
  "finish_out_tasks self ts = self\<lparr>p_servers := map (\<lambda>((key, _), t). (key, out_task_server t)) (zip (p_servers self) ts)\<rparr>"

fun next_out_buffer_loop ::
  "nat \<Rightarrow> ('rq, 'rb, 'ob, 'su) pool_env \<Rightarrow> ('rq, 'rb, 'ob, 'su) pool \<Rightarrow> bytes
     \<Rightarrow> (out_buffer_counts \<times> ('rq, 'rb, 'ob, 'su) pool \<times> bytes) option" where
  "next_out_buffer_loop 0 pe self receive_buffer = Some (obc_default, self, receive_buffer)"
| "next_out_buffer_loop (Suc n) pe self receive_buffer =
     (case aq_pop (pe_ob pe) (p_out_buffers self) of
        (Some out_buffer, q) \<Rightarrow>
          if ob_count out_buffer = 0
          then next_out_buffer_loop n pe (self\<lparr>p_out_buffers := push_or_drop (pe_ob pe) out_buffer q\<rparr>) receive_buffer
          else do {
            src \<leftarrow> slice (ob_data out_buffer) 0 (unat (ob_bytes_written out_buffer));
            receive_buffer \<leftarrow> copy_into receive_buffer 0 (unat (ob_bytes_written out_buffer)) src;
            let result = \<lparr>obc_bytes_written = ob_bytes_written out_buffer, obc_count = ob_count out_buffer\<rparr>;
            Some (result,
              self\<lparr>p_out_buffers := push_or_drop (pe_ob pe) (out_buffer\<lparr>ob_bytes_written := 0, ob_count := 0\<rparr>) q\<rparr>,
              receive_buffer) }
      | (None, q) \<Rightarrow> next_out_buffer_loop n pe (self\<lparr>p_out_buffers := q\<rparr>) receive_buffer)"

definition get_next_out_buffer ::
  "('rq, 'rb, 'ob, 'su) pool_env \<Rightarrow> ('rq, 'rb, 'ob, 'su) pool \<Rightarrow> bytes
     \<Rightarrow> (out_buffer_counts \<times> ('rq, 'rb, 'ob, 'su) pool \<times> bytes) option" where
  "get_next_out_buffer pe self receive_buffer =
     next_out_buffer_loop (aq_len (pe_ob pe) (p_out_buffers self)) pe self receive_buffer"

subsection \<open>PoolUnreliableSender\<close>

text \<open>\<^verbatim>\<open>src/src/tachyon/pool_unreliable_sender.rs\<close>: senders that share the sockets of a pool's servers.\<close>

record pool_unreliable_sender =
  pus_identity_to_conn_map :: "(u32 \<times> connection) list"
  pus_address_to_conn_map :: "(network_address \<times> connection) list"
  pus_senders :: "(u16 \<times> unreliable_sender) list"

definition pus_create :: pool_unreliable_sender where
  "pus_create = \<lparr>pus_identity_to_conn_map = [], pus_address_to_conn_map = [], pus_senders = []\<rparr>"

definition pus_send_via ::
  "os \<Rightarrow> network \<Rightarrow> pool_unreliable_sender \<Rightarrow> u16 \<Rightarrow> network_address \<Rightarrow> bytes \<Rightarrow> nat
     \<Rightarrow> (send_result \<times> pool_unreliable_sender \<times> network) option" where
  "pus_send_via os net self i address data len =
     (case map_of (pus_senders self) i of
        Some sender \<Rightarrow> do {
          (result, sender, net) \<leftarrow> usnd_send os net sender address data len;
          Some (result, self\<lparr>pus_senders := AList.update i sender (pus_senders self)\<rparr>, net) }
      | None \<Rightarrow> Some (sres_default, self, net))"

definition pus_send_to_identity ::
  "os \<Rightarrow> network \<Rightarrow> pool_unreliable_sender \<Rightarrow> u32 \<Rightarrow> bytes \<Rightarrow> 32 word \<Rightarrow> (send_result \<times> pool_unreliable_sender \<times> network) option" where
  "pus_send_to_identity os net self i data len =
     (case map_of (pus_identity_to_conn_map self) i of
        Some conn \<Rightarrow> pus_send_via os net self (conn_tachyon_id conn) (conn_address conn) data (usize_of_i32 len)
      | None \<Rightarrow> Some (sres_default, self, net))"

definition pus_send_to_address ::
  "os \<Rightarrow> network \<Rightarrow> pool_unreliable_sender \<Rightarrow> network_address \<Rightarrow> bytes \<Rightarrow> 32 word \<Rightarrow> (send_result \<times> pool_unreliable_sender \<times> network) option" where
  "pus_send_to_address os net self address data len =
     (case map_of (pus_address_to_conn_map self) address of
        Some conn \<Rightarrow> pus_send_via os net self (conn_tachyon_id conn) address data (usize_of_i32 len)
      | None \<Rightarrow> Some (sres_default, self, net))"

definition pus_send_to_target ::
  "os \<Rightarrow> network \<Rightarrow> pool_unreliable_sender \<Rightarrow> send_target \<Rightarrow> bytes \<Rightarrow> 32 word \<Rightarrow> (send_result \<times> pool_unreliable_sender \<times> network) option" where
  "pus_send_to_target os net self target data len =
     (if tgt_identity_id target > 0 then pus_send_to_identity os net self (tgt_identity_id target) data len
      else pus_send_to_address os net self (tgt_address target) data len)"

fun pus_build_servers ::
  "os \<Rightarrow> network \<Rightarrow> (u16 \<times> tachyon) list \<Rightarrow> (u16 \<times> unreliable_sender) list \<Rightarrow> (u16 \<times> unreliable_sender) list option" where
  "pus_build_servers os net [] senders = Some senders"
| "pus_build_servers os net ((_, server) # rest) senders =
     (if map_of senders (t_id server) \<noteq> None then pus_build_servers os net rest senders
      else do {
        r \<leftarrow> create_unreliable_sender os net server;
        case r of
          Some sender \<Rightarrow> pus_build_servers os net rest (AList.update (t_id server) sender senders)
        | None \<Rightarrow> pus_build_servers os net rest senders })"

definition pus_build ::
  "('rq, 'rb, 'ob, 'su) pool_env \<Rightarrow> network \<Rightarrow> pool_unreliable_sender \<Rightarrow> ('rq, 'rb, 'ob, 'su) pool \<Rightarrow> pool_unreliable_sender option" where
  "pus_build pe net self p = do {
     let servers = pe_server_order pe (p_servers p);
     senders \<leftarrow> pus_build_servers (e_os (pe_env pe)) net servers [];
     let maps = build_connection_maps pe p;
     Some (self\<lparr>pus_senders := senders, pus_address_to_conn_map := p_connections_by_address maps,
                pus_identity_to_conn_map := p_connections_by_identity maps\<rparr>) }"

end
