(* ===== verification/Pool_Workers.thy ===== *)
theory Pool_Workers
  imports Pool
begin

text \<open>
  The worker threads of a pool (\<^verbatim>\<open>src/src/tachyon/pool.rs\<close>) under every interleaving: no server,
  queue, buffer or message is lost, every server is polled once, and the workers come to an end.
\<close>

subsection \<open>The queues of the crate\<close>

text \<open>
  What the pool needs of \<open>ArrayQueue\<close>: a first-in first-out queue of bounded capacity whose
  \<open>push\<close> fails exactly when it is full and whose \<open>pop\<close> fails exactly when it is empty.
\<close>

locale bounded_queue =
  fixes aq :: "('a, 'q) array_queue" and items :: "'q \<Rightarrow> 'a list" and cap :: "'q \<Rightarrow> nat"
  assumes new_law: "items (aq_new aq n) = [] \<and> cap (aq_new aq n) = n"
    and push_law: "aq_push aq x q = (b, q') \<Longrightarrow> b = (length (items q) < cap q) \<and> cap q' = cap q
      \<and> items q' = (if length (items q) < cap q then items q @ [x] else items q)"
    and pop_law: "aq_pop aq q = (r, q') \<Longrightarrow> cap q' = cap q
      \<and> (case items q of [] \<Rightarrow> r = None \<and> items q' = [] | x # xs \<Rightarrow> r = Some x \<and> items q' = xs)"
    and len_law: "aq_len aq q = length (items q)"
begin

lemma pop_Some:
  assumes "aq_pop aq q = (Some x, q')"
  shows "items q = x # items q' \<and> cap q' = cap q"
  using pop_law [OF assms] by (auto split: list.splits)

lemma pop_None:
  assumes "aq_pop aq q = (None, q')"
  shows "items q = [] \<and> items q' = [] \<and> cap q' = cap q"
  using pop_law [OF assms] by (auto split: list.splits)

lemma pop_Nil: "items q = [] \<Longrightarrow> \<exists>q'. aq_pop aq q = (None, q') \<and> items q' = []"
  using pop_law [of q] by (cases "aq_pop aq q") auto

lemma pop_Cons: "items q = x # xs \<Longrightarrow> \<exists>q'. aq_pop aq q = (Some x, q') \<and> items q' = xs \<and> cap q' = cap q"
  using pop_law [of q] by (cases "aq_pop aq q") auto

lemma push_room:
  assumes "length (items q) < cap q"
  shows "items (push_or_drop aq x q) = items q @ [x]" "cap (push_or_drop aq x q) = cap q"
  using push_law [of x q "fst (aq_push aq x q)" "snd (aq_push aq x q)"] assms by simp_all

lemma push_full:
  assumes "\<not> length (items q) < cap q"
  shows "items (push_or_drop aq x q) = items q" "cap (push_or_drop aq x q) = cap q"
  using push_law [of x q "fst (aq_push aq x q)" "snd (aq_push aq x q)"] assms by simp_all

lemma fold_push:
  "items (fold (push_or_drop aq) xs q) = items q @ take (cap q - length (items q)) xs \<and> cap (fold (push_or_drop aq) xs q) = cap q"
proof (induction xs arbitrary: q)
  case (Cons x xs)
  show ?case
  proof (cases "length (items q) < cap q")
    case True
    then obtain d where d: "cap q - length (items q) = Suc d" by (metis Suc_diff_Suc)
    then have "cap q - Suc (length (items q)) = d" by simp
    with d True Cons [of "push_or_drop aq x q"] show ?thesis by (simp add: push_room)
  next
    case False
    with Cons [of "push_or_drop aq x q"] show ?thesis by (simp add: push_full)
  qed
qed simp

end

text \<open>A list with its capacity is such a queue.\<close>

definition fifo_queue :: "('a, 'a list \<times> nat) array_queue" where
  "fifo_queue = \<lparr>aq_new = (\<lambda>n. ([], n)),
     aq_push = (\<lambda>x (xs, n). if length xs < n then (True, xs @ [x], n) else (False, xs, n)),
     aq_pop = (\<lambda>(xs, n). case xs of [] \<Rightarrow> (None, [], n) | x # rest \<Rightarrow> (Some x, rest, n)),
     aq_len = (\<lambda>(xs, n). length xs)\<rparr>"

interpretation fifo: bounded_queue fifo_queue fst snd
  by unfold_locales (auto simp: fifo_queue_def split: if_splits list.splits)

text \<open>The three queues that \<open>receive\<close> uses.\<close>

locale pool_queues =
  rq: bounded_queue "pe_rq pe" rq_items rq_cap + rb: bounded_queue "pe_rb pe" rb_items rb_cap + su: bounded_queue "pe_su pe" su_items su_cap
  for pe :: "('rq, 'rb, 'ob, 'su) pool_env" and rq_items rq_cap rb_items rb_cap su_items su_cap

subsection \<open>What a worker holds\<close>

fun task_servers :: "task \<Rightarrow> tachyon list" where
  "task_servers T_Start = []"
| "task_servers T_Done = []"
| "task_servers (T_Server s) = [s]"
| "task_servers (T_Queue s q) = [s]"
| "task_servers (T_Receive n s q b) = [s]"
| "task_servers (T_Return_Buffer s q b) = [s]"
| "task_servers (T_Return_Queue s q) = [s]"
| "task_servers (T_Return_Server s) = [s]"

fun task_queues :: "task \<Rightarrow> bytes list list" where
  "task_queues (T_Queue s q) = [q]"
| "task_queues (T_Receive n s q b) = [q]"
| "task_queues (T_Return_Buffer s q b) = [q]"
| "task_queues (T_Return_Queue s q) = [q]"
| "task_queues _ = []"

fun task_buffers :: "task \<Rightarrow> bytes list" where
  "task_buffers (T_Receive n s q b) = [b]"
| "task_buffers (T_Return_Buffer s q b) = [b]"
| "task_buffers _ = []"

text \<open>What a step takes from the sockets, and which server it starts on.\<close>

fun emitted :: "task \<Rightarrow> task \<Rightarrow> bytes list" where
  "emitted (T_Receive n s q b) (T_Receive n' s' q' b') = drop (length q) q'"
| "emitted _ _ = []"

fun polled :: "task \<Rightarrow> task \<Rightarrow> u16 list" where
  "polled T_Start (T_Server s) = [t_id s]"
| "polled _ _ = []"

fun finished :: "bool \<Rightarrow> task \<Rightarrow> bool" where
  "finished blocking T_Done = True"
| "finished blocking (T_Return_Server s) = blocking"
| "finished blocking _ = False"

text \<open>
  Workers in any interleaving: the number of steps, the messages taken, the servers polled,
  and the state of the pool, the network and the workers. A blocking worker keeps its server.
\<close>

inductive workers_run ::
  "('rq, 'rb, 'ob, 'su) pool_env \<Rightarrow> bool \<Rightarrow> ('rq, 'rb, 'ob, 'su) pool \<times> network \<times> task list
     \<Rightarrow> nat \<Rightarrow> bytes list \<Rightarrow> u16 list \<Rightarrow> ('rq, 'rb, 'ob, 'su) pool \<times> network \<times> task list \<Rightarrow> bool"
  for pe blocking s where
  start: "workers_run pe blocking s 0 [] [] s"
| step: "workers_run pe blocking s n msgs ids (p, net, ts) \<Longrightarrow> i < length ts \<Longrightarrow> \<not> finished blocking (ts ! i) \<Longrightarrow>
    task_step pe now (ts ! i) p net = Some (t', p', net') \<Longrightarrow>
    workers_run pe blocking s (Suc n) (msgs @ emitted (ts ! i) t') (ids @ polled (ts ! i) t') (p', net', ts[i := t'])"

subsection \<open>Termination\<close>

fun task_work :: "task \<Rightarrow> nat" where
  "task_work T_Start = RECEIVE_ROUNDS + 7"
| "task_work (T_Server s) = RECEIVE_ROUNDS + 6"
| "task_work (T_Queue s q) = RECEIVE_ROUNDS + 5"
| "task_work (T_Receive n s q b) = n + 4"
| "task_work (T_Return_Buffer s q b) = 3"
| "task_work (T_Return_Queue s q) = 2"
| "task_work (T_Return_Server s) = 1"
| "task_work T_Done = 0"

lemma task_step_work: "task_step pe now t p net = Some (t', p', net') \<Longrightarrow> task_work t' < task_work t"
  by (induction pe now t p net rule: task_step.induct)
    (auto elim!: bind_SomeE case_prod_SomeE split: prod.splits option.splits)

lemma sum_list_update_less:
  fixes f :: "'b \<Rightarrow> nat"
  assumes "i < length xs" "f y < f (xs ! i)"
  shows "sum_list (map f (xs[i := y])) < sum_list (map f xs)"
proof -
  have "xs = take i xs @ xs ! i # drop (Suc i) xs" by (rule id_take_nth_drop [OF assms(1)])
  then have "sum_list (map f xs) = sum_list (map f (take i xs)) + f (xs ! i) + sum_list (map f (drop (Suc i) xs))"
    by (metis add.assoc list.simps(9) map_append sum_list.Cons sum_list_append)
  then show ?thesis using assms by (simp add: upd_conv_take_nth_drop)
qed

lemma workers_run_work:
  "workers_run pe blocking (p, net, ts) n msgs ids (p', net', ts') \<Longrightarrow>
     n + sum_list (map task_work ts') \<le> sum_list (map task_work ts) \<and> length ts' = length ts"
proof (induction n msgs ids "(p', net', ts')" arbitrary: p' net' ts' rule: workers_run.induct)
  case (step n msgs ids p1 net1 ts1 i now t' p2 net2)
  from sum_list_update_less [where f = task_work, OF step(3) task_step_work [OF step(5)]] step(2) show ?case by simp
qed simp

subsection \<open>Conservation\<close>

lemma mset_concat_update:
  assumes "i < length ts"
  shows "mset (concat (map f (ts[i := t']))) + mset (f (ts ! i)) = mset (concat (map f ts)) + mset (f t')"
proof -
  have "ts = take i ts @ ts ! i # drop (Suc i) ts" by (rule id_take_nth_drop [OF assms])
  then have "concat (map f ts) = concat (map f (take i ts)) @ f (ts ! i) @ concat (map f (drop (Suc i) ts))"
    by (metis concat.simps(2) concat_append list.simps(9) map_append)
  then show ?thesis using assms by (simp add: upd_conv_take_nth_drop)
qed

lemma receive_server_round_grows:
  assumes "receive_server_round env now net s q b = Some (go, s', q', b', net')"
  shows "t_id s' = t_id s" "t_inv s \<Longrightarrow> t_inv s'" "\<exists>ms. q' = q @ ms \<and> (\<not> go \<longrightarrow> ms = [])"
proof -
  obtain r where r: "receive_loop env now net s b = Some (r, s', net', b')"
    and q: "\<exists>ms. q' = q @ ms \<and> (\<not> go \<longrightarrow> ms = [])"
    using assms by (auto simp: receive_server_round_def elim!: bind_SomeE case_prod_SomeE split: if_splits)
  show "t_id s' = t_id s" by (rule receive_loop_id [OF r])
  show "t_inv s'" if "t_inv s" by (rule receive_loop_inv [OF that r])
  show "\<exists>ms. q' = q @ ms \<and> (\<not> go \<longrightarrow> ms = [])" by (rule q)
qed

lemma cancel_swap:
  fixes a :: "'a :: cancel_comm_monoid_add"
  assumes "s' + f' = s + f + e" "a' + f = a + f'"
  shows "s' + a' = s + a + e"
proof -
  have "(s' + a') + (f' + f) = (s' + f') + (a' + f)" by (simp add: ac_simps)
  also have "\<dots> = (s + a + e) + (f' + f)" unfolding assms by (simp add: ac_simps)
  finally show ?thesis by simp
qed

lemma length_concat_nth: "i < length ts \<Longrightarrow> length (f (ts ! i)) \<le> length (concat (map f ts))"
  by (induction ts arbitrary: i) (auto simp: nth_Cons' intro: trans_le_add2)

lemma concat_concat: "concat (concat xss) = concat (map concat xss)"
  by (induction xss) simp_all

fun start_mark :: "task \<Rightarrow> unit list" where
  "start_mark T_Start = [()]"
| "start_mark _ = []"

context pool_queues
begin

abbreviation all_servers :: "('rq, 'rb, 'ob, 'su) pool \<Rightarrow> task list \<Rightarrow> tachyon list" where
  "all_servers p ts \<equiv> su_items (p_servers_in_use p) @ concat (map task_servers ts)"

abbreviation all_queues :: "('rq, 'rb, 'ob, 'su) pool \<Rightarrow> task list \<Rightarrow> bytes list list" where
  "all_queues p ts \<equiv> rq_items (p_receive_queue p) @ concat (map task_queues ts)"

abbreviation all_buffers :: "('rq, 'rb, 'ob, 'su) pool \<Rightarrow> task list \<Rightarrow> bytes list" where
  "all_buffers p ts \<equiv> rb_items (p_receive_buffers p) @ concat (map task_buffers ts)"

lemma task_step_conserves:
  assumes "task_step pe now t p net = Some (t', p', net')"
    and room: "task_servers t \<noteq> [] \<Longrightarrow> length (su_items (p_servers_in_use p)) < su_cap (p_servers_in_use p)"
      "task_queues t \<noteq> [] \<Longrightarrow> length (rq_items (p_receive_queue p)) < rq_cap (p_receive_queue p)"
      "task_buffers t \<noteq> [] \<Longrightarrow> length (rb_items (p_receive_buffers p)) < rb_cap (p_receive_buffers p)"
  shows "image_mset t_id (mset (su_items (p_servers_in_use p') @ task_servers t')) =
       image_mset t_id (mset (su_items (p_servers_in_use p) @ task_servers t))
    \<and> length (rq_items (p_receive_queue p') @ task_queues t') = length (rq_items (p_receive_queue p) @ task_queues t)
    \<and> length (rb_items (p_receive_buffers p') @ task_buffers t') = length (rb_items (p_receive_buffers p) @ task_buffers t)
    \<and> mset (concat (rq_items (p_receive_queue p') @ task_queues t')) =
        mset (concat (rq_items (p_receive_queue p) @ task_queues t)) + mset (emitted t t')
    \<and> su_cap (p_servers_in_use p') = su_cap (p_servers_in_use p) \<and> rq_cap (p_receive_queue p') = rq_cap (p_receive_queue p)
    \<and> rb_cap (p_receive_buffers p') = rb_cap (p_receive_buffers p)
    \<and> p_servers p' = p_servers p \<and> p_published p' = p_published p \<and> p_counter p' = p_counter p
    \<and> ((\<forall>s \<in> set (su_items (p_servers_in_use p) @ task_servers t). t_inv s) \<longrightarrow>
        (\<forall>s \<in> set (su_items (p_servers_in_use p') @ task_servers t'). t_inv s))"
  using assms
proof (cases t)
  case T_Start
  with assms(1) show ?thesis by (auto dest!: su.pop_Some su.pop_None split: prod.splits option.splits)
next
  case (T_Server s)
  with assms(1) show ?thesis by (auto dest!: rq.pop_Some rq.pop_None split: prod.splits option.splits)
next
  case (T_Queue s q)
  with assms(1) show ?thesis by (auto dest!: rb.pop_Some rb.pop_None split: prod.splits option.splits)
next
  case (T_Receive n s q b)
  show ?thesis
  proof (cases n)
    case (Suc m)
    obtain go s' q' b' where r: "receive_server_round (pe_env pe) now net s q b = Some (go, s', q', b', net')"
      and t': "t' = (if go then T_Receive m s' q' b' else T_Return_Buffer s' q' b')" "p' = p"
      using assms(1) by (auto simp: T_Receive Suc elim!: bind_SomeE case_prod_SomeE)
    from receive_server_round_grows [OF r] t' show ?thesis by (auto simp: T_Receive)
  qed (use assms(1) T_Receive in auto)
next
  case (T_Return_Buffer s q b)
  with assms(1) room(3) show ?thesis by (auto simp: rb.push_room)
next
  case (T_Return_Queue s q)
  with assms(1) room(2) show ?thesis by (auto simp: rq.push_room)
next
  case (T_Return_Server s)
  with assms(1) room(1) show ?thesis by (auto simp: su.push_room)
qed simp

text \<open>What a run keeps of the servers, queues, buffers and messages it started with.\<close>

definition conserved ::
  "('rq, 'rb, 'ob, 'su) pool \<Rightarrow> task list \<Rightarrow> bytes list \<Rightarrow> ('rq, 'rb, 'ob, 'su) pool \<Rightarrow> task list \<Rightarrow> bool" where
  "conserved p0 ts0 msgs p ts \<longleftrightarrow>
     image_mset t_id (mset (all_servers p ts)) = image_mset t_id (mset (all_servers p0 ts0))
     \<and> length (all_queues p ts) = length (all_queues p0 ts0) \<and> length (all_buffers p ts) = length (all_buffers p0 ts0)
     \<and> mset (concat (all_queues p ts)) = mset (concat (all_queues p0 ts0)) + mset msgs
     \<and> su_cap (p_servers_in_use p) = su_cap (p_servers_in_use p0) \<and> rq_cap (p_receive_queue p) = rq_cap (p_receive_queue p0)
     \<and> rb_cap (p_receive_buffers p) = rb_cap (p_receive_buffers p0)
     \<and> p_servers p = p_servers p0 \<and> p_published p = p_published p0 \<and> p_counter p = p_counter p0
     \<and> ((\<forall>s \<in> set (all_servers p0 ts0). t_inv s) \<longrightarrow> (\<forall>s \<in> set (all_servers p ts). t_inv s))"

definition fits :: "('rq, 'rb, 'ob, 'su) pool \<Rightarrow> task list \<Rightarrow> bool" where
  "fits p ts \<longleftrightarrow> length (all_servers p ts) \<le> su_cap (p_servers_in_use p)
     \<and> length (all_queues p ts) \<le> rq_cap (p_receive_queue p) \<and> length (all_buffers p ts) \<le> rb_cap (p_receive_buffers p)"

lemma conserved_fits: "conserved p0 ts0 msgs p ts \<Longrightarrow> fits p0 ts0 \<Longrightarrow> fits p ts"
proof -
  assume c: "conserved p0 ts0 msgs p ts" and f: "fits p0 ts0"
  have "size (image_mset t_id (mset (all_servers p ts))) = size (image_mset t_id (mset (all_servers p0 ts0)))"
    using c by (simp only: conserved_def)
  then have "length (all_servers p ts) = length (all_servers p0 ts0)" by (simp only: size_image_mset size_mset)
  with c f show ?thesis by (simp add: conserved_def fits_def)
qed

lemma fits_room:
  assumes "fits p ts" "i < length ts"
  shows "task_servers (ts ! i) \<noteq> [] \<Longrightarrow> length (su_items (p_servers_in_use p)) < su_cap (p_servers_in_use p)"
    "task_queues (ts ! i) \<noteq> [] \<Longrightarrow> length (rq_items (p_receive_queue p)) < rq_cap (p_receive_queue p)"
    "task_buffers (ts ! i) \<noteq> [] \<Longrightarrow> length (rb_items (p_receive_buffers p)) < rb_cap (p_receive_buffers p)"
  using assms(1) length_concat_nth [OF assms(2), of task_servers] length_concat_nth [OF assms(2), of task_queues]
    length_concat_nth [OF assms(2), of task_buffers]
  by (auto simp: fits_def simp flip: length_greater_0_conv)

lemma conserved_step:
  assumes c: "conserved p0 ts0 msgs p ts" and f: "fits p0 ts0" and i: "i < length ts"
    and st: "task_step pe now (ts ! i) p net = Some (t', p', net')"
  shows "conserved p0 ts0 (msgs @ emitted (ts ! i) t') p' (ts[i := t'])"
proof -
  note room = fits_room [OF conserved_fits [OF c f] i]
  note k = task_step_conserves [OF st room]
  note u = mset_concat_update [OF i, of _ t']
  have ids: "image_mset t_id (mset (all_servers p' (ts[i := t']))) = image_mset t_id (mset (all_servers p ts))"
    using cancel_swap [of "image_mset t_id (mset (su_items (p_servers_in_use p')))" "image_mset t_id (mset (task_servers t'))"
        "image_mset t_id (mset (su_items (p_servers_in_use p)))" "image_mset t_id (mset (task_servers (ts ! i)))" "{#}"
        "image_mset t_id (mset (concat (map task_servers (ts[i := t']))))" "image_mset t_id (mset (concat (map task_servers ts)))"]
      k arg_cong [OF u [of task_servers], of "image_mset t_id"] by simp
  have len: "length (concat (map g (ts[i := t']))) + length (g (ts ! i)) = length (concat (map g ts)) + length (g t')" for g :: "task \<Rightarrow> 'x list"
    using arg_cong [OF u [of g], of size] by (simp only: size_union size_mset)
  have qs: "length (all_queues p' (ts[i := t'])) = length (all_queues p ts)"
    using k len [of task_queues] by simp
  have bs: "length (all_buffers p' (ts[i := t'])) = length (all_buffers p ts)"
    using k len [of task_buffers] by simp
  have ms: "mset (concat (all_queues p' (ts[i := t']))) = mset (concat (all_queues p ts)) + mset (emitted (ts ! i) t')"
    using cancel_swap [of "mset (concat (rq_items (p_receive_queue p')))" "mset (concat (task_queues t'))"
        "mset (concat (rq_items (p_receive_queue p)))" "mset (concat (task_queues (ts ! i)))" "mset (emitted (ts ! i) t')"
        "mset (concat (concat (map task_queues (ts[i := t']))))" "mset (concat (concat (map task_queues ts)))"]
      k u [of "\<lambda>t. concat (task_queues t)"] by (simp add: concat_concat comp_def map_update)
  have inv: "\<forall>s \<in> set (all_servers p' (ts[i := t'])). t_inv s" if all: "\<forall>s \<in> set (all_servers p ts). t_inv s"
  proof -
    have held: "t_inv s" if "t \<in> set ts" "s \<in> set (task_servers t)" for s t using all that by auto
    have "\<forall>s \<in> set (su_items (p_servers_in_use p) @ task_servers (ts ! i)). t_inv s"
      using all held [OF nth_mem [OF i]] by auto
    then have new: "\<forall>s \<in> set (su_items (p_servers_in_use p') @ task_servers t'). t_inv s" using k by blast
    show ?thesis
    proof
      fix s assume "s \<in> set (all_servers p' (ts[i := t']))"
      then consider "s \<in> set (su_items (p_servers_in_use p') @ task_servers t')"
        | t where "t \<in> set ts" "s \<in> set (task_servers t)"
        using set_update_subset_insert [of ts i t'] by auto
      then show "t_inv s" by cases (use new held in blast)+
    qed
  qed
  have fr: "su_cap (p_servers_in_use p') = su_cap (p_servers_in_use p)" "rq_cap (p_receive_queue p') = rq_cap (p_receive_queue p)"
    "rb_cap (p_receive_buffers p') = rb_cap (p_receive_buffers p)" "p_servers p' = p_servers p" "p_published p' = p_published p"
    "p_counter p' = p_counter p"
    using k by blast+
  have msgs: "mset (concat (all_queues p' (ts[i := t']))) = mset (concat (all_queues p0 ts0)) + mset (msgs @ emitted (ts ! i) t')"
    unfolding ms mset_append add.assoc [symmetric] using c by (simp add: conserved_def)
  show ?thesis
    unfolding conserved_def ids qs bs fr msgs using c inv unfolding conserved_def by blast
qed

lemma conserved_run:
  "workers_run pe blocking (p0, net0, ts0) n msgs ids (p, net, ts) \<Longrightarrow> fits p0 ts0 \<Longrightarrow> conserved p0 ts0 msgs p ts"
proof (induction n msgs ids "(p, net, ts)" arbitrary: p net ts rule: workers_run.induct)
  case start
  then show ?case by (simp add: conserved_def)
next
  case (step n msgs ids p1 net1 ts1 i now t' p2 net2)
  then show ?case by (intro conserved_step) auto
qed

subsection \<open>Every server is polled\<close>

abbreviation starts :: "task list \<Rightarrow> nat" where
  "starts ts \<equiv> length (concat (map start_mark ts))"

lemma polled_step:
  assumes "ids @ map t_id (take (starts ts) (su_items (p_servers_in_use p))) = ids0" "starts ts \<le> length (su_items (p_servers_in_use p))"
    and f: "fits p ts" and i: "i < length ts" and st: "task_step pe now (ts ! i) p net = Some (t', p', net')"
  shows "(ids @ polled (ts ! i) t') @ map t_id (take (starts (ts[i := t'])) (su_items (p_servers_in_use p'))) = ids0
     \<and> starts (ts[i := t']) \<le> length (su_items (p_servers_in_use p'))"
proof -
  have len: "starts (ts[i := t']) + length (start_mark (ts ! i)) = starts ts + length (start_mark t')"
    using arg_cong [OF mset_concat_update [OF i, of start_mark t'], of size] by (simp only: size_union size_mset)
  show ?thesis
  proof (cases "ts ! i = T_Start")
    case True
    have "length (start_mark (ts ! i)) = 1" by (simp add: True)
    with length_concat_nth [OF i, of start_mark] have pos: "0 < starts ts" by linarith
    then obtain s q where pop: "aq_pop (pe_su pe) (p_servers_in_use p) = (Some s, q)" "su_items (p_servers_in_use p) = s # su_items q"
      using assms(2) su.pop_Cons by (cases "su_items (p_servers_in_use p)") fastforce+
    have t': "t' = T_Server s" "p' = p\<lparr>p_servers_in_use := q\<rparr>" using st True pop(1) by simp_all
    obtain n where n: "starts ts = Suc n" using pos by (cases "starts ts") simp_all
    with len True t' have "starts (ts[i := t']) = n" by simp
    with assms(1,2) True pop(2) t' n show ?thesis by simp
  next
    case False
    then have no: "start_mark (ts ! i) = []" "polled (ts ! i) t' = []" by (cases "ts ! i"; simp)+
    have "start_mark t' = []" using st False
      by (cases "(pe, now, ts ! i, p, net)" rule: task_step.cases)
        (auto elim!: bind_SomeE case_prod_SomeE split: prod.splits option.splits if_splits)
    moreover have "\<exists>xs. su_items (p_servers_in_use p') = su_items (p_servers_in_use p) @ xs"
      using st False fits_room(1) [OF f i] su.push_room(1) [of "p_servers_in_use p"]
      by (cases "(pe, now, ts ! i, p, net)" rule: task_step.cases)
        (auto elim!: bind_SomeE case_prod_SomeE split: prod.splits option.splits if_splits)
    ultimately show ?thesis using assms(1,2) no len by auto
  qed
qed

lemma polled_run:
  "workers_run pe blocking (p0, net0, ts0) n msgs ids (p, net, ts) \<Longrightarrow> fits p0 ts0 \<Longrightarrow> starts ts0 \<le> length (su_items (p_servers_in_use p0)) \<Longrightarrow>
     ids @ map t_id (take (starts ts) (su_items (p_servers_in_use p))) = map t_id (take (starts ts0) (su_items (p_servers_in_use p0)))
     \<and> starts ts \<le> length (su_items (p_servers_in_use p))"
proof (induction n msgs ids "(p, net, ts)" arbitrary: p net ts rule: workers_run.induct)
  case (step n msgs ids p1 net1 ts1 i now t' p2 net2)
  have "fits p1 ts1" using conserved_fits [OF conserved_run [OF step(1) step(6)] step(6)] .
  with step show ?case by (intro polled_step) auto
qed simp

subsection \<open>Collecting\<close>

lemma move_received_loop_eq:
  assumes "rq_items (p_receive_queue p) = xs @ ys" "length xs = n" "length (xs @ ys) \<le> rq_cap (p_receive_queue p)"
  shows "\<exists>q. move_received_loop n pe p c =
       (c + length (concat xs), p\<lparr>p_receive_queue := q, p_published := p_published p @ concat xs\<rparr>)
     \<and> rq_items q = ys @ replicate n [] \<and> rq_cap q = rq_cap (p_receive_queue p)"
  using assms
proof (induction xs arbitrary: n p c ys)
  case Nil
  then show ?case by (intro exI [of _ "p_receive_queue p"]) simp
next
  case (Cons x xs)
  obtain m where n: "n = Suc m" "length xs = m" using Cons.prems(2) by (cases n) simp_all
  obtain q where q: "aq_pop (pe_rq pe) (p_receive_queue p) = (Some x, q)" "rq_items q = xs @ ys" "rq_cap q = rq_cap (p_receive_queue p)"
    using rq.pop_Cons [of "p_receive_queue p" x "xs @ ys"] Cons.prems(1) by auto
  let ?q = "push_or_drop (pe_rq pe) [] q"
  let ?p = "p\<lparr>p_receive_queue := ?q, p_published := p_published p @ x\<rparr>"
  have push: "rq_items ?q = xs @ ys @ [[]]" "rq_cap ?q = rq_cap (p_receive_queue p)"
    using rq.push_room [of q "[]"] q Cons.prems(3) by simp_all
  have "\<exists>q'. move_received_loop m pe ?p (c + length x) =
       (c + length x + length (concat xs), ?p\<lparr>p_receive_queue := q', p_published := p_published ?p @ concat xs\<rparr>)
     \<and> rq_items q' = (ys @ [[]]) @ replicate m [] \<and> rq_cap q' = rq_cap (p_receive_queue ?p)"
    using push n Cons.prems(3) by (intro Cons.IH) simp_all
  then show ?case using q n push(2) by auto
qed

lemma move_received_eq:
  assumes "length (rq_items (p_receive_queue p)) \<le> rq_cap (p_receive_queue p)"
  shows "\<exists>q. move_received_to_published pe p = (length (concat (rq_items (p_receive_queue p))),
       p\<lparr>p_receive_queue := q, p_published := p_published p @ concat (rq_items (p_receive_queue p))\<rparr>)
     \<and> rq_items q = replicate (length (rq_items (p_receive_queue p))) [] \<and> rq_cap q = rq_cap (p_receive_queue p)"
  using move_received_loop_eq [of p "rq_items (p_receive_queue p)" "[]" _ 0] assms
  by (simp add: move_received_to_published_def rq.len_law)

lemma collect_servers_eq:
  assumes "su_items (p_servers_in_use p) = xs" "length xs = n"
  shows "\<exists>q. collect_servers n pe p c =
       (c + n, p\<lparr>p_servers_in_use := q, p_servers := fold (\<lambda>s m. AList.update (t_id s) s m) xs (p_servers p)\<rparr>)
     \<and> su_items q = [] \<and> su_cap q = su_cap (p_servers_in_use p)"
  using assms
proof (induction xs arbitrary: n p c)
  case Nil
  then show ?case by (intro exI [of _ "p_servers_in_use p"]) simp
next
  case (Cons x xs)
  obtain m where n: "n = Suc m" "length xs = m" using Cons.prems(2) by (cases n) simp_all
  obtain q where q: "aq_pop (pe_su pe) (p_servers_in_use p) = (Some x, q)" "su_items q = xs" "su_cap q = su_cap (p_servers_in_use p)"
    using su.pop_Cons [of "p_servers_in_use p" x xs] Cons.prems(1) by auto
  from Cons.IH [of "p\<lparr>p_servers_in_use := q, p_servers := AList.update (t_id x) x (p_servers p)\<rparr>" m "c + 1"] q n show ?case by auto
qed

lemma finish_receive_eq:
  assumes "p_counter p = Some k" "length (rq_items (p_receive_queue p)) \<le> rq_cap (p_receive_queue p)"
  shows "\<exists>q1 q2. finish_receive pe p = ((length (su_items (p_servers_in_use p)), length (concat (rq_items (p_receive_queue p)))),
       p\<lparr>p_receive_queue := q1, p_published := p_published p @ concat (rq_items (p_receive_queue p)), p_servers_in_use := q2,
         p_servers := fold (\<lambda>s m. AList.update (t_id s) s m) (su_items (p_servers_in_use p)) (p_servers p), p_counter := None\<rparr>)
     \<and> rq_items q1 = replicate (length (rq_items (p_receive_queue p))) [] \<and> rq_cap q1 = rq_cap (p_receive_queue p)
     \<and> su_items q2 = [] \<and> su_cap q2 = su_cap (p_servers_in_use p)"
proof -
  obtain q1 where q1: "move_received_to_published pe p = (length (concat (rq_items (p_receive_queue p))),
       p\<lparr>p_receive_queue := q1, p_published := p_published p @ concat (rq_items (p_receive_queue p))\<rparr>)"
     "rq_items q1 = replicate (length (rq_items (p_receive_queue p))) []" "rq_cap q1 = rq_cap (p_receive_queue p)"
    using move_received_eq [OF assms(2)] by blast
  let ?p = "p\<lparr>p_receive_queue := q1, p_published := p_published p @ concat (rq_items (p_receive_queue p))\<rparr>"
  obtain q2 where q2: "collect_servers (length (su_items (p_servers_in_use p))) pe ?p 0 = (length (su_items (p_servers_in_use p)),
       ?p\<lparr>p_servers_in_use := q2, p_servers := fold (\<lambda>s m. AList.update (t_id s) s m) (su_items (p_servers_in_use p)) (p_servers p)\<rparr>)"
     "su_items q2 = []" "su_cap q2 = su_cap (p_servers_in_use p)"
    using collect_servers_eq [of ?p _ _ 0] by auto
  show ?thesis using assms(1) q1 q2 by (auto simp: finish_receive_def su.len_law)
qed

lemma pool_receive_start:
  assumes "pool_receive pe p = (True, p0, ts0)" "mset (pe_server_order pe (p_servers p)) = mset (p_servers p)"
    "su_items (p_servers_in_use p) = []"
  shows "ts0 = replicate (length (p_servers p)) T_Start" "p_servers p0 = []" "p_published p0 = p_published p"
    "p_counter p0 = Some (length (p_servers p))" "p_receive_queue p0 = p_receive_queue p" "p_receive_buffers p0 = p_receive_buffers p"
    "su_items (p_servers_in_use p0) = take (su_cap (p_servers_in_use p)) (map snd (pe_server_order pe (p_servers p)))"
    "su_cap (p_servers_in_use p0) = su_cap (p_servers_in_use p)" "length (pe_server_order pe (p_servers p)) = length (p_servers p)"
  using assms su.fold_push [of "map snd (pe_server_order pe (p_servers p))" "p_servers_in_use p"] mset_eq_length [OF assms(2)]
  by (auto simp: pool_receive_def Let_def split: if_splits)

lemma starts_idle:
  "concat (map task_servers (replicate n T_Start)) = []" "concat (map task_queues (replicate n T_Start)) = []"
  "concat (map task_buffers (replicate n T_Start)) = []" "starts (replicate n T_Start) = n"
  by (induction n) simp_all

lemma all_done:
  assumes "set ts \<subseteq> {T_Done}"
  shows "concat (map task_servers ts) = []" "concat (map task_queues ts) = []" "concat (map task_buffers ts) = []"
    "concat (map start_mark ts) = []"
  using assms by (induction ts) auto

text \<open>A complete receive, from \<open>receive\<close> to just before \<open>finish_receive\<close>.\<close>

lemma receive_complete:
  assumes rec: "pool_receive pe p = (True, p0, ts0)" "mset (pe_server_order pe (p_servers p)) = mset (p_servers p)"
      "su_items (p_servers_in_use p) = []"
    and cap: "length (rq_items (p_receive_queue p)) \<le> rq_cap (p_receive_queue p)" "length (rb_items (p_receive_buffers p)) \<le> rb_cap (p_receive_buffers p)"
    and run: "workers_run pe False (p0, net0, ts0) n msgs ids (p1, net1, ts1)" "set ts1 \<subseteq> {T_Done}"
  shows "image_mset t_id (mset (su_items (p_servers_in_use p1))) = image_mset t_id (mset (su_items (p_servers_in_use p0)))"
    "length (rq_items (p_receive_queue p1)) = length (rq_items (p_receive_queue p))"
    "length (rb_items (p_receive_buffers p1)) = length (rb_items (p_receive_buffers p))"
    "mset (concat (rq_items (p_receive_queue p1))) = mset (concat (rq_items (p_receive_queue p))) + mset msgs"
    "rq_cap (p_receive_queue p1) = rq_cap (p_receive_queue p)" "rb_cap (p_receive_buffers p1) = rb_cap (p_receive_buffers p)"
    "p_servers p1 = []" "p_published p1 = p_published p" "p_counter p1 = Some (length (p_servers p))"
    "\<forall>s \<in> set (su_items (p_servers_in_use p0)). t_inv s \<Longrightarrow> \<forall>s \<in> set (su_items (p_servers_in_use p1)). t_inv s"
    "su_cap (p_servers_in_use p1) = su_cap (p_servers_in_use p)"
proof -
  note st = pool_receive_start [OF rec]
  have "fits p0 ts0" using cap by (simp add: fits_def st(1) starts_idle st(5-8) min_def)
  from conserved_run [OF run(1) this] all_done [OF run(2)] st starts_idle
  have c: "conserved p0 ts0 msgs p1 ts1" "concat (map task_servers ts0) = []" "concat (map task_queues ts0) = []"
    "concat (map task_buffers ts0) = []" by simp_all
  show "image_mset t_id (mset (su_items (p_servers_in_use p1))) = image_mset t_id (mset (su_items (p_servers_in_use p0)))"
    "length (rq_items (p_receive_queue p1)) = length (rq_items (p_receive_queue p))"
    "length (rb_items (p_receive_buffers p1)) = length (rb_items (p_receive_buffers p))"
    "mset (concat (rq_items (p_receive_queue p1))) = mset (concat (rq_items (p_receive_queue p))) + mset msgs"
    "rq_cap (p_receive_queue p1) = rq_cap (p_receive_queue p)" "rb_cap (p_receive_buffers p1) = rb_cap (p_receive_buffers p)"
    "p_servers p1 = []" "p_published p1 = p_published p" "p_counter p1 = Some (length (p_servers p))"
    "\<forall>s \<in> set (su_items (p_servers_in_use p0)). t_inv s \<Longrightarrow> \<forall>s \<in> set (su_items (p_servers_in_use p1)). t_inv s"
    "su_cap (p_servers_in_use p1) = su_cap (p_servers_in_use p)"
    using c all_done [OF run(2)] st by (simp_all add: conserved_def)
qed

end

lemma fold_servers:
  "distinct (map fst m) \<Longrightarrow> distinct (map fst (fold (\<lambda>s m. AList.update (t_id s) s m) xs m))
     \<and> fst ` set (fold (\<lambda>s m. AList.update (t_id s) s m) xs m) = t_id ` set xs \<union> fst ` set m
     \<and> (\<forall>k s. map_of (fold (\<lambda>s m. AList.update (t_id s) s m) xs m) k = Some s \<longrightarrow> t_id s = k \<and> s \<in> set xs \<or> map_of m k = Some s)"
proof (induction xs arbitrary: m)
  case (Cons x xs)
  have "distinct (map fst (AList.update (t_id x) x m))" using Cons.prems by (simp add: distinct_update)
  from Cons.IH [OF this] show ?case by (auto simp: dom_update update_conv' split: if_splits)
qed simp

lemma length_update_new: "map_of xs i = None \<Longrightarrow> length (AList.update i v xs) = Suc (length xs)"
  by (induction xs) (auto split: if_splits)

text \<open>
  Between two receives: the servers are stored under their own numbers, each with
  consistent tables, none is in use, and the queues have room for everything.
\<close>

definition pool_ready ::
  "('rq \<Rightarrow> bytes list list) \<Rightarrow> ('rq \<Rightarrow> nat) \<Rightarrow> ('rb \<Rightarrow> bytes list) \<Rightarrow> ('rb \<Rightarrow> nat) \<Rightarrow> ('su \<Rightarrow> tachyon list) \<Rightarrow> ('su \<Rightarrow> nat)
     \<Rightarrow> ('rq, 'rb, 'ob, 'su) pool \<Rightarrow> bool" where
  "pool_ready rq_items rq_cap rb_items rb_cap su_items su_cap p \<longleftrightarrow>
     distinct (map fst (p_servers p)) \<and> (\<forall>(k, s) \<in> set (p_servers p). t_id s = k \<and> t_inv s)
     \<and> su_items (p_servers_in_use p) = [] \<and> length (p_servers p) \<le> su_cap (p_servers_in_use p)
     \<and> length (rq_items (p_receive_queue p)) \<le> rq_cap (p_receive_queue p)
     \<and> length (rb_items (p_receive_buffers p)) \<le> rb_cap (p_receive_buffers p)"

subsection \<open>One worker\<close>

lemma workers_run_snoc:
  assumes "workers_run pe blocking s n msgs ids (p, net, ts)" "i < length ts" "\<not> finished blocking (ts ! i)"
    "task_step pe now (ts ! i) p net = Some (t', p', net')"
  shows "\<exists>n' msgs' ids'. workers_run pe blocking s n' msgs' ids' (p', net', ts[i := t'])"
  using workers_run.step [OF assms] by blast

lemma stuck_only_by_panic:
  assumes "task_step pe now t p net = None" "t \<noteq> T_Done"
  shows "\<exists>n s q b. t = T_Receive (Suc n) s q b \<and> receive_server_round (pe_env pe) now net s q b = None"
  using assms
  by (cases "(pe, now, t, p, net)" rule: task_step.cases)
    (auto simp: bind_eq_None_conv split: prod.splits option.splits)

lemma receive_server_run:
  "receive_server n (pe_env pe) now net s q b = Some (s', q', b', net') \<Longrightarrow>
   workers_run pe blocking st k msgs ids (p, net, [T_Receive n s q b]) \<Longrightarrow>
   \<exists>k' msgs' ids'. workers_run pe blocking st k' msgs' ids' (p, net', [T_Return_Buffer s' q' b'])"
proof (induction n arbitrary: net s q b k msgs ids)
  case 0
  then show ?case using workers_run_snoc [OF 0(2), of 0 now] by auto
next
  case (Suc n)
  obtain go s1 q1 b1 net1 where r: "receive_server_round (pe_env pe) now net s q b = Some (go, s1, q1, b1, net1)"
    and rest: "if go then receive_server n (pe_env pe) now net1 s1 q1 b1 = Some (s', q', b', net')
      else (s', q', b', net') = (s1, q1, b1, net1)"
    using Suc.prems(1) by (auto elim!: bind_SomeE case_prod_SomeE split: if_splits)
  obtain k1 msgs1 ids1 where run: "workers_run pe blocking st k1 msgs1 ids1
      (p, net1, [if go then T_Receive n s1 q1 b1 else T_Return_Buffer s1 q1 b1])"
    using workers_run_snoc [OF Suc.prems(2), of 0 now] r by auto
  show ?case
  proof (cases go)
    case True
    with Suc.IH [of net1 s1 q1 b1 k1 msgs1 ids1] rest run show ?thesis by simp
  next
    case False
    with rest run show ?thesis by auto
  qed
qed

subsection \<open>A sample pool\<close>

type_synonym 'a fifo = "'a list \<times> nat"

definition sample_pool_env :: "(bytes list fifo, bytes fifo, out_buffer fifo, tachyon fifo) pool_env" where
  "sample_pool_env = \<lparr>pe_env = sample_env, pe_rq = fifo_queue, pe_rb = fifo_queue, pe_ob = fifo_queue, pe_su = fifo_queue,
     pe_server_order = id, pe_connection_order = id\<rparr>"

lemma sample_pool_queues: "pool_queues sample_pool_env fst snd fst snd fst snd"
  by (simp add: pool_queues_def sample_pool_env_def fifo.bounded_queue_axioms)

interpretation sample: pool_queues sample_pool_env fst snd fst snd fst snd
  by (rule sample_pool_queues)

text \<open>A pool with one server, which is all it has room for, that has not received anything.\<close>

definition sample_pool :: "(bytes list fifo, bytes fifo, out_buffer fifo, tachyon fifo) pool" where
  "sample_pool = (pool_create sample_pool_env 1 10 10)\<lparr>p_servers := [(0, sample_server 0)]\<rparr>"

lemma sample_pool_sel [simp]:
  "p_servers sample_pool = [(0, sample_server 0)]" "p_receive_queue sample_pool = ([[]], 1)"
  "p_receive_buffers sample_pool = ([replicate 10 0], 1)" "p_servers_in_use sample_pool = ([], 1)" "p_published sample_pool = []"
  "p_max_servers sample_pool = 1"
  by (simp_all add: sample_pool_def pool_create_def sample_pool_env_def fifo_queue_def)

lemma sample_server_id [simp]: "t_id (sample_server u) = 0"
  by (simp add: sample_server_def)

lemma sample_pool_ready: "pool_ready fst snd fst snd fst snd sample_pool"
  by (simp add: pool_ready_def)

lemma idle_round:
  assumes "ts_socket (t_socket s) = Some fd" "net_in net fd = []" "t_channels s = []"
  shows "receive_server_round env now net s q b = Some (False, s, q, b, net)"
proof -
  have "receive_round env now net s b = Some (Inr False, s, net, b)"
    using assms(1,2) by (simp add: receive_round_def receive_from_socket_def receive_gate_def ts_receive_def udp_recv_def)
  then have "receive_rounds 100 env now net s b = Some (None, s, net, b)"
    using receive_rounds.simps(2) [of 99 env now net s b] by simp
  moreover have "receive_published_keys keys s b = Some (trr_default, s, b)" for keys
    using assms(3) by (induction keys) simp_all
  ultimately show ?thesis
    by (simp add: receive_server_round_def receive_loop_def receive_published_all_channels_def trr_default_def)
qed

text \<open>Its one worker, alone, on a network without datagrams.\<close>

lemma sample_pool_run:
  "\<exists>p0 n msgs ids p1. pool_receive sample_pool_env sample_pool = (True, p0, [T_Start])
     \<and> workers_run sample_pool_env False (p0, net_empty, [T_Start]) n msgs ids (p1, net_empty, [T_Done])"
proof -
  let ?pe = sample_pool_env and ?s = "sample_server 0" and ?b = "replicate 10 0 :: bytes"
  let ?p = "\<lambda>su rq rb. sample_pool\<lparr>p_servers_in_use := (su, 1), p_receive_queue := (rq, 1), p_receive_buffers := (rb, 1),
      p_servers := [], p_counter := Some 1\<rparr>"
  let ?R = "\<lambda>t su rq rb. \<exists>n msgs ids. workers_run ?pe False (?p [?s] [[]] [?b], net_empty, [T_Start]) n msgs ids (?p su rq rb, net_empty, [t])"
  have next_t: "?R t' su' rq' rb'"
    if "?R t su rq rb" "\<not> finished False t" "task_step ?pe 0 t (?p su rq rb) net_empty = Some (t', ?p su' rq' rb', net_empty)" for t su rq rb t' su' rq' rb'
    using that workers_run_snoc [where i = 0 and now = 0 and t' = t' and blocking = False and pe = ?pe] by fastforce
  note defs = sample_pool_env_def fifo_queue_def
  have upd: "?p su rq rb\<lparr>p_servers_in_use := (su', 1)\<rparr> = ?p su' rq rb" "?p su rq rb\<lparr>p_receive_queue := (rq', 1)\<rparr> = ?p su rq' rb"
    "?p su rq rb\<lparr>p_receive_buffers := (rb', 1)\<rparr> = ?p su rq rb'" for su rq rb su' rq' rb' by simp_all
  have rec: "pool_receive ?pe sample_pool = (True, ?p [?s] [[]] [?b], [T_Start])"
    by (simp add: pool_receive_def defs)
  have idle: "receive_server_round (pe_env ?pe) 0 net_empty ?s [] ?b = Some (False, ?s, [], ?b, net_empty)"
    by (rule idle_round [where fd = 0]) (simp_all add: net_empty_def)
  have "?R T_Start [?s] [[]] [?b]" using workers_run.start by blast
  then have "?R (T_Server ?s) [] [[]] [?b]" by (rule next_t) (simp_all add: defs)
  then have "?R (T_Queue ?s []) [] [] [?b]" by (rule next_t) (simp_all add: defs)
  then have "?R (T_Receive (Suc 99999) ?s [] ?b) [] [] []" by (rule next_t) (simp_all add: defs)
  then have "?R (T_Return_Buffer ?s [] ?b) [] [] []"
    by (rule next_t) (simp, simp only: task_step.simps idle, simp)
  then have "?R (T_Return_Queue ?s []) [] [] [?b]" by (rule next_t) (simp_all add: defs)
  then have "?R (T_Return_Server ?s) [] [[]] [?b]" by (rule next_t) (simp_all add: defs)
  then have "?R T_Done [?s] [[]] [?b]" by (rule next_t) (simp_all add: defs)
  with rec show ?thesis by blast
qed

subsection \<open>Properties\<close>



text \<open>
  C25. The workers come to an end: in every interleaving, k workers take at most 100007 k steps in
  all, and a worker that is not done can take its next step unless a call of \<open>receive_loop\<close>
  on its server panics.
\<close>

theorem workers_terminate:
  assumes "workers_run pe False (p0, net0, replicate k T_Start) n msgs ids (p, net, ts)"
  shows "n \<le> 100007 * k \<and> length ts = k
    \<and> (\<forall>i < k. ts ! i \<noteq> T_Done \<longrightarrow>
        (\<exists>t' p' net'. task_step pe now (ts ! i) p net = Some (t', p', net') \<and> task_work t' < task_work (ts ! i))
        \<or> (\<exists>m s q b. ts ! i = T_Receive (Suc m) s q b \<and> receive_server_round (pe_env pe) now net s q b = None))"
proof -
  have w: "n + sum_list (map task_work ts) \<le> 100007 * k" "length ts = k"
    using workers_run_work [OF assms] by (simp_all add: sum_list_replicate)
  moreover have "(\<exists>t' p' net'. task_step pe now (ts ! i) p net = Some (t', p', net') \<and> task_work t' < task_work (ts ! i))
      \<or> (\<exists>m s q b. ts ! i = T_Receive (Suc m) s q b \<and> receive_server_round (pe_env pe) now net s q b = None)"
    if "ts ! i \<noteq> T_Done" for i
    using that stuck_only_by_panic [of pe now "ts ! i" p net] task_step_work [of pe now "ts ! i" p net]
    by (cases "task_step pe now (ts ! i) p net") auto
  ultimately show ?thesis by auto
qed

theorem workers_terminate_witness:
  "\<exists>p0 n msgs ids p1. workers_run sample_pool_env False (p0, net_empty, replicate 1 T_Start) n msgs ids (p1, net_empty, [T_Done])
     \<and> n \<le> 100007 * 1"
proof -
  obtain p0 n msgs ids p1 where run: "workers_run sample_pool_env False (p0, net_empty, replicate 1 T_Start) n msgs ids (p1, net_empty, [T_Done])"
    using sample_pool_run by auto
  with workers_terminate [OF run, of 0] show ?thesis by blast
qed

text \<open>
  A worker does what \<open>receive_server\<close> does: the steps of a worker alone, from the server,
  queue and buffer it has taken, lead to exactly the server, queue, buffer and network
  that the loop of \<open>receive_server\<close> with its 100000 rounds returns.
\<close>

lemma worker_is_receive_server:
  assumes "receive_server 100000 (pe_env pe) now net s q b = Some (s', q', b', net')"
  shows "\<exists>k msgs ids. workers_run pe blocking (p, net, [T_Receive 100000 s q b]) k msgs ids (p, net', [T_Return_Buffer s' q' b'])
    \<and> k \<le> 100001"
proof -
  obtain k msgs ids where run: "workers_run pe blocking (p, net, [T_Receive 100000 s q b]) k msgs ids (p, net', [T_Return_Buffer s' q' b'])"
    using receive_server_run [OF assms workers_run.start] by blast
  with workers_run_work [OF run] show ?thesis by auto
qed

theorem worker_is_receive_server_witness:
  "\<exists>k msgs ids. workers_run sample_pool_env False (sample_pool, net_empty, [T_Receive 100000 (sample_server 0) [] [7]]) k msgs ids
     (sample_pool, net_empty, [T_Return_Buffer (sample_server 0) [] [7]]) \<and> k \<le> 100001"
proof -
  have "receive_server_round (pe_env sample_pool_env) 0 net_empty (sample_server 0) [] [7] = Some (False, sample_server 0, [], [7], net_empty)"
    by (rule idle_round [where fd = 0]) (simp_all add: net_empty_def)
  then have "receive_server 100000 (pe_env sample_pool_env) 0 net_empty (sample_server 0) [] [7] = Some (sample_server 0, [], [7], net_empty)"
    using receive_server.simps(2) [of 99999 "pe_env sample_pool_env" 0 net_empty "sample_server 0" "[]" "[7]"] by simp
  from worker_is_receive_server [OF this] show ?thesis .
qed

text \<open>
  C26. A pool with one server too many loses one: \<open>create_server\<close> accepts a server when
  \<open>max_servers\<close> exist already, and the next parallel receive, whose queue has room for
  \<open>max_servers\<close>, drops a server: \<open>finish_receive\<close> returns one fewer than the pool had.
\<close>

theorem overfull_pool_loses_server:
  assumes q: "pool_queues pe rq_items rq_cap rb_items rb_cap su_items su_cap"
    and ready: "pool_ready rq_items rq_cap rb_items rb_cap su_items su_cap p"
    and full: "length (p_servers p) = unat (p_max_servers p)" "su_cap (p_servers_in_use p) = unat (p_max_servers p)"
    and i: "map_of (p_servers p) i = None"
    and bind: "tachyon_bind (e_os (pe_env pe)) net (tachyon_create now config) address = Some (True, t, net')"
    and ord: "\<forall>xs. mset (pe_server_order pe xs) = mset xs"
  shows "\<exists>p'. create_server pe now net p config address i = Some (True, p', net')
    \<and> length (p_servers p') = Suc (unat (p_max_servers p))
    \<and> (\<forall>p0 ts0 net0 n msgs ids p1 net1 ts1. pool_receive pe p' = (True, p0, ts0) \<longrightarrow>
        workers_run pe False (p0, net0, ts0) n msgs ids (p1, net1, ts1) \<longrightarrow> set ts1 \<subseteq> {T_Done} \<longrightarrow>
        fst (fst (finish_receive pe p1)) = unat (p_max_servers p))"
proof -
  let ?p = "p\<lparr>p_servers := AList.update i (t\<lparr>t_id := i\<rparr>) (p_servers p)\<rparr>"
  have c: "create_server pe now net p config address i = Some (True, ?p, net')"
    using full i bind by (simp add: create_server_def Let_def)
  have len: "length (AList.update i (t\<lparr>t_id := i\<rparr>) (p_servers p)) = Suc (length (p_servers p))"
    using i by (rule length_update_new)
  note r = ready [unfolded pool_ready_def]
  have lost: "fst (fst (finish_receive pe p1)) = unat (p_max_servers p)"
    if rec: "pool_receive pe ?p = (True, p0, ts0)" and run: "workers_run pe False (p0, net0, ts0) n msgs ids (p1, net1, ts1)" "set ts1 \<subseteq> {T_Done}"
    for p0 ts0 net0 n msgs ids p1 net1 ts1
  proof -
    have o: "mset (pe_server_order pe (p_servers ?p)) = mset (p_servers ?p)" using ord by blast
    have idle: "su_items (p_servers_in_use ?p) = []" and caps: "length (rq_items (p_receive_queue ?p)) \<le> rq_cap (p_receive_queue ?p)"
      "length (rb_items (p_receive_buffers ?p)) \<le> rb_cap (p_receive_buffers ?p)" using r by simp_all
    note st = pool_queues.pool_receive_start [OF q rec o idle] and d = pool_queues.receive_complete [OF q rec o idle caps run]
    have "length (su_items (p_servers_in_use p1)) = length (su_items (p_servers_in_use p0))"
      using arg_cong [OF d(1), of size] by simp
    also have "\<dots> = unat (p_max_servers p)" unfolding st(7) using st(9) len full by simp
    finally show ?thesis using pool_queues.finish_receive_eq [OF q d(9)] d(2,5) caps by fastforce
  qed
  show ?thesis using c len full lost by auto
qed

theorem overfull_pool_loses_server_witness:
  "\<exists>t net' p'. tachyon_bind os_ideal net_empty (tachyon_create 0 (t_config (sample_server 0))) (na_localhost 200) = Some (True, t, net')
     \<and> create_server sample_pool_env 0 net_empty sample_pool (t_config (sample_server 0)) (na_localhost 200) 5 = Some (True, p', net')
     \<and> length (p_servers p') = 2
     \<and> (\<forall>p0 ts0 net0 n msgs ids p1 net1 ts1. pool_receive sample_pool_env p' = (True, p0, ts0) \<longrightarrow>
        workers_run sample_pool_env False (p0, net0, ts0) n msgs ids (p1, net1, ts1) \<longrightarrow> set ts1 \<subseteq> {T_Done} \<longrightarrow>
        fst (fst (finish_receive sample_pool_env p1)) = 1)"
proof -
  let ?cfg = "t_config (sample_server 0)"
  have "\<exists>t net'. tachyon_bind os_ideal net_empty (tachyon_create 0 ?cfg) (na_localhost 200) = Some (True, t, net')"
    by (simp add: tachyon_bind_def bind_socket_def create_unreliable_sender_def clone_socket_def os_ideal_def ts_create_def tachyon_create_def)
  then obtain t net' where t: "tachyon_bind os_ideal net_empty (tachyon_create 0 ?cfg) (na_localhost 200) = Some (True, t, net')" by blast
  then have "tachyon_bind (e_os (pe_env sample_pool_env)) net_empty (tachyon_create 0 ?cfg) (na_localhost 200) = Some (True, t, net')"
    by (simp add: sample_pool_env_def sample_env_def)
  note b = this
  have one: "unat (p_max_servers sample_pool) = 1" by simp
  have "length (p_servers sample_pool) = unat (p_max_servers sample_pool)" "snd (p_servers_in_use sample_pool) = unat (p_max_servers sample_pool)"
    "map_of (p_servers sample_pool) 5 = None" "\<forall>xs. mset (pe_server_order sample_pool_env xs) = mset xs"
    by (simp_all add: sample_pool_env_def)
  from overfull_pool_loses_server [OF sample_pool_queues sample_pool_ready this(1-3) b this(4)] t show ?thesis
    unfolding one Suc_1 [symmetric] by (metis Suc_1)
qed

end
