(* ===== verification/Pool_Out_Buffers.thy ===== *)
theory Pool_Out_Buffers
  imports Pool_Workers
begin

text \<open>
  The out buffers of a pool (\<^verbatim>\<open>src/src/tachyon/pool.rs\<close>): what a reader of an out buffer finds.
\<close>

subsection \<open>The messages of a server\<close>

type_synonym message = "u16 \<times> network_address \<times> bytes"

text \<open>The messages that successive calls of \<open>receive_loop\<close> return, up to the first call without one.\<close>

fun drain_server ::
  "nat \<Rightarrow> env \<Rightarrow> nat \<Rightarrow> network \<Rightarrow> tachyon \<Rightarrow> bytes \<Rightarrow> (message list \<times> tachyon \<times> bytes \<times> network) option" where
  "drain_server 0 env now net server receive_buffer = None"
| "drain_server (Suc n) env now net server receive_buffer = do {
     (res, server, net, receive_buffer) \<leftarrow> receive_loop env now net server receive_buffer;
     if trr_length res = 0 \<or> trr_error res > 0 then Some ([], server, receive_buffer, net)
     else do {
       body \<leftarrow> slice receive_buffer 0 (unat (trr_length res));
       (ms, server, receive_buffer, net) \<leftarrow> drain_server n env now net server receive_buffer;
       Some ((trr_channel res, trr_address res, body) # ms, server, receive_buffer, net) } }"

abbreviation record_bytes :: "message \<Rightarrow> bytes" where
  "record_bytes m \<equiv> lp_record (fst m) (fst (snd m)) (snd (snd m))"

text \<open>What the reader of an out buffer does with \<open>LengthPrefixed::read\<close>.\<close>

fun read_records :: "nat \<Rightarrow> length_prefixed \<Rightarrow> bytes \<Rightarrow> message list option" where
  "read_records 0 reader data = Some []"
| "read_records (Suc n) reader data = do {
     ((channel, address, (lo, hi)), reader) \<leftarrow> lp_read reader data;
     body \<leftarrow> slice data lo hi;
     ms \<leftarrow> read_records n reader data;
     Some ((channel, address, body) # ms) }"

lemma read_records_eq:
  assumes "drop (ib_index (lp_reader reader)) data = concat (map record_bytes ms) @ rest"
    "ib_index (lp_reader reader) \<le> length data" "\<forall>m \<in> set ms. length (snd (snd m)) < 2 ^ 32"
  shows "read_records (length ms) reader data = Some ms"
  using assms
proof (induction ms arbitrary: reader)
  case (Cons m ms)
  obtain c a body where m: "m = (c, a, body)" by (cases m)
  let ?i = "ib_index (lp_reader reader)"
  have d: "drop ?i data = lp_record c a body @ concat (map record_bytes ms) @ rest" using Cons.prems(1) by (simp add: m)
  have len: "?i + 18 + length body \<le> length data"
    using arg_cong [OF d, of length] Cons.prems(2) by simp
  let ?reader = "reader\<lparr>lp_reader := lp_reader reader\<lparr>ib_index := ?i + 18 + length body\<rparr>\<rparr>"
  have r: "lp_read reader data = Some ((c, a, (?i + 18, ?i + 18 + length body)), ?reader)"
    by (rule lp_read_record) (use d len Cons.prems(3) m in simp_all)
  have "drop (?i + 18) data = drop 18 (drop ?i data)" by (simp add: add.commute)
  then have "drop (?i + 18) data = body @ concat (map record_bytes ms) @ rest" unfolding d by (simp add: lp_record_def)
  then have sl: "slice data (?i + 18) (?i + 18 + length body) = Some body" using len by (simp add: slice_def)
  have "drop (?i + 18 + length body) data = drop (18 + length body) (drop ?i data)" by (simp add: add.commute add.left_commute)
  then have "drop (?i + 18 + length body) data = concat (map record_bytes ms) @ rest" unfolding d by simp
  then have "read_records (length ms) ?reader data = Some ms"
    using len Cons.prems(3) by (intro Cons.IH) simp_all
  with r sl show ?case by (simp add: m)
qed simp

lemma out_buffer_loop_eq:
  assumes "drain_server n env now net s b = Some (ms, s', b', net')"
    "ib_index (lp_writer w) + length (concat (map record_bytes ms)) \<le> length (ob_data ob)"
  shows "out_buffer_loop n env now net s ob b w = Some (s',
     ob\<lparr>ob_data := overwrite (ob_data ob) (ib_index (lp_writer w)) (concat (map record_bytes ms)),
        ob_count := ob_count ob + word_of_nat (length ms),
        ob_bytes_written := word_of_nat (ib_index (lp_writer w) + length (concat (map record_bytes ms)))\<rparr>, b', net')"
  using assms
proof (induction n arbitrary: net s b w ob ms)
  case (Suc n)
  obtain res s1 net1 b1 where r: "receive_loop env now net s b = Some (res, s1, net1, b1)"
    using Suc.prems(1) by (auto elim!: bind_SomeE)
  show ?case
  proof (cases "trr_length res = 0 \<or> trr_error res > 0")
    case True
    then show ?thesis using Suc.prems r by (auto simp: out_buffer_round_def)
  next
    case False
    obtain body ms1 where body: "slice b1 0 (unat (trr_length res)) = Some body"
      and d: "drain_server n env now net1 s1 b1 = Some (ms1, s', b', net')" and ms: "ms = (trr_channel res, trr_address res, body) # ms1"
      using Suc.prems(1) r False by (auto elim!: bind_SomeE case_prod_SomeE)
    let ?i = "ib_index (lp_writer w)" and ?rec = "lp_record (trr_channel res) (trr_address res) body"
    let ?w = "w\<lparr>lp_writer := lp_writer w\<lparr>ib_index := ?i + 18 + length body\<rparr>\<rparr>"
    let ?ob = "ob\<lparr>ob_data := overwrite (ob_data ob) ?i ?rec, ob_count := ob_count ob + 1\<rparr>"
    have room: "?i + 18 + length body + length (concat (map record_bytes ms1)) \<le> length (ob_data ob)"
      using Suc.prems(2) by (simp add: ms)
    have rnd: "out_buffer_round env now net s ob b w = Some (True, s1, ?ob, b1, ?w, net1)"
      using r False body room by (simp add: out_buffer_round_def lp_write_eq)
    have "overwrite (overwrite (ob_data ob) ?i ?rec) (?i + 18 + length body) (concat (map record_bytes ms1)) =
        overwrite (ob_data ob) ?i (?rec @ concat (map record_bytes ms1))"
      using room by (intro overwrite_join) simp_all
    moreover have "out_buffer_loop n env now net1 s1 ?ob b1 ?w = Some (s',
       ?ob\<lparr>ob_data := overwrite (ob_data ?ob) (ib_index (lp_writer ?w)) (concat (map record_bytes ms1)),
          ob_count := ob_count ?ob + word_of_nat (length ms1),
          ob_bytes_written := word_of_nat (ib_index (lp_writer ?w) + length (concat (map record_bytes ms1)))\<rparr>, b', net')"
      by (rule Suc.IH [OF d]) (use room in simp)
    ultimately show ?thesis using rnd by (simp add: ms add.assoc)
  qed
qed simp

lemma drain_bodies: "drain_server n env now net s b = Some (ms, s', b', net') \<Longrightarrow> \<forall>m \<in> set ms. length (snd (snd m)) < 2 ^ 32"
proof (induction n arbitrary: net s b ms)
  case (Suc n)
  then show ?case
    using unsigned_less [where ?'a = nat and ?'b = 32]
    by (auto simp: slice_def elim!: bind_SomeE case_prod_SomeE split: if_splits) fastforce+
qed simp

lemma drain_length: "drain_server n env now net s b = Some (ms, s', b', net') \<Longrightarrow> length ms < n"
proof (induction n arbitrary: net s b ms)
  case (Suc n)
  then show ?case by (auto elim!: bind_SomeE case_prod_SomeE split: if_splits)
qed simp

subsection \<open>The next out buffer\<close>

lemma next_out_buffer_loop_first:
  assumes laws: "bounded_queue (pe_ob pe) items cap"
    and "items (p_out_buffers p) = ys @ x # zs" "\<forall>y \<in> set ys. ob_count y = 0" "ob_count x \<noteq> 0" "length ys < n"
      "length (ys @ x # zs) \<le> cap (p_out_buffers p)"
      "unat (ob_bytes_written x) \<le> length (ob_data x)" "unat (ob_bytes_written x) \<le> length buf"
  shows "\<exists>q. next_out_buffer_loop n pe p buf = Some (\<lparr>obc_bytes_written = ob_bytes_written x, obc_count = ob_count x\<rparr>,
       p\<lparr>p_out_buffers := q\<rparr>, overwrite buf 0 (take (unat (ob_bytes_written x)) (ob_data x)))
     \<and> items q = zs @ ys @ [x\<lparr>ob_bytes_written := 0, ob_count := 0\<rparr>] \<and> cap q = cap (p_out_buffers p)"
  using assms(2-)
proof (induction ys arbitrary: n p zs)
  case Nil
  obtain m where n: "n = Suc m" using Nil.prems(4) by (cases n) simp_all
  obtain q where q: "aq_pop (pe_ob pe) (p_out_buffers p) = (Some x, q)" "items q = zs" "cap q = cap (p_out_buffers p)"
    using bounded_queue.pop_Cons [OF laws, of "p_out_buffers p" x zs] Nil.prems(1) by auto
  have "items (push_or_drop (pe_ob pe) (x\<lparr>ob_bytes_written := 0, ob_count := 0\<rparr>) q) = zs @ [x\<lparr>ob_bytes_written := 0, ob_count := 0\<rparr>]"
    "cap (push_or_drop (pe_ob pe) (x\<lparr>ob_bytes_written := 0, ob_count := 0\<rparr>) q) = cap q"
    using bounded_queue.push_room [OF laws, of q] q Nil.prems(5) by simp_all
  then show ?case using n q Nil.prems(3,6,7) by auto
next
  case (Cons y ys)
  obtain m where n: "n = Suc m" "length ys < m" using Cons.prems(4) by (cases n) simp_all
  obtain q where q: "aq_pop (pe_ob pe) (p_out_buffers p) = (Some y, q)" "items q = ys @ x # zs" "cap q = cap (p_out_buffers p)"
    using bounded_queue.pop_Cons [OF laws, of "p_out_buffers p" y "ys @ x # zs"] Cons.prems(1) by auto
  let ?q = "push_or_drop (pe_ob pe) y q"
  have push: "items ?q = ys @ x # (zs @ [y])" "cap ?q = cap (p_out_buffers p)"
    using bounded_queue.push_room [OF laws, of q y] q Cons.prems(5) by simp_all
  have "\<exists>q'. next_out_buffer_loop m pe (p\<lparr>p_out_buffers := ?q\<rparr>) buf = Some (\<lparr>obc_bytes_written = ob_bytes_written x, obc_count = ob_count x\<rparr>,
       p\<lparr>p_out_buffers := ?q\<rparr>\<lparr>p_out_buffers := q'\<rparr>, overwrite buf 0 (take (unat (ob_bytes_written x)) (ob_data x)))
     \<and> items q' = (zs @ [y]) @ ys @ [x\<lparr>ob_bytes_written := 0, ob_count := 0\<rparr>] \<and> cap q' = cap (p_out_buffers (p\<lparr>p_out_buffers := ?q\<rparr>))"
    using push n Cons.prems by (intro Cons.IH) simp_all
  then show ?case using n q push(2) Cons.prems(2) by auto
qed

subsection \<open>Unreliable and idle receives\<close>

abbreviation unpublished :: "tachyon \<Rightarrow> bool" where
  "unpublished t \<equiv> \<forall>k c. map_of (t_channels t) k = Some c \<longrightarrow> r_published (c_receiver c) = []"

lemma receive_unreliable:
  assumes r: "receiving t net fd src (0 # body) q" and srv: "ts_is_server (t_socket t)" "tcf_use_identity (t_config t) \<noteq> 1"
    and buf: "length body \<le> length buf"
  shows "\<exists>t'. receive_loop env now net t buf = Some (\<lparr>trr_channel = 0, trr_address = from_socket_addr src,
       trr_length = word_of_nat (length body), trr_error = 0\<rparr>, t', taken_from net fd q, overwrite buf 0 body)
     \<and> t_socket t' = t_socket t \<and> t_channels t' = t_channels (on_receive_connection_update now t (from_socket_addr src))"
proof -
  let ?a = "from_socket_addr src" and ?d = "overwrite (t_socket_receive_buffer t) 0 (0 # body)"
  let ?u = "on_receive_connection_update now (filled t (0 # body)) ?a"
  obtain h where h: "header_read ?d = Some h" "h_message_type h = 0" using header_filled [OF r] by auto
  have u: "t_socket_receive_buffer ?u = ?d" "t_socket ?u = t_socket t" "t_channels ?u = t_channels (on_receive_connection_update now t ?a)"
    by (simp_all add: on_receive_connection_update_def create_connection_def create_configured_channels_def
        fire_connection_event_def Let_def split: option.split)
  have sl: "slice ?d 1 (Suc (length body)) = Some body" using r by (auto simp: slice_def overwrite_def receiving_def)
  have "\<exists>t'. receive_round env now net t buf = Some (Inl \<lparr>trr_channel = 0, trr_address = ?a,
       trr_length = word_of_nat (length body), trr_error = 0\<rparr>, t', taken_from net fd q, overwrite buf 0 body)
     \<and> t_socket t' = t_socket t \<and> t_channels t' = t_channels (on_receive_connection_update now t ?a)"
    using receiving_ts [OF r] srv h u sl buf
    by (simp add: receive_round_def receive_from_socket_def receive_gate_def Let_def trr_default_def)
  then show ?thesis using receive_rounds.simps(2) [of 99 env now net t buf] by (auto simp: receive_loop_def)
qed

lemma receive_published_none:
  assumes "r_published (c_receiver c) = []"
  shows "receive_published c buf = Some ((0, c_address c), c, buf)"
  using assms by (simp add: receive_published_unfold receive_published_internal_def take_published_def)

lemma receive_published_keys_none:
  "unpublished t \<Longrightarrow> \<exists>chs. receive_published_keys keys t buf = Some (trr_default, t\<lparr>t_channels := chs\<rparr>, buf)
     \<and> map_of chs = map_of (t_channels t)"
proof (induction keys arbitrary: t)
  case Nil
  show ?case by (intro exI [of _ "t_channels t"]) simp
next
  case (Cons k keys)
  show ?case
  proof (cases "map_of (t_channels t) k")
    case (Some c)
    let ?t = "t\<lparr>t_channels := AList.update k c (t_channels t)\<rparr>"
    have same: "map_of (t_channels ?t) = map_of (t_channels t)" using Some by (auto simp: update_conv' fun_eq_iff)
    obtain chs where "receive_published_keys keys ?t buf = Some (trr_default, ?t\<lparr>t_channels := chs\<rparr>, buf)"
      "map_of chs = map_of (t_channels ?t)"
      using Cons.IH [of ?t] Cons.prems unfolding same by blast
    moreover have "receive_published c buf = Some ((0, c_address c), c, buf)"
      using Cons.prems Some by (blast intro: receive_published_none)
    ultimately show ?thesis using Some same by auto
  qed (use Cons in simp)
qed

lemma receive_idle:
  assumes "ts_socket (t_socket t) = Some fd" "net_in net fd = []" "unpublished t"
  shows "receive_round env now net t buf = Some (Inr False, t, net, buf)"
    and "\<exists>chs. receive_loop env now net t buf = Some (trr_default, t\<lparr>t_channels := chs\<rparr>, net, buf) \<and> map_of chs = map_of (t_channels t)"
proof -
  show r: "receive_round env now net t buf = Some (Inr False, t, net, buf)"
    using assms(1,2) by (simp add: receive_round_def receive_from_socket_def receive_gate_def ts_receive_def udp_recv_def)
  then have "receive_rounds 100 env now net t buf = Some (None, t, net, buf)"
    using receive_rounds.simps(2) [of 99 env now net t buf] by simp
  then show "\<exists>chs. receive_loop env now net t buf = Some (trr_default, t\<lparr>t_channels := chs\<rparr>, net, buf) \<and> map_of chs = map_of (t_channels t)"
    using receive_published_keys_none [OF assms(3), of "e_channel_order env (map fst (t_channels t))" buf]
    by (auto simp: receive_loop_def receive_published_all_channels_def)
qed

lemma sample_receives:
  "\<exists>t t' net b. receive_loop sample_env 7 (arriving [0, 9]) (sample_server 0) (replicate 10 0) =
       Some (\<lparr>trr_channel = 0, trr_address = from_socket_addr sample_peer, trr_length = 1, trr_error = 0\<rparr>, t, net, b)
     \<and> take 1 b = [9] \<and> length b = 10 \<and> receive_loop sample_env 7 net t b = Some (trr_default, t', net, b)"
proof -
  let ?a = "from_socket_addr sample_peer" and ?net = "taken_from (arriving [0, 9]) 0 []" and ?b = "overwrite (replicate 10 0) 0 [9 :: u8]"
  obtain t where t: "receive_loop sample_env 7 (arriving [0, 9]) (sample_server 0) (replicate 10 0) =
      Some (\<lparr>trr_channel = 0, trr_address = ?a, trr_length = word_of_nat (length [9 :: u8]), trr_error = 0\<rparr>, t, ?net, ?b)"
    "t_socket t = t_socket (sample_server 0)" "t_channels t = t_channels (on_receive_connection_update 7 (sample_server 0) ?a)"
    using receive_unreliable [OF sample_receiving [of "[0, 9]" 0], of "replicate 10 0" sample_env 7] by auto
  have "unpublished t"
  proof (intro allI impI)
    fix k c assume c: "map_of (t_channels t) k = Some c"
    obtain a i where k: "k = (a, i)" by (cases k)
    have "\<exists>i cfg. c = channel_create i ?a cfg"
      using c by (auto simp: t(3) k on_receive_connection_update_def Let_def create_connection_maps(2) split: if_splits)
    then show "r_published (c_receiver c) = []" by (auto simp: channel_create_def receiver_create_def)
  qed
  then obtain t' where idle: "receive_loop sample_env 7 ?net t ?b = Some (trr_default, t', ?net, ?b)"
    using receive_idle(2) [of t 0 ?net sample_env 7 ?b] t(2) by auto
  have "take 1 ?b = [9]" "length ?b = 10" by (simp_all add: overwrite_def)
  with t(1) idle show ?thesis by auto
qed

lemma sample_drain:
  "\<exists>s' b' net'. drain_server 100000 sample_env 7 (arriving [0, 9]) (sample_server 0) (replicate 10 0) =
     Some ([(0, from_socket_addr sample_peer, [9])], s', b', net')"
proof -
  obtain t t' net b where r: "receive_loop sample_env 7 (arriving [0, 9]) (sample_server 0) (replicate 10 0) =
       Some (\<lparr>trr_channel = 0, trr_address = from_socket_addr sample_peer, trr_length = 1, trr_error = 0\<rparr>, t, net, b)"
     "take 1 b = [9]" "length b = 10" "receive_loop sample_env 7 net t b = Some (trr_default, t', net, b)"
    using sample_receives by blast
  have two: "drain_server (Suc 99998) sample_env 7 net t b = Some ([], t', b, net)"
    using r(4) by (simp only: drain_server.simps) (simp add: trr_default_def)
  have "drain_server (Suc (Suc 99998)) sample_env 7 (arriving [0, 9]) (sample_server 0) (replicate 10 0) =
      Some ([(0, from_socket_addr sample_peer, [9])], t', b, net)"
    unfolding drain_server.simps(2) [of "Suc 99998"] r(1) using two r(2,3) by (simp add: slice_def del: drain_server.simps)
  then show ?thesis by simp
qed

subsection \<open>Properties\<close>

text \<open>
  The out buffers carry the messages unchanged: when a server is drained into an out buffer
  with room, the next read of the pool hands out that buffer first (if those before it are
  empty), with the number of messages, and a reader of the copied bytes gets exactly the
  messages the server returned, with channel and sender, in order.
\<close>

lemma out_buffer_roundtrip:
  assumes d: "drain_server 100000 (pe_env pe) now net s b = Some (ms, s', b', net')" "ms \<noteq> []"
    and room: "length (concat (map record_bytes ms)) \<le> length (ob_data ob)" "length (concat (map record_bytes ms)) < 2 ^ 32"
      "length (concat (map record_bytes ms)) \<le> length buf" and fresh: "ob_count ob = 0"
    and laws: "bounded_queue (pe_ob pe) items cap"
  shows "\<exists>ob'. receive_server_into_out_buffer (pe_env pe) now net s ob b = Some (s', ob', b', net')
    \<and> (\<forall>p ys zs. items (p_out_buffers p) = ys @ ob' # zs \<longrightarrow> (\<forall>y \<in> set ys. ob_count y = 0) \<longrightarrow>
        length (ys @ ob' # zs) \<le> cap (p_out_buffers p) \<longrightarrow>
        (\<exists>r p' buf'. get_next_out_buffer pe p buf = Some (r, p', buf') \<and> unat (obc_count r) = length ms
          \<and> read_records (unat (obc_count r)) lp_default buf' = Some ms
          \<and> items (p_out_buffers p') = zs @ ys @ [ob'\<lparr>ob_bytes_written := 0, ob_count := 0\<rparr>]))"
proof -
  let ?all = "concat (map record_bytes ms)"
  let ?ob = "ob\<lparr>ob_data := overwrite (ob_data ob) 0 ?all, ob_count := word_of_nat (length ms), ob_bytes_written := word_of_nat (length ?all)\<rparr>"
  have r: "receive_server_into_out_buffer (pe_env pe) now net s ob b = Some (s', ?ob, b', net')"
    using out_buffer_loop_eq [OF d(1), of lp_default ob] room(1) fresh
    by (simp add: receive_server_into_out_buffer_def lp_default_def)
  have cnt: "length ms < 2 ^ 32" "unat (word_of_nat (length ms) :: u32) = length ms"
    using drain_length [OF d(1)] by (simp_all add: unat_of_nat)
  have bw: "unat (ob_bytes_written ?ob) = length ?all" using room(2) by (simp add: unat_of_nat)
  have "\<exists>r p' buf'. get_next_out_buffer pe p buf = Some (r, p', buf') \<and> unat (obc_count r) = length ms
      \<and> read_records (unat (obc_count r)) lp_default buf' = Some ms
      \<and> items (p_out_buffers p') = zs @ ys @ [?ob\<lparr>ob_bytes_written := 0, ob_count := 0\<rparr>]"
    if p: "items (p_out_buffers p) = ys @ ?ob # zs" "\<forall>y \<in> set ys. ob_count y = 0" "length (ys @ ?ob # zs) \<le> cap (p_out_buffers p)" for p ys zs
  proof -
    have "(word_of_nat (length ms) :: u32) \<noteq> 0" using cnt(2) d(2) by (metis length_0_conv unat_0)
    then have ne: "ob_count ?ob \<noteq> 0" by simp
    have "length ys < aq_len (pe_ob pe) (p_out_buffers p)" using p(1) bounded_queue.len_law [OF laws] by simp
    from next_out_buffer_loop_first [OF laws p(1,2) ne this p(3), of buf] bw room
    obtain q where q: "get_next_out_buffer pe p buf = Some (\<lparr>obc_bytes_written = ob_bytes_written ?ob, obc_count = ob_count ?ob\<rparr>,
        p\<lparr>p_out_buffers := q\<rparr>, overwrite buf 0 (take (length ?all) (ob_data ?ob)))"
      "items q = zs @ ys @ [?ob\<lparr>ob_bytes_written := 0, ob_count := 0\<rparr>]"
      by (auto simp: get_next_out_buffer_def)
    have "take (length ?all) (ob_data ?ob) = ?all" by (simp add: overwrite_def)
    then have "read_records (length ms) lp_default (overwrite buf 0 (take (length ?all) (ob_data ?ob))) = Some ms"
      using drain_bodies [OF d(1)] by (intro read_records_eq [where rest = "drop (length ?all) buf"]) (simp_all add: lp_default_def overwrite_def)
    with q cnt(2) show ?thesis by simp
  qed
  with r show ?thesis by blast
qed


theorem out_buffer_roundtrip_witness:
  "\<exists>ob' s' b' net'. receive_server_into_out_buffer sample_env 7 (arriving [0, 9]) (sample_server 0)
        \<lparr>ob_data = replicate 40 0, ob_bytes_written = 0, ob_count = 0\<rparr> (replicate 10 0) = Some (s', ob', b', net')
     \<and> (\<exists>r p' buf'. get_next_out_buffer sample_pool_env (sample_pool\<lparr>p_out_buffers := ([ob'], 1)\<rparr>) (replicate 100 0) = Some (r, p', buf')
          \<and> obc_count r = 1 \<and> read_records 1 lp_default buf' = Some [(0, from_socket_addr sample_peer, [9])])"
proof -
  let ?ob = "\<lparr>ob_data = replicate 40 0, ob_bytes_written = 0, ob_count = 0\<rparr>" and ?ms = "[(0, from_socket_addr sample_peer, [9])] :: message list"
  obtain s' b' net' where d: "drain_server 100000 (pe_env sample_pool_env) 7 (arriving [0, 9]) (sample_server 0) (replicate 10 0) = Some (?ms, s', b', net')"
    using sample_drain by (auto simp: sample_pool_env_def)
  have laws: "bounded_queue (pe_ob sample_pool_env) fst snd" by (simp add: sample_pool_env_def fifo.bounded_queue_axioms)
  have "length (concat (map record_bytes ?ms)) = 19" by simp
  then have "length (concat (map record_bytes ?ms)) \<le> length (ob_data ?ob)" "length (concat (map record_bytes ?ms)) < 2 ^ 32"
    "length (concat (map record_bytes ?ms)) \<le> length (replicate 100 (0 :: u8))" by simp_all
  from out_buffer_roundtrip [OF d _ this _ laws] obtain ob' where
    ob': "receive_server_into_out_buffer (pe_env sample_pool_env) 7 (arriving [0, 9]) (sample_server 0) ?ob (replicate 10 0) = Some (s', ob', b', net')"
    and nx: "\<And>p ys zs. fst (p_out_buffers p) = ys @ ob' # zs \<Longrightarrow> \<forall>y \<in> set ys. ob_count y = 0 \<Longrightarrow> length (ys @ ob' # zs) \<le> snd (p_out_buffers p) \<Longrightarrow>
      \<exists>r p' buf'. get_next_out_buffer sample_pool_env p (replicate 100 0) = Some (r, p', buf') \<and> unat (obc_count r) = length ?ms
        \<and> read_records (unat (obc_count r)) lp_default buf' = Some ?ms"
    by simp blast
  obtain r p' buf' where g: "get_next_out_buffer sample_pool_env (sample_pool\<lparr>p_out_buffers := ([ob'], 1)\<rparr>) (replicate 100 0) = Some (r, p', buf')"
    "unat (obc_count r) = 1" "read_records 1 lp_default buf' = Some ?ms"
    using nx [of "sample_pool\<lparr>p_out_buffers := ([ob'], 1)\<rparr>" "[]" "[]"] by auto
  have "obc_count r = 1" using g(2) by (simp add: word_unat_eq_iff)
  with ob' g show ?thesis by (auto simp: sample_pool_env_def)
qed

end
