(* ===== verification/Server_Streams.thy ===== *)
theory Server_Streams
  imports Pool_Out_Buffers
begin

text \<open>
  From the senders to the application of a server: any number of ordered and unordered
  streams arrive interleaved at the socket of one endpoint (\<^verbatim>\<open>src/src/tachyon.rs\<close>), each with
  loss, repetition and reordering, and the application calls \<open>receive_loop\<close>. What one call
  does, for the invariant \<open>serving\<close>.
\<close>

subsection \<open>Streams\<close>

text \<open>
  A stream is identified by the address of its sender and its channel; \<open>body key k\<close> is its
  k-th message. A packet is the source address of a datagram, its channel and its number.
\<close>

type_synonym packet = "socket_addr \<times> u8 \<times> nat"
type_synonym streams = "channel_key \<Rightarrow> nat \<Rightarrow> bytes"

definition stream_msg :: "streams \<Rightarrow> channel_key \<Rightarrow> nat \<Rightarrow> bytes" where
  "stream_msg body key k = hdr_bytes 1 (snd key) (seq_of k) @ body key k"

definition packet_key :: "packet \<Rightarrow> channel_key" where
  "packet_key p = (from_socket_addr (fst p), fst (snd p))"

definition datagram :: "streams \<Rightarrow> packet \<Rightarrow> (socket_addr \<times> bytes) option" where
  "datagram body p = Some (fst p, stream_msg body (packet_key p) (snd (snd p)))"

text \<open>The numbers of a stream in the order in which they arrived.\<close>

definition numbers :: "channel_key \<Rightarrow> packet list \<Rightarrow> nat list" where
  "numbers key ps = map (snd \<circ> snd) (filter (\<lambda>p. packet_key p = key) ps)"

definition message_key :: "message \<Rightarrow> channel_key" where
  "message_key m = (fst (snd m), ucast (fst m))"

text \<open>The messages of a stream that the application got.\<close>

definition messages_of :: "channel_key \<Rightarrow> message list \<Rightarrow> message list" where
  "messages_of key ms = filter (\<lambda>m. message_key m = key) ms"

definition stream_message :: "channel_key \<Rightarrow> bytes \<Rightarrow> message" where
  "stream_message key b = (ucast (snd key), fst key, b)"

lemma numbers_simps [simp]:
  "numbers key [] = []" "numbers key (ps @ qs) = numbers key ps @ numbers key qs"
  "numbers key (p # ps) = (if packet_key p = key then snd (snd p) # numbers key ps else numbers key ps)"
  by (simp_all add: numbers_def)

lemma messages_of_simps [simp]:
  "messages_of key [] = []" "messages_of key (ms @ ns) = messages_of key ms @ messages_of key ns"
  "messages_of key (m # ms) = (if message_key m = key then m # messages_of key ms else messages_of key ms)"
  by (simp_all add: messages_of_def)

lemma ucast_channel [simp]: "ucast (ucast (i :: u8) :: u16) = i"
  by (rule bit_word_eqI) (simp add: bit_simps)

lemma message_key_stream [simp]: "message_key (stream_message key b) = key"
  by (simp add: message_key_def stream_message_def)

text \<open>What the application should get of a stream whose numbers arrived as \<open>ks\<close>.\<close>

definition deliverable :: "bool \<Rightarrow> nat list \<Rightarrow> nat list" where
  "deliverable ordered ks = (if ordered then [1..<Suc (contiguous ks)] else rev (remdups (rev ks)))"

text \<open>The messages are small enough to be sent in one datagram.\<close>

definition bodies_ok :: "streams \<Rightarrow> bool" where
  "bodies_ok body \<longleftrightarrow> (\<forall>key k. body key k \<noteq> [] \<and> length (body key k) < 1200)"

subsection \<open>One stream\<close>

text \<open>A channel that can send nacks and answer them, and holds no fragments.\<close>

definition armed :: "channel \<Rightarrow> bool" where
  "armed c \<longleftrightarrow> length (c_nack_send_data c) = 512 \<and> resendable c \<and> fr_received (c_frag c) = []"

lemma armed_frame [simp]:
  "armed (c\<lparr>c_receiver := r\<rparr>) = armed c" "armed (c\<lparr>c_stats := st\<rparr>) = armed c" "armed (c\<lparr>c_nacked_sequences := ss\<rparr>) = armed c"
  "armed (c\<lparr>c_nacked_sequence_map := m\<rparr>) = armed c"
  by (simp_all add: armed_def resendable_def)

lemma armed_create: "armed (channel_create i a cfg)"
proof -
  have "sb_cell (sm_buffers sm_default) j = None" for j by (simp add: sm_default_def sb_cell_def)
  then show ?thesis using sm_wf_default by (simp add: armed_def resendable_def channel_create_def fr_default_def)
qed

lemma hdr_len: "length (hdr_bytes 1 ch s) = 4"
  by simp

lemma drop_stream_msg [simp]: "drop 4 (stream_msg body key k) = body key k"
  by (simp add: stream_msg_def)

lemma published_stream:
  assumes "window_run ordered W msg ks r out" "unat W \<le> 1022"
  shows "out @ map bb_content (r_published r) = map msg (deliverable ordered ks)"
    and "\<forall>b \<in> set (r_published r). (\<exists>k. bb_content b = msg k) \<and> (\<exists>n. bb_ok n b)"
proof -
  note inv = window_run_inv [OF assms, THEN conjunct1]
  show eq: "out @ map bb_content (r_published r) = map msg (deliverable ordered ks)"
    using run_inv_published [OF inv] by (simp add: run_window_def deliverable_def w_at_def w_flat_def arrived_def del: upt_Suc)
  have "\<exists>n. bb_ok n b" if "b \<in> set (r_published r)" for b
    using inv that by (auto simp: run_inv_def recv_rel_def)
  moreover have "\<exists>k. bb_content b = msg k" if b: "b \<in> set (r_published r)" for b
  proof -
    have "bb_content b \<in> set (out @ map bb_content (r_published r))" using b by simp
    then show ?thesis unfolding eq by auto
  qed
  ultimately show "\<forall>b \<in> set (r_published r). (\<exists>k. bb_content b = msg k) \<and> (\<exists>n. bb_ok n b)" by blast
qed

text \<open>Taking a message of a stream from its channel.\<close>

lemma receive_published_stream:
  assumes run: "window_run ordered W (stream_msg body key) ks (c_receiver c) out" "unat W \<le> 1022"
    and ok: "bodies_ok body" and buf: "1200 \<le> length buf" and ne: "r_published (c_receiver c) \<noteq> []"
  shows "\<exists>b d c'. receive_published c buf = Some ((word_of_nat (length b), c_address c), c', overwrite buf 0 b)
     \<and> 0 < length b \<and> length b < 1200 \<and> drop 4 d = b \<and> same_key c c' \<and> armed c' = armed c
     \<and> window_run ordered W (stream_msg body key) ks (c_receiver c') (out @ [d])"
proof -
  obtain b bs where b: "r_published (c_receiver c) = b # bs" using ne by (cases "r_published (c_receiver c)") auto
  obtain k n where k: "bb_content b = stream_msg body key k" "bb_ok n b"
    using published_stream(2) [OF run] b by auto
  have len: "body key k \<noteq> []" "length (body key k) < 1200" using ok unfolding bodies_ok_def by blast+
  have "receive_published c buf = Some ((word_of_nat (length (body key k)), c_address c),
     c\<lparr>c_receiver := receiver_return_buffer ((c_receiver c)\<lparr>r_published := bs\<rparr>) b,
       c_stats := (c_stats c)\<lparr>cs_published_consumed := cs_published_consumed (c_stats c) + 1\<rparr>\<rparr>, overwrite buf 0 (body key k))"
    using len buf by (intro receive_published_reliable [OF b k(2) k(1) [unfolded stream_msg_def]]) simp_all
  moreover have "window_run ordered W (stream_msg body key) ks (receiver_return_buffer ((c_receiver c)\<lparr>r_published := bs\<rparr>) b) (out @ [stream_msg body key k])"
    using window_run.taking [OF run(1), of b "(c_receiver c)\<lparr>r_published := bs\<rparr>"] b k(1) by (simp add: take_published_def)
  ultimately show ?thesis using len by (intro exI [of _ "body key k"] exI [of _ "stream_msg body key k"] exI) auto
qed

lemma u32_small: "n < 1200 \<Longrightarrow> unat (word_of_nat n :: u32) = n"
  by (simp add: unat_of_nat)

subsection \<open>A server with streams\<close>

text \<open>
  The packets \<open>ps\<close> have been processed and the messages \<open>ms\<close> handed out: every channel is in
  a state of a run over the numbers of its stream, and what it handed out is in \<open>ms\<close>.
\<close>

fun stream_state :: "streams \<Rightarrow> channel_key \<Rightarrow> channel option \<Rightarrow> channel_config option \<Rightarrow> nat list \<Rightarrow> message list \<Rightarrow> bool" where
  "stream_state body key None cfg ks ms \<longleftrightarrow> ks = [] \<and> ms = []"
| "stream_state body key (Some c) None ks ms \<longleftrightarrow> False"
| "stream_state body key (Some c) (Some cfg) ks ms \<longleftrightarrow> armed c \<and> (\<exists>out.
     window_run (cc_is_ordered cfg) (cc_receive_window_size cfg) (stream_msg body key) ks (c_receiver c) out
     \<and> ms = map (stream_message key \<circ> drop 4) out)"

definition serving :: "tachyon \<Rightarrow> streams \<Rightarrow> packet list \<Rightarrow> message list \<Rightarrow> bool" where
  "serving t body ps ms \<longleftrightarrow> t_inv t \<and> ts_is_server (t_socket t) \<and> tcf_drop_packet_chance (t_config t) = 0
     \<and> 1204 \<le> length (t_socket_receive_buffer t)
     \<and> (\<forall>a i. map_of (t_connections t) a \<noteq> None \<longrightarrow> map_of (t_channel_config t) i \<noteq> None \<longrightarrow> map_of (t_channels t) (a, i) \<noteq> None)
     \<and> (\<forall>cfg i. map_of (t_channel_config t) i = Some cfg \<longrightarrow> unat (cc_receive_window_size cfg) \<le> 1022)
     \<and> (\<forall>key. stream_state body key (map_of (t_channels t) key) (map_of (t_channel_config t) (snd key)) (numbers key ps) (messages_of key ms))"

definition same_setup :: "tachyon \<Rightarrow> tachyon \<Rightarrow> bool" where
  "same_setup t t' \<longleftrightarrow> t_config t' = t_config t \<and> t_channel_config t' = t_channel_config t \<and> t_socket t' = t_socket t
     \<and> length (t_socket_receive_buffer t') = length (t_socket_receive_buffer t)
     \<and> (tcf_use_identity (t_config t) = 1 \<longrightarrow> get_connection_identity t' = get_connection_identity t)"

lemma same_setup_refl [simp]: "same_setup t t" and same_setup_put [simp]: "same_setup t (t'\<lparr>t_channels := x\<rparr>) = same_setup t t'"
  by (auto simp: same_setup_def get_connection_identity_def fun_eq_iff)

lemma same_setup_trans: "same_setup t t1 \<Longrightarrow> same_setup t1 t2 \<Longrightarrow> same_setup t t2"
  by (simp add: same_setup_def)

text \<open>A datagram the server can take: from a linked sender where links are needed, on a
  configured channel, inside the window of its stream.\<close>

definition packet_ok :: "tachyon \<Rightarrow> packet list \<Rightarrow> packet \<Rightarrow> bool" where
  "packet_ok t ps p \<longleftrightarrow>
     (case map_of (t_channel_config t) (fst (snd p)) of
        None \<Rightarrow> False
      | Some cfg \<Rightarrow> arrival_ok (cc_receive_window_size cfg) (numbers (packet_key p) ps) (snd (snd p)))
     \<and> (tcf_use_identity (t_config t) = 1 \<longrightarrow> id_id (get_connection_identity t (from_socket_addr (fst p))) \<noteq> 0)"

fun packets_ok :: "tachyon \<Rightarrow> packet list \<Rightarrow> packet list \<Rightarrow> bool" where
  "packets_ok t ps [] \<longleftrightarrow> True"
| "packets_ok t ps (p # qs) \<longleftrightarrow> packet_ok t ps p \<and> packets_ok t (ps @ [p]) qs"

lemma packets_ok_setup: "same_setup t t' \<Longrightarrow> packets_ok t ps qs \<Longrightarrow> packets_ok t' ps qs"
  by (induction t ps qs rule: packets_ok.induct) (auto simp: packet_ok_def same_setup_def split: option.splits)

lemma packets_ok_append: "packets_ok t ps (qs @ rs) \<longleftrightarrow> packets_ok t ps qs \<and> packets_ok t (ps @ qs) rs"
  by (induction t ps qs rule: packets_ok.induct) auto

text \<open>One channel moves, the others stay.\<close>

lemma serving_put:
  assumes s: "serving t body ps ms" and c: "map_of (t_channels t) key = Some c" and k: "same_key c c'"
    and st: "stream_state body key (Some c') (map_of (t_channel_config t) (snd key)) (numbers key ps') (messages_of key ms')"
    and other: "\<And>k. k \<noteq> key \<Longrightarrow> numbers k ps' = numbers k ps \<and> messages_of k ms' = messages_of k ms"
  shows "serving (t\<lparr>t_channels := AList.update key c' (t_channels t)\<rparr>) body ps' ms'"
proof -
  let ?t = "t\<lparr>t_channels := AList.update key c' (t_channels t)\<rparr>"
  have inv: "t_inv t" and ss: "stream_state body k (map_of (t_channels t) k) (map_of (t_channel_config t) (snd k)) (numbers k ps) (messages_of k ms)" for k
    using s unfolding serving_def by blast+
  have "t_inv ?t" by (rule put_channel_inv [OF inv c k])
  moreover have "stream_state body k (map_of (t_channels ?t) k) (map_of (t_channel_config ?t) (snd k)) (numbers k ps') (messages_of k ms')" for k
    using st ss [of k] other [of k] by (cases "k = key") (simp_all add: update_conv')
  ultimately show ?thesis using s unfolding serving_def by (simp add: update_conv')
qed

lemma serving_stream:
  assumes "serving t body ps ms" "map_of (t_channels t) key = Some c"
  obtains cfg out where "map_of (t_channel_config t) (snd key) = Some cfg" "unat (cc_receive_window_size cfg) \<le> 1022" "armed c"
    "window_run (cc_is_ordered cfg) (cc_receive_window_size cfg) (stream_msg body key) (numbers key ps) (c_receiver c) out"
    "messages_of key ms = map (stream_message key \<circ> drop 4) out"
proof -
  have s: "stream_state body key (map_of (t_channels t) key) (map_of (t_channel_config t) (snd key)) (numbers key ps) (messages_of key ms)"
    and w: "\<And>cfg i. map_of (t_channel_config t) i = Some cfg \<Longrightarrow> unat (cc_receive_window_size cfg) \<le> 1022"
    using assms(1) unfolding serving_def by blast+
  obtain cfg where cfg: "map_of (t_channel_config t) (snd key) = Some cfg"
    using s assms(2) by (cases "map_of (t_channel_config t) (snd key)") simp_all
  then show thesis using s assms(2) w [OF cfg] that [OF cfg] by auto
qed

lemma take_stream:
  assumes s: "serving t body ps ms" and ok: "bodies_ok body" and buf: "1200 \<le> length buf"
    and c: "map_of (t_channels t) key = Some c"
  shows "r_published (c_receiver c) = [] \<and> receive_published c buf = Some ((0, c_address c), c, buf)
      \<and> serving (t\<lparr>t_channels := AList.update key c (t_channels t)\<rparr>) body ps ms
    \<or> (\<exists>b c'. receive_published c buf = Some ((word_of_nat (length b), fst key), c', overwrite buf 0 b)
        \<and> 0 < length b \<and> length b < 1200 \<and> c_id c' = snd key
        \<and> serving (t\<lparr>t_channels := AList.update key c' (t_channels t)\<rparr>) body ps (ms @ [stream_message key b]))"
proof (cases "r_published (c_receiver c) = []")
  case True
  have "stream_state body key (Some c) (map_of (t_channel_config t) (snd key)) (numbers key ps) (messages_of key ms)"
    using s c unfolding serving_def by metis
  then show ?thesis using True serving_put [OF s c] receive_published_none by blast
next
  case False
  obtain cfg out where cfg: "map_of (t_channel_config t) (snd key) = Some cfg" "unat (cc_receive_window_size cfg) \<le> 1022" "armed c"
    and run: "window_run (cc_is_ordered cfg) (cc_receive_window_size cfg) (stream_msg body key) (numbers key ps) (c_receiver c) out"
    and out: "messages_of key ms = map (stream_message key \<circ> drop 4) out"
    by (rule serving_stream [OF s c])
  obtain b d c' where b: "receive_published c buf = Some ((word_of_nat (length b), c_address c), c', overwrite buf 0 b)"
    "0 < length b" "length b < 1200" "drop 4 d = b" "same_key c c'" "armed c' = armed c"
    "window_run (cc_is_ordered cfg) (cc_receive_window_size cfg) (stream_msg body key) (numbers key ps) (c_receiver c') (out @ [d])"
    using receive_published_stream [OF run cfg(2) ok buf False] by blast
  have id: "c_id c = snd key" "c_address c = fst key"
    using s c t_wf_channel(3,4) [of t "fst key" "snd key" c] by (simp_all add: serving_def)
  have "stream_state body key (Some c') (map_of (t_channel_config t) (snd key)) (numbers key ps) (messages_of key (ms @ [stream_message key b]))"
    using cfg b(4,6,7) out by (auto intro!: exI [of _ "out @ [d]"])
  then have "serving (t\<lparr>t_channels := AList.update key c' (t_channels t)\<rparr>) body ps (ms @ [stream_message key b])"
    by (rule serving_put [OF s c b(5)]) auto
  then show ?thesis using b id by auto
qed

text \<open>The gate lets the datagram through; a new sender gets its channels.\<close>

lemma serving_known:
  assumes s: "serving t body ps ms" and conn: "map_of (t_connections t) a = Some conn"
    and buf: "length d = length (t_socket_receive_buffer t)"
  shows "serving (t\<lparr>t_socket_receive_buffer := d,
     t_connections := AList.update a (conn\<lparr>conn_received_at := x\<rparr>) (t_connections t)\<rparr>) body ps ms"
proof -
  let ?t = "t\<lparr>t_socket_receive_buffer := d, t_connections := AList.update a (conn\<lparr>conn_received_at := x\<rparr>) (t_connections t)\<rparr>"
  have "t_wf (t\<lparr>t_socket_receive_buffer := d\<rparr>)" using s by (simp add: serving_def)
  then have "t_wf ?t"
    using AList_update_wf [of "t\<lparr>t_socket_receive_buffer := d\<rparr>" a conn "conn\<lparr>conn_received_at := x\<rparr>"] conn t_wf_connection [of t a conn]
    by simp
  moreover have "links_ok ?t"
    using s conn unfolding serving_def links_ok_def by (auto simp: update_conv' split: if_splits)
  ultimately show ?thesis
    using s conn buf unfolding serving_def by (auto simp: update_conv' simp del: split_paired_All)
qed

lemma serving_new:
  assumes s: "serving t body ps ms" and conn: "map_of (t_connections t) a = None"
    and buf: "length d = length (t_socket_receive_buffer t)"
  shows "serving (create_connection now (t\<lparr>t_socket_receive_buffer := d\<rparr>) a identity_default) body ps ms"
proof -
  let ?t = "create_connection now (t\<lparr>t_socket_receive_buffer := d\<rparr>) a identity_default"
  have inv: "t_inv t" and ss: "stream_state body k (map_of (t_channels t) k) (map_of (t_channel_config t) (snd k)) (numbers k ps) (messages_of k ms)" for k
    using s unfolding serving_def by blast+
  have none: "map_of (t_channels t) (a, i) = None" for i
    using t_wf_channel(1) [of t a i] inv conn by (cases "map_of (t_channels t) (a, i)") auto
  have "t_inv ?t" using inv by (simp add: create_connection_wf create_connection_links identity_default_def)
  moreover have "stream_state body k (map_of (t_channels ?t) k) (map_of (t_channel_config ?t) (snd k)) (numbers k ps) (messages_of k ms)" for k
  proof (cases "map_of (t_channels t) k")
    case None
    then have e: "numbers k ps = []" "messages_of k ms = []" using ss [of k] by simp_all
    obtain b j where k: "k = (b, j)" by (cases k)
    show ?thesis
      using e None window_run.start
      by (cases "map_of (t_channel_config t) j") (auto simp: k create_connection_maps(2) armed_create, simp add: channel_create_def)
  next
    case (Some c)
    obtain b j where k: "k = (b, j)" by (cases k)
    show ?thesis using ss [of k] Some by (simp add: k create_connection_maps(2))
  qed
  moreover have "map_of (t_channels ?t) (b, i) \<noteq> None"
    if "map_of (t_connections ?t) b \<noteq> None" "map_of (t_channel_config ?t) i \<noteq> None" for b i
    using s that none unfolding serving_def
    by (auto simp: create_connection_maps simp del: split_paired_All split: option.split if_splits)
  ultimately show ?thesis using s buf unfolding serving_def by simp
qed

lemma serving_gate:
  assumes s: "serving t body ps ms" and ok: "bodies_ok body" and fd: "ts_socket (t_socket t) = Some fd"
    and q: "net_in net fd = datagram body (src, ch, k) # q" and p: "packet_ok t ps (src, ch, k)"
  defines "a \<equiv> from_socket_addr src" and "d \<equiv> stream_msg body (from_socket_addr src, ch) k"
  shows "\<exists>t1. receive_gate env now net t = Some (Inr (header_default\<lparr>h_message_type := 1, h_channel := ch, h_sequence := seq_of k\<rparr>,
       a, length d), t1, taken_from net fd q)
     \<and> t_socket_receive_buffer t1 = overwrite (t_socket_receive_buffer t) 0 d
     \<and> serving t1 body ps ms \<and> same_setup t t1 \<and> map_of (t_channels t1) (a, ch) \<noteq> None"
proof -
  let ?buf = "overwrite (t_socket_receive_buffer t) 0 d"
  let ?h = "header_default\<lparr>h_message_type := 1, h_channel := ch, h_sequence := seq_of k\<rparr>"
  have len: "length d < 1204" using ok by (simp add: d_def stream_msg_def bodies_ok_def)
  have r: "receiving t net fd src d q"
    using s fd q len by (simp add: receiving_def serving_def datagram_def packet_key_def d_def)
  have blen: "length ?buf = length (t_socket_receive_buffer t)" using r by (simp add: receiving_def)
  have h: "header_read ?buf = Some ?h" by (simp add: d_def stream_msg_def overwrite_def header_read_prefix)
  have srv: "ts_is_server (t_socket t)" and all: "\<And>a i. map_of (t_connections t) a \<noteq> None \<Longrightarrow> map_of (t_channel_config t) i \<noteq> None \<Longrightarrow> map_of (t_channels t) (a, i) \<noteq> None"
    using s unfolding serving_def by blast+
  have cfg: "map_of (t_channel_config t) ch \<noteq> None" using p by (auto simp: packet_ok_def split: option.splits)
  have idn: "tcf_use_identity (t_config t) = 1 \<Longrightarrow> id_id (get_connection_identity t a) \<noteq> 0 \<and> h_message_type ?h \<notin> {6, 7}"
    using p by (simp add: packet_ok_def a_def)
  let ?t1 = "on_receive_connection_update now (filled t d) a"
  have gate: "receive_gate env now net t = Some (Inr (?h, a, length d), ?t1, taken_from net fd q)"
    using gate_admits [OF r srv h] idn by (simp add: a_def)
  show ?thesis
  proof (cases "map_of (t_connections t) a")
    case (Some conn)
    then have t1: "?t1 = t\<lparr>t_socket_receive_buffer := ?buf,
        t_connections := AList.update a (conn\<lparr>conn_received_at := time_since_start now t\<rparr>) (t_connections t)\<rparr>"
      by (simp add: on_receive_connection_update_def time_since_start_def)
    have "same_setup t ?t1"
      using Some blen unfolding t1 by (auto simp: same_setup_def get_connection_identity_def update_conv' fun_eq_iff)
    moreover have "serving ?t1 body ps ms" unfolding t1 by (rule serving_known [OF s Some blen])
    ultimately show ?thesis using gate all cfg Some t1 by auto
  next
    case None
    then have off: "tcf_use_identity (t_config t) \<noteq> 1" using idn by (auto simp: get_connection_identity_def identity_default_def)
    have t1: "?t1 = create_connection now (t\<lparr>t_socket_receive_buffer := ?buf\<rparr>) a identity_default"
      using None by (simp add: on_receive_connection_update_def)
    have "same_setup t ?t1" using off blen unfolding t1 by (simp add: same_setup_def)
    moreover have "serving ?t1 body ps ms" unfolding t1 by (rule serving_new [OF s None blen])
    moreover have "map_of (t_channels ?t1) (a, ch) \<noteq> None" using cfg unfolding t1 by (simp add: create_connection_maps(2) split: option.split)
    ultimately show ?thesis using gate t1 by simp
  qed
qed

subsection \<open>Calls of the application\<close>

definition result_of :: "channel_key \<Rightarrow> bytes \<Rightarrow> tachyon_receive_result" where
  "result_of key b = \<lparr>trr_channel = ucast (snd key), trr_address = fst key, trr_length = word_of_nat (length b), trr_error = 0\<rparr>"

text \<open>What a part of \<open>receive_loop\<close> returns: nothing, or a message that is in the buffer.\<close>

fun outcome :: "tachyon \<Rightarrow> streams \<Rightarrow> packet list \<Rightarrow> message list \<Rightarrow> bytes \<Rightarrow> tachyon_receive_result option \<Rightarrow> tachyon \<Rightarrow> bytes \<Rightarrow> bool" where
  "outcome t body ps ms buf None t' buf' \<longleftrightarrow> same_setup t t' \<and> length buf' = length buf \<and> serving t' body ps ms"
| "outcome t body ps ms buf (Some res) t' buf' \<longleftrightarrow> same_setup t t' \<and> length buf' = length buf
     \<and> (\<exists>key b. res = result_of key b \<and> 0 < length b \<and> length b < 1200 \<and> take (length b) buf' = b
          \<and> serving t' body ps (ms @ [stream_message key b]))"

lemma outcome_trans: "same_setup t t1 \<Longrightarrow> length buf1 = length buf \<Longrightarrow> outcome t1 body ps ms buf1 r t' buf' \<Longrightarrow> outcome t body ps ms buf r t' buf'"
  using same_setup_trans by (cases r) auto

lemma u32_pos: "0 < n \<Longrightarrow> n < 1200 \<Longrightarrow> 0 < (word_of_nat n :: u32)"
  by (simp add: word_less_nat_alt unat_of_nat)

lemma receive_published_id_stream:
  assumes s: "serving t body ps ms" and ok: "bodies_ok body" and buf: "1200 \<le> length buf"
    and c: "map_of (t_channels t) key = Some c"
  shows "\<exists>n t' buf'. receive_published_channel_id t buf (fst key) (snd key) = Some (n, t', buf')
    \<and> outcome t body ps ms buf (if n > 0 then Some (trr_default\<lparr>trr_channel := ucast (snd key), trr_length := n, trr_address := fst key\<rparr>) else None) t' buf'"
proof (rule disjE [OF take_stream [OF s ok buf c]], goal_cases)
  case 1
  then show ?case using c by (simp add: receive_published_channel_id_def)
next
  case 2
  then obtain b c' where b: "receive_published c buf = Some ((word_of_nat (length b), fst key), c', overwrite buf 0 b)"
    "0 < length b" "length b < 1200" "serving (t\<lparr>t_channels := AList.update key c' (t_channels t)\<rparr>) body ps (ms @ [stream_message key b])"
    by blast
  have "receive_published_channel_id t buf (fst key) (snd key) =
      Some (word_of_nat (length b), t\<lparr>t_channels := AList.update key c' (t_channels t)\<rparr>, overwrite buf 0 b)"
    using b(1) c by (simp add: receive_published_channel_id_def)
  then show ?case
    using b u32_pos [OF b(2,3)] buf
    by (auto simp: result_of_def trr_default_def overwrite_def intro!: exI [of _ "fst key"] exI [of _ "snd key"] exI [of _ b])
qed

lemma channel_receive_packet:
  assumes "receive_packet (c_receiver c) s data n = Some (acc, r')" "h_message_type h = 1" "h_sequence h = s"
  shows "\<exists>st. channel_receive env now c h a data n =
    Some (if acc then RR_Reliable a (c_id c) else RR_Retry, c\<lparr>c_receiver := r', c_stats := st\<rparr>)"
proof (cases acc)
  case False
  then show ?thesis
    using assms by (intro exI [of _ "(c_stats c)\<lparr>cs_bytes_received := cs_bytes_received (c_stats c) + word_of_nat n\<rparr>"])
      (simp add: channel_receive_def)
qed (use channel_receive_reliable assms in simp)

lemma serving_round:
  assumes s: "serving t body ps ms" and ok: "bodies_ok body" and fd: "ts_socket (t_socket t) = Some fd"
    and q: "net_in net fd = datagram body p # q" and p: "packet_ok t ps p" and buf: "1200 \<le> length buf"
  shows "\<exists>r t' buf'. receive_round env now net t buf = Some (case r of Some res \<Rightarrow> Inl res | None \<Rightarrow> Inr True, t', taken_from net fd q, buf')
    \<and> outcome t body (ps @ [p]) ms buf r t' buf'"
proof -
  obtain src ch k where pk: "p = (src, ch, k)" by (cases p)
  let ?a = "from_socket_addr src" and ?h = "header_default\<lparr>h_message_type := 1, h_channel := ch, h_sequence := seq_of k\<rparr>"
  let ?key = "(?a, ch)" and ?d = "stream_msg body (from_socket_addr src, ch) k"
  let ?buf = "overwrite (t_socket_receive_buffer t) 0 ?d"
  obtain t1 c where t1: "receive_gate env now net t = Some (Inr (?h, ?a, length ?d), t1, taken_from net fd q)"
    "t_socket_receive_buffer t1 = ?buf" "serving t1 body ps ms" "same_setup t t1" and c: "map_of (t_channels t1) ?key = Some c"
    using serving_gate [OF s ok fd q [unfolded pk] p [unfolded pk], of env now] by auto
  obtain cfg out where cfg: "map_of (t_channel_config t1) ch = Some cfg" "unat (cc_receive_window_size cfg) \<le> 1022" "armed c"
    and run: "window_run (cc_is_ordered cfg) (cc_receive_window_size cfg) (stream_msg body ?key) (numbers ?key ps) (c_receiver c) out"
    and out: "messages_of ?key ms = map (stream_message ?key \<circ> drop 4) out"
    by (rule serving_stream [OF t1(3) c]) simp
  have arr: "arrival_ok (cc_receive_window_size cfg) (numbers ?key ps) k"
    using p t1(4) cfg(1) by (auto simp: packet_ok_def pk packet_key_def same_setup_def)
  have blen: "length ?d \<le> length ?buf" "take (length ?d) ?buf = ?d" by (simp_all add: overwrite_def)
  obtain r' where r': "receive_packet (c_receiver c) (seq_of k) ?buf (length ?d) = Some (k \<notin> set (numbers ?key ps), r')"
    using arrival_accepted [OF run cfg(2) arr blen] by blast
  note run' = window_run.arrive [OF run arr blen r']
  let ?acc = "k \<notin> set (numbers ?key ps)"
  obtain st where st: "channel_receive env now c ?h ?a ?buf (length ?d) =
      Some (if ?acc then RR_Reliable ?a (c_id c) else RR_Retry, c\<lparr>c_receiver := r', c_stats := st\<rparr>)"
    using channel_receive_packet [OF r', of ?h env now ?a] by auto
  let ?c = "c\<lparr>c_receiver := r', c_stats := st\<rparr>"
  let ?t2 = "t1\<lparr>t_channels := AList.update ?key ?c (t_channels t1)\<rparr>"
  have id: "c_id c = ch" using t1(3) c t_wf_channel(4) [of t1 ?a ch c] by (simp add: serving_def)
  have rfs: "receive_from_socket env now net t = Some (if ?acc then RR_Reliable ?a ch else RR_Retry, ?t2, taken_from net fd q)"
    using t1(1,2) c st id by (simp add: receive_from_socket_def)
  have "stream_state body ?key (Some ?c) (map_of (t_channel_config t1) ch) (numbers ?key (ps @ [p])) (messages_of ?key ms)"
    using run' cfg out by (auto simp: pk packet_key_def)
  then have s2: "serving ?t2 body (ps @ [p]) ms"
    by (intro serving_put [OF t1(3) c]) (auto simp: pk packet_key_def)
  show ?thesis
  proof (cases ?acc)
    case True
    have c2: "map_of (t_channels ?t2) ?key = Some ?c" by (simp add: update_conv')
    obtain n t' buf' where n: "receive_published_channel_id ?t2 buf ?a ch = Some (n, t', buf')"
      "outcome ?t2 body (ps @ [p]) ms buf (if n > 0 then Some (trr_default\<lparr>trr_channel := ucast ch, trr_length := n, trr_address := ?a\<rparr>) else None) t' buf'"
      using receive_published_id_stream [OF s2 ok buf c2, unfolded fst_conv snd_conv] by blast
    have "outcome t body (ps @ [p]) ms buf (if n > 0 then Some (trr_default\<lparr>trr_channel := ucast ch, trr_length := n, trr_address := ?a\<rparr>) else None) t' buf'"
      by (rule outcome_trans [OF _ refl n(2)]) (use t1(4) in simp)
    then show ?thesis using True rfs n(1) by (auto simp: receive_round_def intro!: exI split: option.splits if_splits)
  next
    case False
    then show ?thesis using rfs s2 t1(4) by (auto simp: receive_round_def intro!: exI [of _ None])
  qed
qed

lemma taken_none: "net_in net fd = q \<Longrightarrow> taken_from net fd q = net"
  by (simp add: fun_upd_idem)

lemma serving_rounds:
  assumes "serving t body ps ms" "bodies_ok body" "ts_socket (t_socket t) = Some fd"
    "net_in net fd = map (datagram body) qs" "packets_ok t ps qs" "1200 \<le> length buf"
  shows "\<exists>r t' buf' j. receive_rounds n env now net t buf = Some (r, t', taken_from net fd (map (datagram body) (drop j qs)), buf')
    \<and> outcome t body (ps @ take j qs) ms buf r t' buf' \<and> j \<le> length qs \<and> (r = None \<longrightarrow> j = min n (length qs))"
  using assms
proof (induction n arbitrary: net t buf ps qs)
  case 0
  then show ?case
    by (intro exI [of _ None] exI [of _ t] exI [of _ buf] exI [of _ 0]) (simp add: taken_none del: fun_upd_apply)
next
  case (Suc n)
  show ?case
  proof (cases qs)
    case Nil
    have "receive_round env now net t buf = Some (Inr False, t, net, buf)"
      using Suc.prems(3,4) Nil by (simp add: receive_round_def receive_from_socket_def receive_gate_def ts_receive_def udp_recv_def)
    then show ?thesis
      using Suc.prems Nil by (intro exI [of _ None] exI [of _ t] exI [of _ buf] exI [of _ 0]) (simp add: taken_none del: fun_upd_apply)
  next
    case (Cons p qs')
    let ?net = "taken_from net fd (map (datagram body) qs')"
    have p: "packet_ok t ps p" "packets_ok t (ps @ [p]) qs'" "net_in net fd = datagram body p # map (datagram body) qs'"
      using Suc.prems(4,5) Cons by simp_all
    obtain r t1 buf1 where r: "receive_round env now net t buf =
        Some (case r of Some res \<Rightarrow> Inl res | None \<Rightarrow> Inr True, t1, ?net, buf1)" "outcome t body (ps @ [p]) ms buf r t1 buf1"
      using serving_round [OF Suc.prems(1-3) p(3,1) Suc.prems(6)] by blast
    show ?thesis
    proof (cases r)
      case (Some res)
      then show ?thesis using r Cons by (intro exI [of _ "Some res"] exI [of _ t1] exI [of _ buf1] exI [of _ 1]) (simp del: fun_upd_apply)
    next
      case None
      then have t1: "same_setup t t1" "length buf1 = length buf" "serving t1 body (ps @ [p]) ms" using r(2) by simp_all
      have s1: "ts_socket (t_socket t1) = Some fd" using t1(1) Suc.prems(3) by (simp add: same_setup_def)
      have n1: "net_in ?net fd = map (datagram body) qs'" by simp
      have b1: "1200 \<le> length buf1" using t1(2) Suc.prems(6) by simp
      obtain r' t' buf' j where j: "receive_rounds n env now ?net t1 buf1 =
          Some (r', t', taken_from ?net fd (map (datagram body) (drop j qs')), buf')"
        "outcome t1 body ((ps @ [p]) @ take j qs') ms buf1 r' t' buf'" "j \<le> length qs'" "r' = None \<longrightarrow> j = min n (length qs')"
        using Suc.IH [OF t1(3) Suc.prems(2) s1 n1 packets_ok_setup [OF t1(1) p(2)] b1] by blast
      have "outcome t body (ps @ take (Suc j) qs) ms buf r' t' buf'"
        using outcome_trans [OF t1(1,2) j(2)] Cons by simp
      then show ?thesis using r None j Cons
        by (intro exI [of _ r'] exI [of _ t'] exI [of _ buf'] exI [of _ "Suc j"]) (simp del: fun_upd_apply)
    qed
  qed
qed

lemma serving_keys:
  assumes "serving t body ps ms" "bodies_ok body" "1200 \<le> length buf"
  shows "\<exists>r t' buf'. receive_published_keys keys t buf = Some (case r of Some res \<Rightarrow> res | None \<Rightarrow> trr_default, t', buf')
    \<and> outcome t body ps ms buf r t' buf'
    \<and> (r = None \<longrightarrow> map_of (t_channels t') = map_of (t_channels t)
        \<and> (\<forall>k \<in> set keys. \<forall>c. map_of (t_channels t) k = Some c \<longrightarrow> r_published (c_receiver c) = []))"
  using assms
proof (induction keys arbitrary: t buf)
  case Nil
  then show ?case by (intro exI [of _ None]) simp
next
  case (Cons k keys)
  show ?case
  proof (cases "map_of (t_channels t) k")
    case None
    then show ?thesis using Cons by simp
  next
    case (Some c)
    let ?t = "t\<lparr>t_channels := AList.update k c (t_channels t)\<rparr>"
    show ?thesis
    proof (rule disjE [OF take_stream [OF Cons.prems Some]], goal_cases)
      case 1
      have m: "map_of (t_channels ?t) = map_of (t_channels t)" using Some by (auto simp: update_conv' fun_eq_iff)
      obtain r t' buf' where r: "receive_published_keys keys ?t buf = Some (case r of Some res \<Rightarrow> res | None \<Rightarrow> trr_default, t', buf')"
        "outcome ?t body ps ms buf r t' buf'" "r = None \<longrightarrow> map_of (t_channels t') = map_of (t_channels ?t)
        \<and> (\<forall>k \<in> set keys. \<forall>c. map_of (t_channels ?t) k = Some c \<longrightarrow> r_published (c_receiver c) = [])"
        using Cons.IH [of ?t buf] Cons.prems 1 by blast
      have "outcome t body ps ms buf r t' buf'" by (rule outcome_trans [OF _ refl r(2)]) simp
      then show ?case using r 1 Some unfolding m by (intro exI [of _ r] exI [of _ t'] exI [of _ buf']) simp
    next
      case 2
      then obtain b c' where b: "receive_published c buf = Some ((word_of_nat (length b), fst k), c', overwrite buf 0 b)"
        "0 < length b" "length b < 1200" "c_id c' = snd k"
        "serving (t\<lparr>t_channels := AList.update k c' (t_channels t)\<rparr>) body ps (ms @ [stream_message k b])" by blast
      have "receive_published_keys (k # keys) t buf = Some (result_of k b, t\<lparr>t_channels := AList.update k c' (t_channels t)\<rparr>, overwrite buf 0 b)"
        using b u32_pos [OF b(2,3)] Some by (simp add: result_of_def trr_default_def)
      moreover have "take (length b) (overwrite buf 0 b) = b" "length (overwrite buf 0 b) = length buf"
        using b(3) Cons.prems(3) by (simp_all add: overwrite_def)
      ultimately show ?case
        using b(2,3,5) by (intro exI [of _ "Some (result_of k b)"]) (auto simp del: receive_published_keys.simps split_paired_Ex)
    qed
  qed
qed

text \<open>One call: a message, or nothing, and then up to a hundred datagrams have been processed
  and no channel holds a message back.\<close>

lemma serving_loop:
  assumes s: "serving t body ps ms" "bodies_ok body" "ts_socket (t_socket t) = Some fd"
    "net_in net fd = map (datagram body) qs" "packets_ok t ps qs" "1200 \<le> length buf"
    and ord: "\<forall>ks. set (e_channel_order env ks) = set ks"
  shows "\<exists>r t' buf' j. receive_loop env now net t buf =
      Some (case r of Some res \<Rightarrow> res | None \<Rightarrow> trr_default, t', taken_from net fd (map (datagram body) (drop j qs)), buf')
    \<and> outcome t body (ps @ take j qs) ms buf r t' buf' \<and> j \<le> length qs \<and> (r = None \<longrightarrow> j = min 100 (length qs) \<and> unpublished t')"
proof -
  obtain r t1 buf1 j where r: "receive_rounds 100 env now net t buf = Some (r, t1, taken_from net fd (map (datagram body) (drop j qs)), buf1)"
    "outcome t body (ps @ take j qs) ms buf r t1 buf1" "j \<le> length qs" "r = None \<longrightarrow> j = min 100 (length qs)"
    using serving_rounds [OF s, of 100 env now] by blast
  show ?thesis
  proof (cases r)
    case (Some res)
    then show ?thesis using r by (intro exI [of _ "Some res"] exI [of _ t1] exI [of _ buf1] exI [of _ j]) (simp add: receive_loop_def)
  next
    case None
    then have t1: "same_setup t t1" "length buf1 = length buf" "serving t1 body (ps @ take j qs) ms" using r(2) by simp_all
    let ?keys = "e_channel_order env (map fst (t_channels t1))"
    obtain r' t' buf' where k: "receive_published_keys ?keys t1 buf1 = Some (case r' of Some res \<Rightarrow> res | None \<Rightarrow> trr_default, t', buf')"
      "outcome t1 body (ps @ take j qs) ms buf1 r' t' buf'" "r' = None \<longrightarrow> map_of (t_channels t') = map_of (t_channels t1)
        \<and> (\<forall>k \<in> set ?keys. \<forall>c. map_of (t_channels t1) k = Some c \<longrightarrow> r_published (c_receiver c) = [])"
      using serving_keys [OF t1(3) s(2), of buf1 ?keys] t1(2) s(6) by auto
    have mem: "k \<in> set ?keys" if "map_of (t_channels t1) k = Some c" for k c
      using that ord by (auto dest: map_of_SomeD intro: rev_image_eqI)
    have "unpublished t'" if "r' = None" using k(3) that mem by (metis (no_types, lifting))
    then show ?thesis
      using r None k outcome_trans [OF t1(1,2) k(2)]
      by (intro exI [of _ r'] exI [of _ t'] exI [of _ buf'] exI [of _ j]) (simp add: receive_loop_def receive_published_all_channels_def)
  qed
qed

end
