(* ===== verification/Server_Runs.thy ===== *)
theory Server_Runs
  imports Server_Streams
begin

text \<open>
  Runs of a server with streams: what \<open>update\<close> does (nacks for everything that is missing,
  answers to the nacks of others), and what an application gets that calls \<open>receive_loop\<close> and
  \<open>update\<close> (\<^verbatim>\<open>src/src/tachyon.rs\<close>) again and again.
\<close>

subsection \<open>Updating a channel\<close>

text \<open>The environment: a system that accepts every datagram, a codec that round-trips and
  hash maps that are walked completely.\<close>

definition fair_env :: "env \<Rightarrow> bool" where
  "fair_env env \<longleftrightarrow> varint_codec (e_vw env) (e_vr env) \<and> (\<forall>net fd dest d. os_send (e_os env) net fd dest d)
     \<and> (\<forall>m. set (e_nack_order env m) = set m) \<and> (\<forall>ks. set (e_channel_order env ks) = set ks)"

text \<open>A number that an update asks for: missing, and near enough to the newest one.\<close>

definition missing :: "u32 \<Rightarrow> nat list \<Rightarrow> nat \<Rightarrow> bool" where
  "missing W ks k \<longleftrightarrow> contiguous ks < k \<and> k < newest ks \<and> k \<notin> set ks \<and> newest ks \<le> k + unat W div 32"

abbreviation resends :: "env \<Rightarrow> nat \<Rightarrow> channel \<Rightarrow> network \<Rightarrow> network" where
  "resends env fd c \<equiv> fold (\<lambda>(q, address). sent (e_os env) fd (dest_of address) (resend_bytes c q)) (e_nack_order env (c_nacked_sequence_map c))"

lemma resend_bytes_frame: "c_send_buffers c' = c_send_buffers c \<Longrightarrow> c_id c' = c_id c \<Longrightarrow> resend_bytes c' = resend_bytes c"
  by (auto simp: resend_bytes_def fun_eq_iff split: option.split)

lemma channel_update_run:
  assumes run: "window_run ordered W msg ks (c_receiver c) out" "unat W \<le> 1022"
    and arm: "armed c" and env: "fair_env env" and s: "ts_socket s = Some fd"
  shows "\<exists>c' ns. channel_update (e_os env) (e_vw env) (e_nack_order env) c s net =
       Some (c', resends env fd c (if ns = [] then net else sent (e_os env) fd (dest_of (c_address c)) (nack_packet (e_vw env) (c_id c) ns) net))
     \<and> window_run ordered W msg ks (c_receiver c') out \<and> armed c' \<and> same_key c c' \<and> c_nacked_sequence_map c' = []
     \<and> c_send_buffers c' = c_send_buffers c \<and> length ns \<le> 31 \<and> (\<forall>k. missing W ks k \<longrightarrow> seq_of k \<in> requested ns)"
proof -
  obtain n r where cn: "create_nacks (c_receiver c) = Some (n, r)" "length (r_nack_list r) \<le> unat W div 32"
    "requested (r_nack_list r) = seq_of ` nack_cover {j \<in> set ks. contiguous ks < j} (contiguous ks) (unat W div 32) (newest ks - 1)"
    using create_nacks_run [OF run] by auto
  have req: "seq_of k \<in> requested (r_nack_list r)" if "missing W ks k" for k
    unfolding cn(3) using that by (intro imageI nack_cover_complete) (auto simp: missing_def)
  have len: "length (r_nack_list r) \<le> 31" using cn(2) run(2) by simp
  have codec: "varint_codec (e_vw env) (e_vr env)" and iter: "e_nack_order env [] = []"
    using env unfolding fair_env_def by (blast, metis set_empty)
  let ?net = "if r_nack_list r = [] then net else sent (e_os env) fd (dest_of (c_address c)) (nack_packet (e_vw env) (c_id c) (r_nack_list r)) net"
  obtain c1 where c1: "send_nacks (e_os env) (e_vw env) c s net = Some (c1, ?net)" "c_receiver c1 = r"
    "c_send_buffers c1 = c_send_buffers c" "c_nacked_sequence_map c1 = c_nacked_sequence_map c" "length (c_nack_send_data c1) = 512" "c_frag c1 = c_frag c"
    using send_nacks_ok [OF cn(1) len codec _ s, of "e_os env" net] arm by (auto simp: armed_def)
  have key1: "same_key c c1"
    using c1(1) by (auto simp: send_nacks_def Let_def elim!: bind_SomeE case_prod_SomeE split: if_splits)
  have arm1: "armed c1" using arm c1(3,5,6) by (simp add: armed_def resendable_def)
  obtain st where c2: "resend_nacked (e_os env) (e_nack_order env) c1 s ?net =
      Some (c1\<lparr>c_stats := st, c_nacked_sequence_map := []\<rparr>, resends env fd c ?net)"
    using resend_nacked_ok [where iter = "e_nack_order env", OF _ s iter, of c1 "e_os env" ?net] arm1
      resend_bytes_frame [OF c1(3)] key1 c1(4) by (auto simp: armed_def)
  have run1: "window_run ordered W msg ks r out" by (rule window_run.nacking [OF run(1) cn(1)])
  obtain r' where r': "publish r = Some r'"
    using run_inv_publish [OF window_run_inv [OF run1 run(2), THEN conjunct1]] by blast
  let ?c = "c1\<lparr>c_stats := st, c_nacked_sequence_map := [], c_receiver := r'\<rparr>"
  have "channel_update (e_os env) (e_vw env) (e_nack_order env) c s net = Some (?c, resends env fd c ?net)"
    using c1(1,2) c2 r' by (simp add: channel_update_def)
  then show ?thesis
    using window_run.publishing [OF run1 r'] arm1 key1 c1(3) len req
    by (intro exI [of _ ?c] exI [of _ "r_nack_list r"]) simp
qed

subsection \<open>What is on the wire\<close>

abbreviation wire :: "network \<Rightarrow> (nat \<times> destination \<times> bytes) set" where
  "wire net \<equiv> set (net_out net)"

lemma resends_wire: "wire net \<subseteq> wire (fold (\<lambda>(q, address). sent os fd (dest_of address) (f q)) qs net)"
  and resends_net_in: "net_in (fold (\<lambda>(q, address). sent os fd (dest_of address) (f q)) qs net) = net_in net"
proof (induction qs arbitrary: net)
  case (Cons x qs)
  { case 1 show ?case using Cons.IH(1) sent_mono by (fastforce simp: case_prod_beta) }
  { case 2 show ?case by (simp add: case_prod_beta Cons.IH(2) [unfolded case_prod_beta]) }
qed simp_all

lemma update_wire:
  assumes "fair_env env" "ns \<noteq> []"
  shows "(fd, dest, p) \<in> wire (resends env fd c (if ns = [] then net else sent (e_os env) fd dest p net))"
proof -
  have "(fd, dest, p) \<in> wire (sent (e_os env) fd dest p net)"
    using assms(1) by (intro in_net_out_sent) (simp add: fair_env_def)
  then show ?thesis using assms(2) by (simp only: if_False) (rule subsetD [OF resends_wire])
qed


text \<open>The wire carries a request for everything a stream misses.\<close>

definition asked :: "env \<Rightarrow> nat \<Rightarrow> network \<Rightarrow> channel_key \<Rightarrow> u32 \<Rightarrow> nat list \<Rightarrow> bool" where
  "asked env fd net key W ks \<longleftrightarrow> (\<exists>ns. length ns \<le> 31 \<and> (\<forall>k. missing W ks k \<longrightarrow> seq_of k \<in> requested ns)
     \<and> ((\<exists>k. missing W ks k) \<longrightarrow> (fd, dest_of (fst key), nack_packet (e_vw env) (snd key) ns) \<in> wire net))"

lemma asked_mono: "asked env fd net key W ks \<Longrightarrow> wire net \<subseteq> wire net' \<Longrightarrow> asked env fd net' key W ks"
  unfolding asked_def by blast

lemma channel_update_serving:
  assumes s: "serving t body ps ms" and fd: "ts_socket (t_socket t) = Some fd" and env: "fair_env env"
    and c: "map_of (t_channels t) key = Some c"
  shows "\<exists>c' net' cfg. channel_update (e_os env) (e_vw env) (e_nack_order env) c (t_socket t) net = Some (c', net')
    \<and> serving (t\<lparr>t_channels := AList.update key c' (t_channels t)\<rparr>) body ps ms \<and> wire net \<subseteq> wire net' \<and> net_in net' = net_in net
    \<and> map_of (t_channel_config t) (snd key) = Some cfg \<and> asked env fd net' key (cc_receive_window_size cfg) (numbers key ps)"
proof -
  obtain cfg out where cfg: "map_of (t_channel_config t) (snd key) = Some cfg" "unat (cc_receive_window_size cfg) \<le> 1022" "armed c"
    and run: "window_run (cc_is_ordered cfg) (cc_receive_window_size cfg) (stream_msg body key) (numbers key ps) (c_receiver c) out"
    and out: "messages_of key ms = map (stream_message key \<circ> drop 4) out"
    by (rule serving_stream [OF s c])
  have id: "c_id c = snd key" "c_address c = fst key"
    using s c t_wf_channel(3,4) [of t "fst key" "snd key" c] by (simp_all add: serving_def)
  let ?p = "nack_packet (e_vw env) (snd key)"
  obtain c' ns where c': "channel_update (e_os env) (e_vw env) (e_nack_order env) c (t_socket t) net =
       Some (c', resends env fd c (if ns = [] then net else sent (e_os env) fd (dest_of (fst key)) (?p ns) net))"
    "window_run (cc_is_ordered cfg) (cc_receive_window_size cfg) (stream_msg body key) (numbers key ps) (c_receiver c') out"
    "armed c'" "same_key c c'" "length ns \<le> 31" "\<forall>k. missing (cc_receive_window_size cfg) (numbers key ps) k \<longrightarrow> seq_of k \<in> requested ns"
    using channel_update_run [OF run cfg(2,3) env fd, of net] unfolding id by blast
  let ?n = "if ns = [] then net else sent (e_os env) fd (dest_of (fst key)) (?p ns) net"
  have "stream_state body key (Some c') (map_of (t_channel_config t) (snd key)) (numbers key ps) (messages_of key ms)"
    using cfg(1) c'(2,3) out by auto
  then have "serving (t\<lparr>t_channels := AList.update key c' (t_channels t)\<rparr>) body ps ms"
    by (rule serving_put [OF s c c'(4)]) simp
  moreover have "wire net \<subseteq> wire (resends env fd c ?n)" using resends_wire [of ?n] sent_mono by (fastforce split: if_splits)
  moreover have "net_in (resends env fd c ?n) = net_in net" by (simp add: resends_net_in)
  moreover have "asked env fd (resends env fd c ?n) key (cc_receive_window_size cfg) (numbers key ps)"
  proof -
    have "ns \<noteq> []" if "missing (cc_receive_window_size cfg) (numbers key ps) k" for k
      using c'(6) that by (auto simp: requested_def)
    then show ?thesis unfolding asked_def using c'(5,6) update_wire [OF env] by blast
  qed
  ultimately show ?thesis using c'(1) cfg(1) by blast
qed

lemma update_channels_serving:
  assumes "serving t body ps ms" "ts_socket (t_socket t) = Some fd" "fair_env env"
  shows "\<exists>chs net'. update_channels env (t_socket t) keys (t_channels t) net = Some (chs, net')
    \<and> serving (t\<lparr>t_channels := chs\<rparr>) body ps ms \<and> wire net \<subseteq> wire net' \<and> net_in net' = net_in net
    \<and> (\<forall>key \<in> set keys. map_of (t_channels t) key \<noteq> None \<longrightarrow> (\<exists>cfg. map_of (t_channel_config t) (snd key) = Some cfg
         \<and> asked env fd net' key (cc_receive_window_size cfg) (numbers key ps)))"
  using assms
proof (induction keys arbitrary: t net)
  case Nil
  then show ?case by (intro exI [of _ "t_channels t"]) simp
next
  case (Cons key keys)
  show ?case
  proof (cases "map_of (t_channels t) key")
    case None
    then show ?thesis using Cons by simp
  next
    case (Some c)
    obtain c' net1 cfg where c': "channel_update (e_os env) (e_vw env) (e_nack_order env) c (t_socket t) net = Some (c', net1)"
      and s1: "serving (t\<lparr>t_channels := AList.update key c' (t_channels t)\<rparr>) body ps ms" and n1: "wire net \<subseteq> wire net1" "net_in net1 = net_in net"
      and cfg: "map_of (t_channel_config t) (snd key) = Some cfg" "asked env fd net1 key (cc_receive_window_size cfg) (numbers key ps)"
      using channel_update_serving [OF Cons.prems Some, of net] by blast
    let ?t = "t\<lparr>t_channels := AList.update key c' (t_channels t)\<rparr>"
    obtain chs net' where r: "update_channels env (t_socket ?t) keys (t_channels ?t) net1 = Some (chs, net')"
      "serving (?t\<lparr>t_channels := chs\<rparr>) body ps ms" "wire net1 \<subseteq> wire net'" "net_in net' = net_in net1"
      "\<forall>key \<in> set keys. map_of (t_channels ?t) key \<noteq> None \<longrightarrow> (\<exists>cfg. map_of (t_channel_config ?t) (snd key) = Some cfg
         \<and> asked env fd net' key (cc_receive_window_size cfg) (numbers key ps))"
      using Cons.IH [OF s1, of net1] Cons.prems by auto
    have "\<exists>cfg. map_of (t_channel_config t) (snd k) = Some cfg \<and> asked env fd net' k (cc_receive_window_size cfg) (numbers k ps)"
      if "k \<in> set (key # keys)" "map_of (t_channels t) k \<noteq> None" for k
      using that r(5) cfg asked_mono [OF cfg(2) r(3)] by (cases "k = key") (auto simp: update_conv')
    then show ?thesis using c' Some r n1 by auto
  qed
qed

lemma serving_update:
  assumes s: "serving t body ps ms" and fd: "ts_socket (t_socket t) = Some fd" and env: "fair_env env"
  shows "\<exists>t' net'. tachyon_update env now net t = Some (t', net') \<and> serving t' body ps ms \<and> same_setup t t'
    \<and> wire net \<subseteq> wire net' \<and> net_in net' = net_in net
    \<and> (\<forall>key. map_of (t_channels t) key \<noteq> None \<longrightarrow> (\<exists>cfg. map_of (t_channel_config t) (snd key) = Some cfg
         \<and> asked env fd net' key (cc_receive_window_size cfg) (numbers key ps)))"
proof -
  have id: "client_identity_update (e_os env) now net t = Some (t, net)"
    using s by (simp add: client_identity_update_def serving_def)
  let ?keys = "e_channel_order env (map fst (t_channels t))"
  obtain chs net' where r: "update_channels env (t_socket t) ?keys (t_channels t) net = Some (chs, net')"
    "serving (t\<lparr>t_channels := chs\<rparr>) body ps ms" "wire net \<subseteq> wire net'" "net_in net' = net_in net"
    "\<forall>key \<in> set ?keys. map_of (t_channels t) key \<noteq> None \<longrightarrow> (\<exists>cfg. map_of (t_channel_config t) (snd key) = Some cfg
         \<and> asked env fd net' key (cc_receive_window_size cfg) (numbers key ps))"
    using update_channels_serving [OF s fd env, of ?keys net] by blast
  have "key \<in> set ?keys" if "map_of (t_channels t) key \<noteq> None" for key
  proof -
    have "set ?keys = set (map fst (t_channels t))" using env by (simp add: fair_env_def)
    then show ?thesis using that by (auto dest: map_of_SomeD intro: rev_image_eqI)
  qed
  with r id show ?thesis
    by (intro exI [of _ "t\<lparr>t_channels := chs\<rparr>"] exI [of _ net']) (simp add: tachyon_update_def del: split_paired_All)
qed

subsection \<open>Many calls\<close>

text \<open>The application calls \<open>receive_loop\<close> and \<open>update\<close> in some order; the messages it gets.\<close>

datatype app_call = Receive_Call nat | Update_Call nat

fun app_calls ::
  "env \<Rightarrow> app_call list \<Rightarrow> network \<Rightarrow> tachyon \<Rightarrow> bytes \<Rightarrow> (message list \<times> tachyon \<times> network \<times> bytes) option" where
  "app_calls env [] net server receive_buffer = Some ([], server, net, receive_buffer)"
| "app_calls env (Receive_Call now # calls) net server receive_buffer = do {
     (res, server, net, receive_buffer) \<leftarrow> receive_loop env now net server receive_buffer;
     body \<leftarrow> slice receive_buffer 0 (unat (trr_length res));
     (ms, server, net, receive_buffer) \<leftarrow> app_calls env calls net server receive_buffer;
     Some ((if trr_length res = 0 then ms else (trr_channel res, trr_address res, body) # ms), server, net, receive_buffer) }"
| "app_calls env (Update_Call now # calls) net server receive_buffer = do {
     (server, net) \<leftarrow> tachyon_update env now net server;
     app_calls env calls net server receive_buffer }"

definition receives :: "app_call list \<Rightarrow> nat" where
  "receives calls = length (filter (\<lambda>c. case c of Receive_Call _ \<Rightarrow> True | Update_Call _ \<Rightarrow> False) calls)"

lemma receives_simps [simp]:
  "receives [] = 0" "receives (Receive_Call now # calls) = Suc (receives calls)" "receives (Update_Call now # calls) = receives calls"
  by (simp_all add: receives_def)

lemma receives_replicate [simp]: "receives (replicate n (Receive_Call now)) = n"
  by (induction n) simp_all

lemma contiguous_le: "contiguous ks \<le> length ks"
  using length_takeWhile_le [of "\<lambda>j. j \<in> set ks" "[1..<Suc (length ks)]"] by (simp add: contiguous_def del: upt_Suc)

lemma length_deliverable: "length (deliverable ordered ks) \<le> length ks"
  using contiguous_le [of ks] length_remdups_leq [of "rev ks"] by (simp add: deliverable_def del: upt_Suc)

text \<open>No more messages than datagrams.\<close>

lemma count_map: "count (mset (map f xs)) y = length (filter (\<lambda>x. f x = y) xs)"
  by (induction xs) auto

lemma serving_count:
  assumes "serving t body ps ms"
  shows "length ms \<le> length ps"
proof -
  have "length (messages_of key ms) \<le> length (numbers key ps)" for key
  proof (cases "map_of (t_channels t) key")
    case None
    then show ?thesis using assms unfolding serving_def by (metis stream_state.simps(1) le_refl list.size(3))
  next
    case (Some c)
    obtain cfg out where cfg: "unat (cc_receive_window_size cfg) \<le> 1022"
      and run: "window_run (cc_is_ordered cfg) (cc_receive_window_size cfg) (stream_msg body key) (numbers key ps) (c_receiver c) out"
      and out: "messages_of key ms = map (stream_message key \<circ> drop 4) out"
      by (rule serving_stream [OF assms Some])
    have "length out \<le> length (deliverable (cc_is_ordered cfg) (numbers key ps))"
      using arg_cong [OF published_stream(1) [OF run cfg], of length] by simp
    then show ?thesis using out length_deliverable [of "cc_is_ordered cfg" "numbers key ps"] by simp
  qed
  then have "count (mset (map message_key ms)) key \<le> count (mset (map packet_key ps)) key" for key
    unfolding count_map by (simp add: messages_of_def numbers_def)
  then have "mset (map message_key ms) \<subseteq># mset (map packet_key ps)" by (simp add: subseteq_mset_def)
  then show ?thesis by (auto dest: size_mset_mono)
qed

lemma default_result: "result_of key b = trr_default \<Longrightarrow> 0 < length b \<Longrightarrow> length b < 1200 \<Longrightarrow> False"
  using u32_pos [of "length b"] by (simp add: result_of_def trr_default_def)

lemma serving_unpublished:
  assumes "serving t body ps ms"
  shows "unpublished t \<longleftrightarrow> (\<forall>key cfg. map_of (t_channel_config t) (snd key) = Some cfg \<longrightarrow>
    length (messages_of key ms) = length (deliverable (cc_is_ordered cfg) (numbers key ps)))" (is "_ \<longleftrightarrow> ?all")
proof -
  have none: "length (messages_of key ms) = length (deliverable ordered (numbers key ps))" if "map_of (t_channels t) key = None" for key ordered
  proof -
    have "stream_state body key (map_of (t_channels t) key) (map_of (t_channel_config t) (snd key)) (numbers key ps) (messages_of key ms)"
      using assms unfolding serving_def by blast
    then show ?thesis using that by (simp add: deliverable_def contiguous_def)
  qed
  have some: "r_published (c_receiver c) = [] \<longleftrightarrow> length (messages_of key ms) = length (deliverable (cc_is_ordered cfg) (numbers key ps))"
    if c: "map_of (t_channels t) key = Some c" and cfg: "map_of (t_channel_config t) (snd key) = Some cfg" for key c cfg
  proof -
    obtain out where win: "unat (cc_receive_window_size cfg) \<le> 1022"
      and run: "window_run (cc_is_ordered cfg) (cc_receive_window_size cfg) (stream_msg body key) (numbers key ps) (c_receiver c) out"
      and out: "messages_of key ms = map (stream_message key \<circ> drop 4) out"
      by (rule serving_stream [OF assms c]) (use cfg in auto)
    show ?thesis using arg_cong [OF published_stream(1) [OF run win], of length] out by auto
  qed
  show ?thesis
  proof
    assume "unpublished t"
    then show ?all using none some by (metis not_None_eq)
  next
    assume all: ?all
    show "unpublished t"
    proof (intro allI impI)
      fix key c assume c: "map_of (t_channels t) key = Some c"
      obtain cfg where "map_of (t_channel_config t) (snd key) = Some cfg" by (rule serving_stream [OF assms c])
      then show "r_published (c_receiver c) = []" using all some [OF c] by blast
    qed
  qed
qed

lemma unpublished_stays:
  assumes "serving t body ps ms" "serving t' body ps ms" "same_setup t t'" "unpublished t"
  shows "unpublished t'"
  using assms(3,4) serving_unpublished [OF assms(1)] serving_unpublished [OF assms(2)] by (simp add: same_setup_def del: split_paired_All)

lemma serving_calls:
  assumes "serving t body ps ms" "bodies_ok body" "ts_socket (t_socket t) = Some fd"
    "net_in net fd = map (datagram body) qs" "packets_ok t ps qs" "1200 \<le> length buf" "fair_env env"
    "2 * length qs + (length ps - length ms) < receives calls \<or> qs = [] \<and> unpublished t"
  shows "\<exists>ms' t' net' buf'. app_calls env calls net t buf = Some (ms', t', net', buf')
    \<and> same_setup t t' \<and> serving t' body (ps @ qs) (ms @ ms') \<and> unpublished t'
    \<and> net_in net' = (net_in net)(fd := []) \<and> wire net \<subseteq> wire net'"
  using assms
proof (induction calls arbitrary: net t buf ps ms qs)
  case Nil
  then show ?case by (auto simp: fun_upd_idem)
next
  case (Cons call calls)
  have ord: "\<forall>ks. set (e_channel_order env ks) = set ks" using Cons.prems(7) by (simp add: fair_env_def)
  show ?case
  proof (cases call)
    case (Update_Call now)
    obtain t1 net1 where u: "tachyon_update env now net t = Some (t1, net1)" "serving t1 body ps ms" "same_setup t t1"
      "wire net \<subseteq> wire net1" "net_in net1 = net_in net"
      using serving_update [OF Cons.prems(1,3,7)] by blast
    have "\<exists>ms' t' net' buf'. app_calls env calls net1 t1 buf = Some (ms', t', net', buf')
      \<and> same_setup t1 t' \<and> serving t' body (ps @ qs) (ms @ ms') \<and> unpublished t'
      \<and> net_in net' = (net_in net1)(fd := []) \<and> wire net1 \<subseteq> wire net'"
      using Cons.prems u unpublished_stays [OF Cons.prems(1) u(2,3)] Update_Call
      by (intro Cons.IH [OF u(2) Cons.prems(2) _ _ packets_ok_setup [OF u(3) Cons.prems(5)] Cons.prems(6,7)])
        (auto simp: same_setup_def simp del: split_paired_All)
    then obtain ms' t' net' buf' where r: "app_calls env calls net1 t1 buf = Some (ms', t', net', buf')"
      "same_setup t1 t'" "serving t' body (ps @ qs) (ms @ ms')" "unpublished t'"
      "net_in net' = (net_in net1)(fd := [])" "wire net1 \<subseteq> wire net'" by blast
    have "app_calls env (call # calls) net t buf = Some (ms', t', net', buf')" using Update_Call u(1) r(1) by simp
    moreover have "net_in net' = (net_in net)(fd := [])" "wire net \<subseteq> wire net'" using r(5,6) u(4,5) by auto
    ultimately show ?thesis using r(3,4) same_setup_trans [OF u(3) r(2)] by blast
  next
    case (Receive_Call now)
    obtain r t1 buf1 j where l: "receive_loop env now net t buf =
        Some (case r of Some res \<Rightarrow> res | None \<Rightarrow> trr_default, t1, taken_from net fd (map (datagram body) (drop j qs)), buf1)"
      "outcome t body (ps @ take j qs) ms buf r t1 buf1" "j \<le> length qs" "r = None \<longrightarrow> j = min 100 (length qs) \<and> unpublished t1"
      using serving_loop [OF Cons.prems(1-6) ord] by blast
    let ?net = "taken_from net fd (map (datagram body) (drop j qs))"
    have t1: "same_setup t t1" "length buf1 = length buf" using l(2) by (cases r; simp)+
    have pk: "packets_ok t1 (ps @ take j qs) (drop j qs)"
      using packets_ok_append [of t ps "take j qs" "drop j qs"] Cons.prems(5) packets_ok_setup [OF t1(1)] by simp
    have sock: "ts_socket (t_socket t1) = Some fd" using t1(1) Cons.prems(3) by (simp add: same_setup_def)
    have cont: "\<exists>ms' t' net' buf'. app_calls env calls ?net t1 buf1 = Some (ms', t', net', buf')
        \<and> same_setup t1 t' \<and> serving t' body ((ps @ take j qs) @ drop j qs) (ns @ ms') \<and> unpublished t'
        \<and> net_in net' = (net_in ?net)(fd := []) \<and> wire ?net \<subseteq> wire net'"
      if "serving t1 body (ps @ take j qs) ns"
        "2 * length (drop j qs) + (length (ps @ take j qs) - length ns) < receives calls \<or> drop j qs = [] \<and> unpublished t1" for ns
      using t1(2) Cons.prems(6) by (intro Cons.IH [OF that(1) Cons.prems(2) sock _ pk _ Cons.prems(7) that(2)]) simp_all
    show ?thesis
    proof (cases r)
      case None
      have s1: "serving t1 body (ps @ take j qs) ms" using l(2) None by simp
      have "2 * length (drop j qs) + (length (ps @ take j qs) - length ms) < receives calls \<or> drop j qs = [] \<and> unpublished t1"
        using Cons.prems(8) l(3,4) None Receive_Call serving_count [OF Cons.prems(1)] by (cases qs) auto
      from cont [OF s1 this] show ?thesis
        using l(1) None Receive_Call t1 same_setup_trans [OF t1(1)] by (auto simp: trr_default_def slice_def simp del: fun_upd_apply)
    next
      case (Some res)
      obtain key b where b: "res = result_of key b" "0 < length b" "length b < 1200" "take (length b) buf1 = b"
        "serving t1 body (ps @ take j qs) (ms @ [stream_message key b])"
        using l(2) Some by auto
      have "\<not> (qs = [] \<and> unpublished t)"
      proof
        assume "qs = [] \<and> unpublished t"
        then obtain t' where "receive_loop env now net t buf = Some (trr_default, t', net, buf)"
          using receive_idle(2) [OF Cons.prems(3), of net env now buf] Cons.prems(4) by auto
        then show False using l(1) Some b(1-3) default_result [of key b] by auto
      qed
      then have "2 * length (drop j qs) + (length (ps @ take j qs) - length (ms @ [stream_message key b])) < receives calls"
        using Cons.prems(8) l(3) Receive_Call serving_count [OF b(5)] by auto
      from cont [OF b(5) disjI1 [OF this]] show ?thesis
        using l(1) Some Receive_Call b(1-4) u32_small [OF b(3)] u32_pos [OF b(2,3)] t1 same_setup_trans [OF t1(1)] Cons.prems(6)
        by (auto simp: result_of_def slice_def stream_message_def simp del: fun_upd_apply)
    qed
  qed
qed

text \<open>A server that nobody has talked to.\<close>

lemma serving_start:
  assumes "t_inv t" "ts_is_server (t_socket t)" "tcf_drop_packet_chance (t_config t) = 0" "1204 \<le> length (t_socket_receive_buffer t)"
    "t_connections t = []" "t_channels t = []"
    "\<forall>cfg i. map_of (t_channel_config t) i = Some cfg \<longrightarrow> unat (cc_receive_window_size cfg) \<le> 1022"
  shows "serving t body [] []"
  using assms by (simp add: serving_def)

lemma sample_serving: "serving (sample_server 0) body [] []"
  by (rule serving_start) (auto simp: cc_default_ordered_def cc_default_unordered_def split: if_splits)

lemma delivered:
  assumes "serving t body ps ms" "unpublished t"
  shows "messages_of (a, i) ms = (case map_of (t_channel_config t) i of None \<Rightarrow> []
     | Some cfg \<Rightarrow> map (\<lambda>k. (ucast i, a, body (a, i) k)) (deliverable (cc_is_ordered cfg) (numbers (a, i) ps)))"
proof (cases "map_of (t_channels t) (a, i)")
  case None
  have "stream_state body (a, i) (map_of (t_channels t) (a, i)) (map_of (t_channel_config t) i) (numbers (a, i) ps) (messages_of (a, i) ms)"
    using assms(1) unfolding serving_def by (metis snd_conv)
  then show ?thesis using None by (simp add: deliverable_def contiguous_def split: option.split)
next
  case (Some c)
  obtain cfg out where cfg: "map_of (t_channel_config t) i = Some cfg" "unat (cc_receive_window_size cfg) \<le> 1022" "armed c"
    and run: "window_run (cc_is_ordered cfg) (cc_receive_window_size cfg) (stream_msg body (a, i)) (numbers (a, i) ps) (c_receiver c) out"
    and out: "messages_of (a, i) ms = map (stream_message (a, i) \<circ> drop 4) out"
    by (rule serving_stream [OF assms(1) Some]) simp
  have "out = map (stream_msg body (a, i)) (deliverable (cc_is_ordered cfg) (numbers (a, i) ps))"
    using published_stream(1) [OF run cfg(2)] assms(2) Some by auto
  then show ?thesis using cfg(1) out by (simp add: stream_message_def)
qed

subsection \<open>Properties\<close>

text \<open>
  C3. Every stream reaches the application of a server exactly once, and in order where its
  channel is ordered, whatever the others do: datagrams of any number of senders and
  channels wait at the socket, interleaved, reordered and repeated, each inside the window
  of its stream; then a number of calls of \<open>receive_loop\<close> that depends only on how many they
  are, with calls of \<open>update\<close> anywhere between them, empties the socket without a panic and
  returns, for every sender and channel, exactly
  the messages the arrivals make deliverable: of an ordered channel those up to the first
  gap, of an unordered one all, in order of arrival. Each comes with its sender, channel
  and body, nothing else is returned, and the server can go on in the same way.
\<close>

theorem streams_delivered:
  assumes "serving t body ps ms" "bodies_ok body" "ts_socket (t_socket t) = Some fd"
    "net_in net fd = map (datagram body) qs" "packets_ok t ps qs" "1200 \<le> length buf" "fair_env env"
    "2 * length qs + (length ps - length ms) < receives calls"
  shows "\<exists>ms' t' net' buf'. app_calls env calls net t buf = Some (ms', t', net', buf') \<and> net_in net' = (net_in net)(fd := [])
    \<and> serving t' body (ps @ qs) (ms @ ms')
    \<and> (\<forall>a i. messages_of (a, i) (ms @ ms') = (case map_of (t_channel_config t) i of None \<Rightarrow> []
         | Some cfg \<Rightarrow> map (\<lambda>k. (ucast i, a, body (a, i) k)) (deliverable (cc_is_ordered cfg) (numbers (a, i) (ps @ qs)))))"
proof -
  obtain ms' t' net' buf' where r: "app_calls env calls net t buf = Some (ms', t', net', buf')"
    "same_setup t t'" "serving t' body (ps @ qs) (ms @ ms')" "unpublished t'" "net_in net' = (net_in net)(fd := [])"
    using serving_calls [OF assms(1-7) disjI1 [OF assms(8)]] by blast
  have "t_channel_config t' = t_channel_config t" using r(2) by (simp add: same_setup_def)
  with r(1,3,5) delivered [OF r(3,4)] show ?thesis by auto
qed

lemma sample_codec: "varint_codec (e_vw sample_env) (e_vr sample_env)"
proof -
  have "e_vr sample_env w (e_vw sample_env v @ rest) = Some (v, length (e_vw sample_env v))" if "w \<le> 32" "v < 2 ^ w" for w v :: nat and rest
  proof -
    have "v < 2 ^ 32" using that by (meson less_le_trans one_le_numeral power_increasing)
    then show ?thesis by (simp add: sample_env_def unat_of_nat)
  qed
  then show ?thesis by (simp add: varint_codec_def) (simp add: sample_env_def)
qed

lemma sample_fair: "fair_env sample_env"
  using sample_codec by (simp add: fair_env_def sample_env_def os_ideal_def)

abbreviation second_peer :: socket_addr where
  "second_peer \<equiv> SocketV4 127 0 0 1 200"

theorem streams_delivered_witness:
  "\<exists>net ms t' net' buf'. app_calls sample_env (Update_Call 7 # replicate 11 (Receive_Call 7)) net (sample_server 0) (replicate 1200 0) = Some (ms, t', net', buf')
     \<and> messages_of (na_localhost 100, 1) ms = [(1, na_localhost 100, [1]), (1, na_localhost 100, [2])]
     \<and> messages_of (na_localhost 200, 2) ms = [(2, na_localhost 200, [3]), (2, na_localhost 200, [1])]"
proof -
  let ?body = "\<lambda>(key :: channel_key) k. [of_nat k :: u8]"
  let ?qs = "[(sample_peer, 1, 2), (second_peer, 2, 3), (sample_peer, 1, 1), (second_peer, 2, 1), (sample_peer, 1, 2)]"
  let ?net = "net_empty\<lparr>net_in := (\<lambda>_. map (datagram ?body) ?qs)\<rparr>"
  have key: "packet_key (sample_peer, i, k) = (na_localhost 100, i)" "packet_key (second_peer, i, k) = (na_localhost 200, i)" for i k
    by (simp_all add: packet_key_def na_localhost_def)
  have ne: "na_localhost 100 \<noteq> na_localhost 200" by (simp add: na_localhost_def)
  have ok: "packets_ok (sample_server 0) [] ?qs"
    using ne by (simp add: packet_ok_def key arrival_ok_def contiguous_def upt_rec cc_default_ordered_def cc_default_unordered_def)
  have "\<exists>ms' t' net' buf'. app_calls sample_env (Update_Call 7 # replicate 11 (Receive_Call 7)) ?net (sample_server 0) (replicate 1200 0) =
      Some (ms', t', net', buf') \<and> net_in net' = (net_in ?net)(0 := [])
    \<and> serving t' ?body ([] @ ?qs) ([] @ ms')
    \<and> (\<forall>a i. messages_of (a, i) ([] @ ms') = (case map_of (t_channel_config (sample_server 0)) i of None \<Rightarrow> []
         | Some cfg \<Rightarrow> map (\<lambda>k. (ucast i, a, ?body (a, i) k)) (deliverable (cc_is_ordered cfg) (numbers (a, i) ([] @ ?qs)))))"
    by (rule streams_delivered [OF sample_serving _ _ _ ok _ sample_fair])
      (simp_all add: bodies_ok_def)
  then obtain ms' t' net' buf' where r: "app_calls sample_env (Update_Call 7 # replicate 11 (Receive_Call 7)) ?net (sample_server 0) (replicate 1200 0) =
      Some (ms', t', net', buf')"
    "\<And>a i. messages_of (a, i) ms' = (case map_of (t_channel_config (sample_server 0)) i of None \<Rightarrow> []
         | Some cfg \<Rightarrow> map (\<lambda>k. (ucast i, a, ?body (a, i) k)) (deliverable (cc_is_ordered cfg) (numbers (a, i) ?qs)))"
    by auto
  have "messages_of (na_localhost 100, 1) ms' = [(1, na_localhost 100, [1]), (1, na_localhost 100, [2])]"
    "messages_of (na_localhost 200, 2) ms' = [(2, na_localhost 200, [3]), (2, na_localhost 200, [1])]"
    unfolding r(2) using ne by (simp_all add: key deliverable_def contiguous_def cc_is_ordered_def cc_default_ordered_def
        cc_default_unordered_def upt_rec)
  with r(1) show ?thesis by blast
qed

end
