(* ===== verification/Client_Sending.thy ===== *)
theory Client_Sending
  imports Server_Runs
begin

text \<open>
  A client that sends on a channel (\<^verbatim>\<open>src/src/tachyon.rs\<close>): what \<open>send_to_target\<close> puts on the wire
  and keeps, what \<open>receive_loop\<close> does with a nack, and how \<open>update\<close> answers it.
\<close>

subsection \<open>A channel on which nothing has arrived\<close>

lemma fresh_receiver:
  "create_nacks (receiver_create ordered W) = Some (0, receiver_create ordered W)"
  "next_nack red (receiver_create ordered W) = (None, receiver_create ordered W)"
  "r_published (receiver_create ordered W) = []"
  by (simp_all add: create_nacks_def receiver_create_def next_nack_def Let_def previous_sequence_def
      is_equal_to_or_less_than_def is_greater_then_def)

lemma fresh_publish: "publish (receiver_create ordered W) = Some (receiver_create ordered W)"
proof -
  let ?r = "receiver_create ordered W"
  have "is_received ?r 0 = Some False"
    using rel_is_received [OF receiver_create_refines, of 0 ordered W] by (simp add: w_init_def seq_of_def)
  moreover have "r_last_sequence ?r = 0" "r_current_sequence ?r = 0" "unat (r_receive_window_size ?r) = unat W"
    by (simp_all add: receiver_create_def)
  ultimately show ?thesis by (cases "unat W") (simp_all add: publish_def)
qed

definition fresh :: "channel \<Rightarrow> bool" where
  "fresh c \<longleftrightarrow> armed c \<and> (\<exists>ordered W. c_receiver c = receiver_create ordered W)"

lemma fresh_frame [simp]:
  "fresh (c\<lparr>c_stats := st\<rparr>) = fresh c" "fresh (c\<lparr>c_nacked_sequences := ss\<rparr>) = fresh c" "fresh (c\<lparr>c_nacked_sequence_map := m\<rparr>) = fresh c"
  by (simp_all add: fresh_def)

lemma fresh_update:
  assumes c: "fresh c" and s: "ts_socket s = Some fd" and env: "fair_env env"
  shows "\<exists>c'. channel_update (e_os env) (e_vw env) (e_nack_order env) c s net = Some (c', resends env fd c net)
    \<and> fresh c' \<and> same_key c c' \<and> c_nacked_sequence_map c' = [] \<and> c_send_buffers c' = c_send_buffers c"
proof -
  obtain ordered W where r: "c_receiver c = receiver_create ordered W" and arm: "armed c" using c by (auto simp: fresh_def)
  have "c\<lparr>c_receiver := receiver_create ordered W\<rparr> = c" by (metis r channel.surjective channel.update_convs(5))
  moreover have "r_nack_list (receiver_create ordered W) = []" by (simp add: receiver_create_def)
  ultimately have sn: "send_nacks (e_os env) (e_vw env) c s net = Some (c, net)"
    using fresh_receiver(1) [of ordered W] by (simp add: send_nacks_def r)
  have iter: "e_nack_order env [] = []" using env unfolding fair_env_def by (metis set_empty)
  obtain st where rn: "resend_nacked (e_os env) (e_nack_order env) c s net =
      Some (c\<lparr>c_stats := st, c_nacked_sequence_map := []\<rparr>, resends env fd c net)"
    using resend_nacked_ok [where iter = "e_nack_order env", OF _ s iter, of c "e_os env" net] arm by (auto simp: armed_def)
  let ?c = "c\<lparr>c_stats := st, c_nacked_sequence_map := [], c_receiver := receiver_create ordered W\<rparr>"
  have "channel_update (e_os env) (e_vw env) (e_nack_order env) c s net = Some (?c, resends env fd c net)"
    using sn rn fresh_publish by (simp add: channel_update_def r)
  moreover have "fresh ?c" using arm by (auto simp: fresh_def)
  ultimately show ?thesis by (intro exI [of _ ?c]) simp
qed

text \<open>An update of an endpoint whose channels are all like this answers every nack.\<close>

definition updated :: "channel_key list \<Rightarrow> channel_key \<Rightarrow> channel \<Rightarrow> channel \<Rightarrow> bool" where
  "updated keys key c c' \<longleftrightarrow> fresh c' \<and> same_key c c' \<and> c_send_buffers c' = c_send_buffers c
     \<and> c_nacked_sequence_map c' = (if key \<in> set keys then [] else c_nacked_sequence_map c)"

lemma update_channels_fresh:
  assumes "\<forall>key c. map_of chs key = Some c \<longrightarrow> fresh c" "ts_socket s = Some fd" "fair_env env"
  shows "\<exists>chs' net'. update_channels env s keys chs net = Some (chs', net') \<and> wire net \<subseteq> wire net' \<and> net_in net' = net_in net
    \<and> (\<forall>key. rel_option (updated keys key) (map_of chs key) (map_of chs' key))
    \<and> (\<forall>key \<in> set keys. \<forall>c q a. map_of chs key = Some c \<longrightarrow> (q, a) \<in> set (c_nacked_sequence_map c) \<longrightarrow>
         (fd, dest_of a, resend_bytes c q) \<in> wire net')"
  using assms
proof (induction keys arbitrary: chs net)
  case Nil
  have "rel_option (updated [] key) (map_of chs key) (map_of chs key)" for key
    using Nil.prems(1) by (cases "map_of chs key") (simp_all add: updated_def del: split_paired_All)
  then show ?case by simp
next
  case (Cons key keys)
  show ?case
  proof (cases "map_of chs key")
    case None
    obtain chs' net' where r: "update_channels env s keys chs net = Some (chs', net')" "wire net \<subseteq> wire net'" "net_in net' = net_in net"
      "\<forall>key. rel_option (updated keys key) (map_of chs key) (map_of chs' key)"
      "\<forall>key \<in> set keys. \<forall>c q a. map_of chs key = Some c \<longrightarrow> (q, a) \<in> set (c_nacked_sequence_map c) \<longrightarrow>
         (fd, dest_of a, resend_bytes c q) \<in> wire net'"
      using Cons.IH [OF Cons.prems, of net] by blast
    have "rel_option (updated (key # keys) k) (map_of chs k) (map_of chs' k)" for k
      using r(4) [rule_format, of k] None by (cases "k = key") (auto simp: updated_def elim!: option.rel_mono_strong)
    then show ?thesis using r None by (intro exI [of _ chs'] exI [of _ net']) simp
  next
    case (Some c)
    obtain c' where c': "channel_update (e_os env) (e_vw env) (e_nack_order env) c s net = Some (c', resends env fd c net)"
      "fresh c'" "same_key c c'" "c_nacked_sequence_map c' = []" "c_send_buffers c' = c_send_buffers c"
      using fresh_update [OF _ Cons.prems(2,3), of c net] Cons.prems(1) Some by blast
    let ?chs = "AList.update key c' chs" and ?net = "resends env fd c net"
    have fr: "\<forall>key c. map_of ?chs key = Some c \<longrightarrow> fresh c" using Cons.prems(1) c'(2) by (auto simp: update_conv')
    obtain chs' net' where r: "update_channels env s keys ?chs ?net = Some (chs', net')" "wire ?net \<subseteq> wire net'" "net_in net' = net_in ?net"
      "\<forall>key. rel_option (updated keys key) (map_of ?chs key) (map_of chs' key)"
      "\<forall>key \<in> set keys. \<forall>c q a. map_of ?chs key = Some c \<longrightarrow> (q, a) \<in> set (c_nacked_sequence_map c) \<longrightarrow>
         (fd, dest_of a, resend_bytes c q) \<in> wire net'"
      using Cons.IH [OF fr Cons.prems(2,3), of ?net] by blast
    have up: "rel_option (updated (key # keys) k) (map_of chs k) (map_of chs' k)" for k
    proof (cases "k = key")
      case True
      then obtain c2 where c2: "map_of chs' key = Some c2" "updated keys key c' c2"
        using r(4) [rule_format, of key] by (auto simp: update_conv' option_rel_Some1)
      then show ?thesis using True Some c' by (simp add: updated_def split: if_splits)
    next
      case False
      then show ?thesis using r(4) [rule_format, of k] by (auto simp: update_conv' updated_def elim!: option.rel_mono_strong)
    qed
    have first: "(fd, dest_of a, resend_bytes c q) \<in> wire net'" if "(q, a) \<in> set (c_nacked_sequence_map c)" for q a
    proof -
      have "(q, a) \<in> set (e_nack_order env (c_nacked_sequence_map c))" "\<And>net fd dest d. os_send (e_os env) net fd dest d"
        using that Cons.prems(3) by (simp_all add: fair_env_def)
      then have "(fd, dest_of a, resend_bytes c q) \<in> wire ?net" by (intro resends_on_wire)
      then show ?thesis using r(2) by blast
    qed
    have "\<forall>k \<in> set (key # keys). \<forall>x q a. map_of chs k = Some x \<longrightarrow> (q, a) \<in> set (c_nacked_sequence_map x) \<longrightarrow>
         (fd, dest_of a, resend_bytes x q) \<in> wire net'"
    proof (intro ballI allI impI)
      fix k x q a
      assume k: "k \<in> set (key # keys)" "map_of chs k = Some x" "(q, a) \<in> set (c_nacked_sequence_map x)"
      show "(fd, dest_of a, resend_bytes x q) \<in> wire net'"
        using k Some first r(5) by (cases "k = key") (auto simp: update_conv')
    qed
    moreover have "wire net \<subseteq> wire net'" "net_in net' = net_in net" using r(2,3) resends_wire resends_net_in by (blast, simp)
    ultimately show ?thesis using r(1) up c'(1) Some by auto
  qed
qed

subsection \<open>A client that sends\<close>

text \<open>
  The messages of a channel with numbers up to n have been sent to the connected peer, and
  the last 1022 of them are stored; nothing has arrived on any channel.
\<close>

definition sent_up_to :: "(nat \<Rightarrow> bytes) \<Rightarrow> nat \<Rightarrow> channel \<Rightarrow> bool" where
  "sent_up_to msg n c \<longleftrightarrow> sm_current_sequence (c_send_buffers c) = seq_of n
     \<and> (\<forall>k. 0 < k \<longrightarrow> k \<le> n \<longrightarrow> n \<le> k + 1022 \<longrightarrow> stored (c_send_buffers c) k (msg k))"

definition client_ok :: "tachyon \<Rightarrow> nat \<Rightarrow> u8 \<Rightarrow> (nat \<Rightarrow> bytes) \<Rightarrow> nat \<Rightarrow> bool" where
  "client_ok t fd ch body n \<longleftrightarrow> t_inv t \<and> \<not> ts_is_server (t_socket t) \<and> ts_socket (t_socket t) = Some fd
     \<and> (tcf_use_identity (t_config t) = 0 \<or> identity_is_linked (t_identity t)) \<and> tcf_drop_packet_chance (t_config t) = 0
     \<and> 1204 \<le> length (t_socket_receive_buffer t) \<and> ch \<noteq> 0
     \<and> (\<forall>key c. map_of (t_channels t) key = Some c \<longrightarrow> fresh c)
     \<and> (\<exists>c. map_of (t_channels t) (na_default, ch) = Some c \<and> sent_up_to (\<lambda>k. hdr_bytes 1 ch (seq_of k) @ body k) n c)"

definition sending :: "tachyon \<Rightarrow> nat \<Rightarrow> u8 \<Rightarrow> (nat \<Rightarrow> bytes) \<Rightarrow> nat \<Rightarrow> bool" where
  "sending t fd ch body n \<longleftrightarrow> client_ok t fd ch body n
     \<and> (\<forall>key c. map_of (t_channels t) key = Some c \<longrightarrow> c_nacked_sequence_map c = [])"

lemma connected [simp]: "dest_of na_default = Connected"
  by (simp add: dest_of_def na_default_def)

lemma send_one:
  assumes s: "sending t fd ch body n" and b: "body (Suc n) \<noteq> []" "length (body (Suc n)) < 1200"
    and data: "take len data = body (Suc n)" "len \<le> length data"
  shows "\<exists>r t'. send_to_target os now net t ch \<lparr>tgt_identity_id = 0, tgt_address = na_default\<rparr> data len =
       Some (r, t', sent os fd Connected (hdr_bytes 1 ch (seq_of (Suc n)) @ body (Suc n)) net)
    \<and> sres_error r = 0 \<and> sres_sent_len r = word_of_nat (sent_len os fd Connected (hdr_bytes 1 ch (seq_of (Suc n)) @ body (Suc n)) net)
    \<and> sending t' fd ch body (Suc n) \<and> (\<forall>ch' body' m. ch' \<noteq> ch \<longrightarrow> sending t fd ch' body' m \<longrightarrow> sending t' fd ch' body' m)"
proof -
  let ?msg = "\<lambda>k. hdr_bytes 1 ch (seq_of k) @ body k" and ?b = "body (Suc n)"
  have inv: "t_inv t" and fd: "ts_socket (t_socket t) = Some fd" and ch: "ch \<noteq> 0" and link: "can_send t"
    and all: "\<And>key c. map_of (t_channels t) key = Some c \<Longrightarrow> fresh c \<and> c_nacked_sequence_map c = []"
    using s unfolding sending_def client_ok_def can_send_def identity_is_linked_def by auto
  obtain c where c: "map_of (t_channels t) (na_default, ch) = Some c" "sent_up_to ?msg n c"
    using s unfolding sending_def client_ok_def by blast
  have id: "c_id c = ch" using t_wf_channel(4) [of t na_default ch c] inv c(1) by blast
  obtain ordered W where r: "c_receiver c = receiver_create ordered W" and arm: "armed c" using all [OF c(1)] by (auto simp: fresh_def)
  have wf: "sm_wf (c_send_buffers c)" and cur: "sm_current_sequence (c_send_buffers c) = seq_of n"
    using arm c(2) by (simp_all add: armed_def resendable_def sent_up_to_def)
  obtain res m st where m: "channel_send_reliable os now net c na_default data len (t_socket t) =
      Some (res, c\<lparr>c_receiver := c_receiver c, c_send_buffers := m, c_stats := st\<rparr>, sent os fd Connected (?msg (Suc n)) net)"
    "sres_error res = 0" "sm_wf m" "sm_current_sequence m = seq_of (Suc n)" "stored m (Suc n) (?msg (Suc n))"
    "\<And>k q. k \<le> n \<Longrightarrow> Suc n \<le> k + 1022 \<Longrightarrow> stored (c_send_buffers c) k q \<Longrightarrow> stored m k q"
    "\<And>i x. sb_cell (sm_buffers m) i = Some x \<Longrightarrow> sb_cell (sm_buffers (c_send_buffers c)) i = Some x
          \<or> (\<exists>rest. bb_data (sbuf_byte_buffer x) = 1 # rest)"
    "sres_sent_len res = word_of_nat (sent_len os fd Connected (?msg (Suc n)) net)"
    using channel_send_reliable_plain [OF wf cur fd, of "c_receiver c" len data os now net na_default] data
    unfolding r fresh_receiver(2) id by auto
  let ?c = "c\<lparr>c_receiver := c_receiver c, c_send_buffers := m, c_stats := st\<rparr>"
  let ?t = "t\<lparr>t_channels := AList.update (na_default, ch) ?c (t_channels t)\<rparr>"
  have "length (take len data) = len" using data(2) by simp
  then have len: "0 < len" "len < 1200" using b unfolding data(1) by auto
  have "resendable ?c" using arm m(3,7) by (fastforce simp: armed_def resendable_def)
  then have fr: "fresh ?c" using arm r by (auto simp: fresh_def armed_def)
  have "sent_up_to ?msg (Suc n) ?c"
    using m(4-6) c(2) by (auto simp: sent_up_to_def le_Suc_eq)
  moreover have t: "t_inv ?t" by (rule put_channel_inv [OF inv c(1)]) simp
  ultimately have "sending ?t fd ch body (Suc n)"
    using s fr all [OF c(1)] unfolding sending_def client_ok_def by (auto simp: update_conv' simp del: split_paired_All)
  moreover have "sending ?t fd ch' body' k" if "ch' \<noteq> ch" "sending t fd ch' body' k" for ch' body' k
    using that t fr all [OF c(1)] unfolding sending_def client_ok_def by (auto simp: update_conv' simp del: split_paired_All)
  moreover have "send_to_target os now net t ch \<lparr>tgt_identity_id = 0, tgt_address = na_default\<rparr> data len =
      Some (res, ?t, sent os fd Connected (?msg (Suc n)) net)"
    using m(1) link ch fd c(1) len by (simp add: send_to_target_def tachyon_send_reliable_def send_on_channel_def
        should_fragment_def word_neq_0_conv)
  ultimately show ?thesis using m(2,8) by blast
qed

text \<open>A client that has just been connected.\<close>

lemma connection_fresh:
  assumes "t_channels t = []" "map_of (t_channels (create_connection now t a idn)) key = Some c"
  shows "fresh c \<and> c_nacked_sequence_map c = []"
proof -
  have "\<exists>i a cfg. c = channel_create i a cfg"
    using assms(2) create_connection_maps(2) [of now t a idn "fst key" "snd key"] unfolding assms(1)
    by (cases "map_of (t_channel_config t) (snd key)") (auto split: if_splits)
  then obtain i a cfg where "c = channel_create i a cfg" by blast
  then show ?thesis using armed_create [of i a cfg] by (auto simp: fresh_def channel_create_def)
qed

lemma sending_start:
  fixes now :: nat
  assumes t0: "t_inv t0" "t_channels t0 = []" "\<not> ts_is_server (t_socket t0)" "ts_socket (t_socket t0) = Some fd"
    "tcf_use_identity (t_config t0) = 0" "tcf_drop_packet_chance (t_config t0) = 0" "1204 \<le> length (t_socket_receive_buffer t0)"
    and ch: "ch \<noteq> 0" "map_of (t_channel_config t0) ch = Some cfg"
  shows "sending (create_connection now t0 na_default identity_default) fd ch body 0"
proof -
  let ?t = "create_connection now t0 na_default identity_default"
  have chs: "map_of (t_channels ?t) (b, j) =
      (if b = na_default then map_option (channel_create j b) (map_of (t_channel_config t0) j) else None)" for b j
    by (simp add: create_connection_maps(2) t0(2))
  note all = connection_fresh [OF t0(2), of now na_default identity_default]
  have "sent_up_to (\<lambda>k. hdr_bytes 1 ch (seq_of k) @ body k) 0 (channel_create ch na_default cfg)"
    by (simp add: sent_up_to_def channel_create_def sm_default_def seq_of_def)
  moreover have "t_inv ?t" using t0(1) by (simp add: create_connection_wf create_connection_links identity_default_def)
  ultimately show ?thesis
    using t0 ch all chs [of na_default ch] unfolding sending_def client_ok_def by (auto simp del: split_paired_All)
qed

text \<open>The application sends one message after the other.\<close>

fun send_calls :: "os \<Rightarrow> nat \<Rightarrow> u8 \<Rightarrow> bytes list \<Rightarrow> network \<Rightarrow> tachyon \<Rightarrow> (send_result list \<times> tachyon \<times> network) option" where
  "send_calls os now ch [] net self = Some ([], self, net)"
| "send_calls os now ch (b # bs) net self = do {
     (r, self, net) \<leftarrow> send_to_target os now net self ch \<lparr>tgt_identity_id = 0, tgt_address = na_default\<rparr> b (length b);
     (rs, self, net) \<leftarrow> send_calls os now ch bs net self;
     Some (r # rs, self, net) }"

lemma send_many:
  assumes "sending t fd ch body n" "\<forall>k. body k \<noteq> [] \<and> length (body k) < 1200"
  shows "\<exists>rs t'. send_calls os now ch (map body [Suc n..<Suc n + m]) net t =
       Some (rs, t', fold (\<lambda>k. sent os fd Connected (hdr_bytes 1 ch (seq_of k) @ body k)) [Suc n..<Suc n + m] net)
    \<and> (\<forall>r \<in> set rs. sres_error r = 0) \<and> sending t' fd ch body (n + m)"
  using assms(1)
proof (induction m arbitrary: n t net)
  case (Suc m)
  let ?net = "sent os fd Connected (hdr_bytes 1 ch (seq_of (Suc n)) @ body (Suc n)) net"
  obtain r t1 where one: "send_to_target os now net t ch \<lparr>tgt_identity_id = 0, tgt_address = na_default\<rparr> (body (Suc n)) (length (body (Suc n))) =
      Some (r, t1, ?net)" "sres_error r = 0" "sending t1 fd ch body (Suc n)"
    using send_one [OF Suc.prems, of "length (body (Suc n))" "body (Suc n)" os now net] assms(2) by auto
  obtain rs t' where rest: "send_calls os now ch (map body [Suc (Suc n)..<Suc (Suc n) + m]) ?net t1 =
       Some (rs, t', fold (\<lambda>k. sent os fd Connected (hdr_bytes 1 ch (seq_of k) @ body k)) [Suc (Suc n)..<Suc (Suc n) + m] ?net)"
    "\<forall>r \<in> set rs. sres_error r = 0" "sending t' fd ch body (Suc n + m)"
    using Suc.IH [OF one(3), of ?net] by blast
  have split: "[Suc n..<Suc n + Suc m] = Suc n # [Suc (Suc n)..<Suc (Suc n) + m]"
    using upt_conv_Cons [of "Suc n" "Suc n + Suc m"] by simp
  show ?case unfolding split using one rest by (simp del: upt_Suc)
qed simp

subsection \<open>Hearing of a loss and answering\<close>

lemma process_nack_frame:
  "process_nack_message vr c a buf = Some c' \<Longrightarrow> fresh c' = fresh c \<and> same_key c c' \<and> c_send_buffers c' = c_send_buffers c
     \<and> c_receiver c' = c_receiver c"
  by (auto simp: process_nack_message_def copy_nacked_to_map_def elim!: bind_SomeE)

lemma channel_receive_nack:
  assumes codec: "varint_codec (e_vw env) (e_vr env)" and ns: "length ns \<le> 31"
    and tk: "take (length (nack_packet (e_vw env) ch ns)) buf = nack_packet (e_vw env) ch ns" and h: "h_message_type h = 4"
  shows "\<exists>c'. channel_receive env now c h a buf n = Some (RR_Retry, c') \<and> fresh c' = fresh c \<and> same_key c c'
    \<and> c_send_buffers c' = c_send_buffers c \<and> c_receiver c' = c_receiver c \<and> (\<forall>q \<in> requested ns. (q, a) \<in> set (c_nacked_sequence_map c'))"
proof -
  let ?c = "c\<lparr>c_stats := (c_stats c)\<lparr>cs_bytes_received := cs_bytes_received (c_stats c) + word_of_nat n\<rparr>\<rparr>"
  have "length ns < 65536" using ns by simp
  then obtain c' where c': "process_nack_message (e_vr env) ?c a buf = Some c'"
    "\<forall>q. map_of (c_nacked_sequence_map c') q = (if q \<in> requested ns then Some a else map_of (c_nacked_sequence_map ?c) q)"
    using process_nack_message_ok [OF codec _ tk, of ?c a] by blast
  have "(q, a) \<in> set (c_nacked_sequence_map c')" if "q \<in> requested ns" for q
    using c'(2) that by (auto intro: map_of_SomeD)
  then show ?thesis using c'(1) h process_nack_frame [OF c'(1)] by (simp add: channel_receive_def)
qed

lemma nack_heard:
  assumes s: "sending t fd ch body n" and env: "fair_env env" and ns: "length ns \<le> 31"
    and q: "net_in net fd = [Some (src, nack_packet (e_vw env) ch ns)]"
  shows "\<exists>t' c. receive_loop env now net t buf = Some (trr_default, t', taken_from net fd [], buf) \<and> client_ok t' fd ch body n
    \<and> map_of (t_channels t') (na_default, ch) = Some c \<and> (\<forall>q \<in> requested ns. (q, na_default) \<in> set (c_nacked_sequence_map c))"
proof -
  let ?p = "nack_packet (e_vw env) ch ns"
  let ?buf = "overwrite (t_socket_receive_buffer t) 0 ?p"
  let ?h = "header_default\<lparr>h_message_type := 4, h_channel := ch, h_sequence := 0\<rparr>"
  have ok: "client_ok t fd ch body n" using s by (simp add: sending_def)
  then have inv: "t_inv t" and srv: "\<not> ts_is_server (t_socket t)" and fd: "ts_socket (t_socket t) = Some fd"
    and link: "tcf_use_identity (t_config t) = 0 \<or> identity_is_linked (t_identity t)"
    and all: "\<And>key c. map_of (t_channels t) key = Some c \<Longrightarrow> fresh c"
    unfolding client_ok_def by blast+
  obtain c where c: "map_of (t_channels t) (na_default, ch) = Some c" "sent_up_to (\<lambda>k. hdr_bytes 1 ch (seq_of k) @ body k) n c"
    using ok unfolding client_ok_def by blast
  have codec: "varint_codec (e_vw env) (e_vr env)" using env by (simp add: fair_env_def)
  have len: "length ?p \<le> 1204" using nack_list_vbytes_length [OF codec, of ns] ns by (simp add: nack_packet_def)
  have r: "receiving t net fd src ?p []" using ok q len by (simp add: receiving_def client_ok_def)
  have h: "header_read ?buf = Some ?h" by (simp add: nack_packet_def overwrite_def header_read_prefix)
  have tk: "take (length ?p) ?buf = ?p" by (simp add: overwrite_def)
  obtain c' where c': "channel_receive env now c ?h na_default ?buf (length ?p) = Some (RR_Retry, c')" "fresh c'" "same_key c c'"
    "c_send_buffers c' = c_send_buffers c" "c_receiver c' = c_receiver c" "\<forall>q \<in> requested ns. (q, na_default) \<in> set (c_nacked_sequence_map c')"
    using channel_receive_nack [OF codec ns tk, of ?h now c na_default "length ?p"] all [OF c(1)] by auto
  let ?t1 = "t\<lparr>t_socket_receive_buffer := ?buf, t_channels := AList.update (na_default, ch) c' (t_channels t)\<rparr>"
  let ?net = "taken_from net fd []"
  have "receive_gate env now net t = Some (Inr (?h, na_default, length ?p), filled t ?p, ?net)"
    using receiving_ts [OF r] h srv link by (auto simp: receive_gate_def Let_def)
  then have round: "receive_round env now net t buf = Some (Inr True, ?t1, ?net, buf)"
    using c(1) c'(1) by (simp add: receive_round_def receive_from_socket_def)
  have fr1: "fresh x" if "map_of (t_channels ?t1) key = Some x" for key x
    using that all c'(2) by (auto simp: update_conv' split: if_splits)
  have un: "unpublished ?t1"
  proof (intro allI impI)
    fix key x assume "map_of (t_channels ?t1) key = Some x"
    then show "r_published (c_receiver x) = []" using fr1 fresh_receiver(3) by (fastforce simp: fresh_def)
  qed
  obtain chs where chs: "receive_published_keys (e_channel_order env (map fst (t_channels ?t1))) ?t1 buf =
      Some (trr_default, ?t1\<lparr>t_channels := chs\<rparr>, buf)" "map_of chs = map_of (t_channels ?t1)"
    using receive_published_keys_none [OF un] by blast
  let ?t2 = "?t1\<lparr>t_channels := chs\<rparr>"
  have idle: "receive_round env now ?net ?t1 buf = Some (Inr False, ?t1, ?net, buf)"
    by (rule receive_idle(1) [where fd = fd, OF _ _ un]) (use fd in simp_all)
  have "receive_rounds (Suc (Suc 98)) env now net t buf = Some (None, ?t1, ?net, buf)"
    using round idle by (simp only: receive_rounds.simps) simp
  then have loop: "receive_loop env now net t buf = Some (trr_default, ?t2, ?net, buf)"
    using chs(1) by (simp add: receive_loop_def receive_published_all_channels_def)
  have "client_ok ?t2 fd ch body n"
  proof -
    have "t_inv ?t2" by (rule receive_loop_inv [OF inv loop])
    moreover have "length ?buf = length (t_socket_receive_buffer t)" using r by (simp add: receiving_def)
    moreover have "sent_up_to (\<lambda>k. hdr_bytes 1 ch (seq_of k) @ body k) n c'" using c(2) c'(4) by (simp add: sent_up_to_def)
    ultimately show ?thesis using ok fr1 chs(2) unfolding client_ok_def by (simp add: update_conv' del: split_paired_All)
  qed
  moreover have "map_of (t_channels ?t2) (na_default, ch) = Some c'" using chs(2) by (simp add: update_conv')
  ultimately show ?thesis using loop c'(6) by blast
qed

lemma resend_stored: "resendable c \<Longrightarrow> stored (c_send_buffers c) k p \<Longrightarrow> resend_bytes c (seq_of k) = p"
  by (auto simp: resend_bytes_def stored_def resendable_def get_send_buffer_eq)

lemma client_answers:
  assumes ok: "client_ok t fd ch body n" and env: "fair_env env" and c: "map_of (t_channels t) (na_default, ch) = Some c"
  shows "\<exists>t' net'. tachyon_update env now net t = Some (t', net') \<and> sending t' fd ch body n \<and> wire net \<subseteq> wire net'
    \<and> (\<forall>k. (seq_of k, na_default) \<in> set (c_nacked_sequence_map c) \<longrightarrow> 0 < k \<longrightarrow> k \<le> n \<longrightarrow> n \<le> k + 1022 \<longrightarrow>
         (fd, Connected, hdr_bytes 1 ch (seq_of k) @ body k) \<in> wire net')"
proof -
  let ?msg = "\<lambda>k. hdr_bytes 1 ch (seq_of k) @ body k" and ?keys = "e_channel_order env (map fst (t_channels t))"
  have inv: "t_inv t" and fd: "ts_socket (t_socket t) = Some fd" and srv: "\<not> ts_is_server (t_socket t)"
    and link: "tcf_use_identity (t_config t) = 0 \<or> identity_is_linked (t_identity t)"
    and all: "\<forall>key c. map_of (t_channels t) key = Some c \<longrightarrow> fresh c" and up: "sent_up_to ?msg n c"
    using ok c unfolding client_ok_def by auto
  have id: "client_identity_update (e_os env) now net t = Some (t, net)"
    using link srv fd by (auto simp: client_identity_update_def)
  obtain chs net' where r: "update_channels env (t_socket t) ?keys (t_channels t) net = Some (chs, net')" "wire net \<subseteq> wire net'"
    "\<And>key. rel_option (updated ?keys key) (map_of (t_channels t) key) (map_of chs key)"
    "\<And>key c q a. key \<in> set ?keys \<Longrightarrow> map_of (t_channels t) key = Some c \<Longrightarrow> (q, a) \<in> set (c_nacked_sequence_map c) \<Longrightarrow>
         (fd, dest_of a, resend_bytes c q) \<in> wire net'"
    using update_channels_fresh [OF all fd env, of ?keys net] by metis
  have mem: "key \<in> set ?keys" if "map_of (t_channels t) key = Some x" for key x
  proof -
    have "set ?keys = set (map fst (t_channels t))" using env by (simp add: fair_env_def)
    then show ?thesis using that by (auto dest: map_of_SomeD intro: rev_image_eqI)
  qed
  let ?t = "t\<lparr>t_channels := chs\<rparr>"
  have u: "tachyon_update env now net t = Some (?t, net')" using id r(1) by (simp add: tachyon_update_def)
  have step: "\<exists>x. map_of (t_channels t) key = Some x \<and> updated ?keys key x x'" if "map_of chs key = Some x'" for key x'
    using r(3) [of key] that by (auto simp: option_rel_Some2)
  obtain c' where c': "map_of chs (na_default, ch) = Some c'" "updated ?keys (na_default, ch) c c'"
    using r(3) [of "(na_default, ch)"] c by (auto simp: option_rel_Some1)
  have "sending ?t fd ch body n"
  proof -
    have "t_inv ?t" by (rule update_inv [OF inv u])
    moreover have "sent_up_to ?msg n c'" using up c'(2) by (simp add: sent_up_to_def updated_def)
    moreover have "fresh x' \<and> c_nacked_sequence_map x' = []" if "map_of chs key = Some x'" for key x'
      using step [OF that] mem [of key] by (auto simp: updated_def)
    ultimately show ?thesis using ok c'(1) unfolding sending_def client_ok_def by (simp del: split_paired_All)
  qed
  moreover have "(fd, Connected, ?msg k) \<in> wire net'"
    if "(seq_of k, na_default) \<in> set (c_nacked_sequence_map c)" "0 < k" "k \<le> n" "n \<le> k + 1022" for k
  proof -
    have "resend_bytes c (seq_of k) = ?msg k"
      using up that(2-4) all c by (intro resend_stored) (auto simp: sent_up_to_def fresh_def armed_def)
    then show ?thesis using r(4) [OF mem [OF c] c that(1)] by simp
  qed
  ultimately show ?thesis using u r(2) by blast
qed

end
