(* ===== verification/End_To_End.thy ===== *)
theory End_To_End
  imports Client_Sending
begin

text \<open>
  Two endpoints and the network between them, over the calls of the applications only
  (\<^verbatim>\<open>src/src/tachyon.rs\<close>): a client sends, datagrams are lost, reordered and repeated, the
  server's application gets what can be delivered, its \<open>update\<close> asks for the rest, the client
  hears of it in \<open>receive_loop\<close>, and its \<open>update\<close> sends it again.
\<close>

subsection \<open>Filling the gaps\<close>

lemma contiguousI: "(\<And>j. 0 < j \<Longrightarrow> j \<le> m \<Longrightarrow> j \<in> set ks) \<Longrightarrow> Suc m \<notin> set ks \<Longrightarrow> contiguous ks = m"
  using contiguous_reaches [of ks] unfolding reaches_def
  by (metis Suc_leI le_neq_implies_less linorder_le_less_linear zero_less_Suc)

lemma contiguous_in: "0 < j \<Longrightarrow> j \<le> contiguous ks \<Longrightarrow> j \<in> set ks"
  using contiguous_reaches [of ks] by (simp add: reaches_def)

lemma contiguous_mono: "set ks \<subseteq> set ks' \<Longrightarrow> contiguous ks \<le> contiguous ks'"
  using contiguous_in [of "Suc (contiguous ks')" ks] contiguous_reaches [of ks'] by (fastforce simp: reaches_def not_le Suc_le_eq)

lemma contiguous_newest: "contiguous ks \<le> newest ks"
  using reaches_le [OF contiguous_reaches [of ks], of "newest ks"] newest_le [of _ ks] by simp

lemma newest_append: "newest (ks @ js) = max (newest ks) (newest js)"
proof (induction js rule: rev_induct)
  case (snoc x js)
  then show ?case using newest_snoc(2) [of "ks @ js" x] by (simp add: max.assoc)
qed simp

lemma newest_bound: "\<forall>k \<in> set js. k \<le> m \<Longrightarrow> newest js \<le> m"
  by (induction js rule: rev_induct) simp_all

lemma filled_contiguous:
  assumes "set js = {k. contiguous ks < k \<and> k < newest ks \<and> k \<notin> set ks}" "ks \<noteq> []"
  shows "contiguous (ks @ js) = newest ks"
proof (rule contiguousI)
  have top: "newest ks \<in> set ks \<or> newest ks = 0" by (induction ks rule: rev_induct) (auto simp: max_def)
  show "j \<in> set (ks @ js)" if j: "0 < j" "j \<le> newest ks" for j
  proof (cases "j \<le> contiguous ks \<or> j = newest ks")
    case True
    then show ?thesis using j top contiguous_in [of j ks] by auto
  next
    case False
    then have "j \<in> set ks \<or> j \<in> {k. contiguous ks < k \<and> k < newest ks \<and> k \<notin> set ks}" using j by auto
    then show ?thesis using assms(1) by simp
  qed
  have "Suc (newest ks) \<notin> set ks" using newest_le [of "Suc (newest ks)" ks] by auto
  moreover have "Suc (newest ks) \<notin> set js" unfolding assms(1) by simp
  ultimately show "Suc (newest ks) \<notin> set (ks @ js)" by simp
qed

lemma gap_packets_ok:
  assumes "set js \<subseteq> {k. contiguous ks < k \<and> k < newest ks}" "newest ks < contiguous ks + unat W" "unat W \<le> 1022"
    "map_of (t_channel_config t) ch = Some cfg" "W = cc_receive_window_size cfg" "numbers (from_socket_addr src, ch) ps = ks"
    "tcf_use_identity (t_config t) = 1 \<longrightarrow> id_id (get_connection_identity t (from_socket_addr src)) \<noteq> 0"
  shows "packets_ok t ps (map (\<lambda>k. (src, ch, k)) js)"
proof -
  have nums: "numbers (from_socket_addr src, ch) (map (\<lambda>k. (src, ch, k)) is) = is" for "is"
    by (induction "is") (simp_all add: packet_key_def)
  have "packets_ok t (ps @ map (\<lambda>k. (src, ch, k)) is) (map (\<lambda>k. (src, ch, k)) js)" if "set (is @ js) \<subseteq> {k. contiguous ks < k \<and> k < newest ks}" for "is"
    using that
  proof (induction js arbitrary: "is")
    case (Cons k js)
    have "newest is \<le> newest ks" using Cons.prems by (intro newest_bound) auto
    then have "contiguous (ks @ is) \<le> newest ks" using contiguous_newest [of "ks @ is"] by (simp add: newest_append)
    moreover have "contiguous ks \<le> contiguous (ks @ is)" by (rule contiguous_mono) simp
    ultimately have "arrival_ok W (ks @ is) k" using Cons.prems assms(2,3) by (simp add: arrival_ok_def)
    then have "packet_ok t (ps @ map (\<lambda>k. (src, ch, k)) is) (src, ch, k)"
      using assms(4-7) nums [of "is"] by (simp add: packet_ok_def packet_key_def)
    then show ?case using Cons.IH [of "is @ [k]"] Cons.prems by simp
  qed simp
  from this [of "[]"] assms(1) show ?thesis by simp
qed

definition gaps :: "nat list \<Rightarrow> nat set" where
  "gaps ks = {k. contiguous ks < k \<and> k < newest ks \<and> k \<notin> set ks}"

lemma serving_channel:
  assumes "serving t body ps ms" "numbers key ps \<noteq> []"
  shows "\<exists>c. map_of (t_channels t) key = Some c"
proof -
  have "stream_state body key (map_of (t_channels t) key) (map_of (t_channel_config t) (snd key)) (numbers key ps) (messages_of key ms)"
    using assms(1) unfolding serving_def by blast
  then show ?thesis using assms(2) by (cases "map_of (t_channels t) key") simp_all
qed

lemma serving_newest:
  assumes s: "serving t body ps ms" and cfg: "map_of (t_channel_config t) (snd key) = Some cfg" and ne: "numbers key ps \<noteq> []"
  shows "newest (numbers key ps) < contiguous (numbers key ps) + unat (cc_receive_window_size cfg) \<and> unat (cc_receive_window_size cfg) \<le> 1022"
proof -
  obtain c where c: "map_of (t_channels t) key = Some c" using serving_channel [OF s ne] by blast
  obtain out where win: "unat (cc_receive_window_size cfg) \<le> 1022"
    and run: "window_run (cc_is_ordered cfg) (cc_receive_window_size cfg) (stream_msg body key) (numbers key ps) (c_receiver c) out"
    by (rule serving_stream [OF s c]) (use cfg in auto)
  from window_run_inv [OF run win] ne win show ?thesis by auto
qed

lemma fold_sent:
  assumes "\<forall>net fd dest d. os_send os net fd dest d"
  shows "net_out (fold (\<lambda>k. sent os fd dest (f k)) ks net) = net_out net @ map (\<lambda>k. (fd, dest, f k)) ks"
    and "net_in (fold (\<lambda>k. sent os fd dest (f k)) ks net) = net_in net"
  using assms by (induction ks arbitrary: net) (simp_all add: net_out_sent)

lemma numbers_stream: "numbers key (map (\<lambda>k. (src, ch, k)) ks) = (if key = (from_socket_addr src, ch) then ks else [])"
  by (induction ks) (auto simp: packet_key_def)

text \<open>A server that hears of one stream only.\<close>

lemma single_stream:
  assumes server: "serving t body [] []" "ts_socket (t_socket t) = Some sfd" and env: "fair_env env" and body: "bodies_ok body"
    and key: "key = (from_socket_addr src, ch)" and ch: "map_of (t_channel_config t) ch = Some cfg" and buf: "1200 \<le> length buf"
    and ks: "packets_ok t [] (map (\<lambda>k. (src, ch, k)) ks)" and calls: "2 * length ks < receives calls"
    and q: "net_in snet sfd = map (\<lambda>k. Some (src, stream_msg body key k)) ks"
  shows "\<exists>ms t' snet' buf'. app_calls env calls snet t buf = Some (ms, t', snet', buf') \<and> net_in snet' sfd = []
    \<and> ms = map (\<lambda>k. (ucast ch, fst key, body key k)) (deliverable (cc_is_ordered cfg) ks)"
proof -
  let ?ps = "map (\<lambda>k. (src, ch, k)) ks"
  have "net_in snet sfd = map (datagram body) ?ps" using q by (simp add: datagram_def packet_key_def key)
  then obtain ms t' snet' buf' where r: "app_calls env calls snet t buf = Some (ms, t', snet', buf')" "same_setup t t'"
    "serving t' body ?ps ms" "unpublished t'" "net_in snet' = (net_in snet)(sfd := [])"
    using serving_calls [OF server(1) body server(2) _ ks buf env, of snet calls] calls by auto
  have cfgs: "t_channel_config t' = t_channel_config t" using r(2) by (simp add: same_setup_def)
  have "messages_of key ms = map (\<lambda>k. (ucast ch, fst key, body key k)) (deliverable (cc_is_ordered cfg) ks)"
    using delivered [OF r(3,4), of "fst key" ch] ch cfgs by (simp add: key numbers_stream)
  moreover have "message_key m = key" if "m \<in> set ms" for m
  proof (rule ccontr)
    assume other: "message_key m \<noteq> key"
    have "messages_of (message_key m) ms = []"
      using delivered [OF r(3,4), of "fst (message_key m)" "snd (message_key m)"] other
      by (simp add: key numbers_stream deliverable_def contiguous_def split: option.splits)
    then show False using that by (auto simp: messages_of_def filter_empty_conv)
  qed
  then have "messages_of key ms = ms" by (simp add: messages_of_def)
  ultimately show ?thesis using r(1,5) by auto
qed

text \<open>The client takes in a nack and answers it.\<close>

lemma gaps_answered:
  assumes client: "sending u cfd ch body n" and env: "fair_env env" and ns: "length ns \<le> 31"
    and gap: "\<forall>k \<in> G. seq_of k \<in> requested ns \<and> 0 < k \<and> k \<le> n \<and> n \<le> k + 1022"
    and q: "net_in cnet cfd = [Some (addr, nack_packet (e_vw env) ch ns)]"
  shows "\<exists>u1 cnet1 u2 cnet2. receive_loop env now1 cnet u cbuf = Some (trr_default, u1, cnet1, cbuf)
    \<and> tachyon_update env now2 cnet1 u1 = Some (u2, cnet2) \<and> sending u2 cfd ch body n
    \<and> (\<forall>k \<in> G. (cfd, Connected, hdr_bytes 1 ch (seq_of k) @ body k) \<in> wire cnet2)"
proof -
  obtain u1 c1 where u1: "receive_loop env now1 cnet u cbuf = Some (trr_default, u1, taken_from cnet cfd [], cbuf)"
    "client_ok u1 cfd ch body n" "map_of (t_channels u1) (na_default, ch) = Some c1"
    "\<forall>q \<in> requested ns. (q, na_default) \<in> set (c_nacked_sequence_map c1)"
    using nack_heard [OF client env ns q, of now1 cbuf] by blast
  obtain u2 cnet2 where u2: "tachyon_update env now2 (taken_from cnet cfd []) u1 = Some (u2, cnet2)" "sending u2 cfd ch body n"
    "\<forall>k. (seq_of k, na_default) \<in> set (c_nacked_sequence_map c1) \<longrightarrow> 0 < k \<longrightarrow> k \<le> n \<longrightarrow> n \<le> k + 1022 \<longrightarrow>
       (cfd, Connected, hdr_bytes 1 ch (seq_of k) @ body k) \<in> wire cnet2"
    using client_answers [OF u1(2) env u1(3), of now2 "taken_from cnet cfd []"] by blast
  then show ?thesis using u1(1,4) gap by blast
qed

text \<open>The server gets what was missing.\<close>

lemma gaps_filled:
  assumes server: "serving t body ps ms" "ts_socket (t_socket t) = Some sfd" and key: "key = (from_socket_addr src, ch)"
    and ch: "map_of (t_channel_config t) ch = Some cfg" "cc_is_ordered cfg"
    and link: "tcf_use_identity (t_config t) = 1 \<longrightarrow> id_id (get_connection_identity t (fst key)) \<noteq> 0"
    and env: "fair_env env" and body: "bodies_ok body" and js: "set js = gaps (numbers key ps)" and ne: "numbers key ps \<noteq> []"
    and q: "net_in snet sfd = map (\<lambda>k. Some (src, stream_msg body key k)) js" and buf: "1200 \<le> length buf"
    and n: "2 * length js + (length ps - length ms) < receives calls"
  shows "\<exists>ms' t' snet' buf'. app_calls env calls snet t buf = Some (ms', t', snet', buf')
    \<and> messages_of key (ms @ ms') = map (\<lambda>k. (ucast ch, fst key, body key k)) [1..<Suc (newest (numbers key ps))]"
proof -
  let ?ks = "numbers key ps" and ?W = "cc_receive_window_size cfg" and ?ps = "map (\<lambda>k. (src, ch, k)) js"
  have cfg: "map_of (t_channel_config t) (snd key) = Some cfg" using ch(1) by (simp add: key)
  have ok: "packets_ok t ps ?ps"
    using serving_newest [OF server(1) cfg ne] js ch(1) link
    by (intro gap_packets_ok [where ks = ?ks and W = ?W and cfg = cfg]) (auto simp: gaps_def key)
  have "net_in snet sfd = map (datagram body) ?ps" using q by (simp add: datagram_def packet_key_def key)
  then obtain ms' t' snet' buf' where r: "app_calls env calls snet t buf = Some (ms', t', snet', buf')" "same_setup t t'"
    "serving t' body (ps @ ?ps) (ms @ ms')" "unpublished t'"
    using serving_calls [OF server(1) body server(2) _ ok buf env, of snet calls] n by auto
  have "contiguous (?ks @ js) = newest ?ks" by (rule filled_contiguous [OF _ ne]) (simp add: js gaps_def)
  moreover have "t_channel_config t' = t_channel_config t" using r(2) by (simp add: same_setup_def)
  ultimately have "messages_of key (ms @ ms') = map (\<lambda>k. (ucast ch, fst key, body key k)) [1..<Suc (newest ?ks)]"
    using delivered [OF r(3,4), of "fst key" "snd key"] ch by (simp add: key numbers_stream deliverable_def del: upt_Suc)
  with r(1) show ?thesis by blast
qed

subsection \<open>Properties\<close>

text \<open>
  C1. From application to application over a lossy network: a client sends n messages on a
  channel with \<open>send_to_target\<close>, each succeeds and puts exactly one datagram on the wire;
  whatever selection of these datagrams, in whatever order and with whatever repetitions
  inside the window, then waits at the server's socket, enough calls of \<open>receive_loop\<close>, with
  calls of \<open>update\<close> anywhere, hand the server's application exactly the messages that this
  selection makes deliverable, byte for byte, with the client's address and the channel.
\<close>

theorem end_to_end:
  assumes client: "sending u cfd ch (body (a, ch)) 0" and server: "serving t body [] []" "ts_socket (t_socket t) = Some sfd"
    and env: "fair_env env" and body: "bodies_ok body" and a: "a = from_socket_addr src"
    and ch: "map_of (t_channel_config t) ch = Some cfg" and buf: "1200 \<le> length buf"
    and ks: "\<forall>k \<in> set ks. 0 < k \<and> k \<le> n" "packets_ok t [] (map (\<lambda>k. (src, ch, k)) ks)"
    and calls: "2 * length ks < receives calls"
  shows "\<exists>rs u' net'. send_calls (e_os env) now ch (map (body (a, ch)) [1..<Suc n]) net u = Some (rs, u', net')
    \<and> (\<forall>r \<in> set rs. sres_error r = 0) \<and> length (net_out net') = length (net_out net) + n
    \<and> (\<forall>snet. net_in snet sfd = map (\<lambda>k. Some (src, snd (snd (net_out net' ! (length (net_out net) + (k - 1)))))) ks \<longrightarrow>
         (\<exists>ms t' snet' buf'. app_calls env calls snet t buf = Some (ms, t', snet', buf') \<and> net_in snet' sfd = []
            \<and> ms = map (\<lambda>k. (ucast ch, a, body (a, ch) k)) (deliverable (cc_is_ordered cfg) ks)))"
proof -
  let ?msg = "\<lambda>k. hdr_bytes 1 ch (seq_of k) @ body (a, ch) k"
  have os: "\<forall>net fd dest d. os_send (e_os env) net fd dest d" using env by (simp add: fair_env_def)
  have bd: "\<forall>k. body (a, ch) k \<noteq> [] \<and> length (body (a, ch) k) < 1200" using body unfolding bodies_ok_def by blast
  have upt: "[Suc 0..<Suc 0 + n] = [1..<Suc n]" by simp
  obtain rs u' where snd: "send_calls (e_os env) now ch (map (body (a, ch)) [1..<Suc n]) net u =
      Some (rs, u', fold (\<lambda>k. sent (e_os env) cfd Connected (?msg k)) [1..<Suc n] net)" "\<forall>r \<in> set rs. sres_error r = 0"
    using send_many [OF client bd, of "e_os env" now n net] unfolding upt by blast
  let ?net = "fold (\<lambda>k. sent (e_os env) cfd Connected (?msg k)) [1..<Suc n] net"
  have out: "net_out ?net = net_out net @ map (\<lambda>k. (cfd, Connected, ?msg k)) [1..<Suc n]" by (rule fold_sent(1) [OF os])
  have at: "snd (snd (net_out ?net ! (length (net_out net) + (k - 1)))) = ?msg k" if "k \<in> set ks" for k
  proof -
    have k: "k - 1 < length [1..<Suc n]" "[1..<Suc n] ! (k - 1) = k" using ks(1) that by (auto simp: nth_upt simp del: upt_Suc)
    then show ?thesis unfolding out nth_append_length_plus nth_map [OF k(1)] by simp
  qed
  have served: "\<exists>ms t' snet' buf'. app_calls env calls snet t buf = Some (ms, t', snet', buf') \<and> net_in snet' sfd = []
      \<and> ms = map (\<lambda>k. (ucast ch, a, body (a, ch) k)) (deliverable (cc_is_ordered cfg) ks)"
    if q: "net_in snet sfd = map (\<lambda>k. Some (src, snd (snd (net_out ?net ! (length (net_out net) + (k - 1)))))) ks" for snet
  proof -
    have "net_in snet sfd = map (\<lambda>k. Some (src, stream_msg body (a, ch) k)) ks" unfolding q using at by (simp add: stream_msg_def)
    from single_stream [OF server env body _ ch buf ks(2) calls this] show ?thesis by (simp add: a)
  qed
  have "length (net_out ?net) = length (net_out net) + n" unfolding out by simp
  with snd served show ?thesis by blast
qed

definition sample_client :: tachyon where
  "sample_client = create_connection 0 ((create_with_id 0 \<lparr>tcf_use_identity = 0, tcf_drop_packet_chance = 0, tcf_drop_reliable_only = 0\<rparr> 1)
     \<lparr>t_socket := ts_create\<lparr>ts_socket := Some 1\<rparr>\<rparr>) na_default identity_default"

lemma sample_sending: "sending sample_client 1 1 body 0"
  unfolding sample_client_def by (rule sending_start [where cfg = cc_default_ordered]) (simp_all add: create_buffer ts_create_def)

abbreviation numbered :: streams where
  "numbered \<equiv> \<lambda>key k. [of_nat k]"

lemma sample_packets: "packets_ok (sample_server 0) [] (map (\<lambda>k. (sample_peer, 1, k)) [2, 1, 2])"
    "packets_ok (sample_server 0) [] (map (\<lambda>k. (sample_peer, 1, k)) [1, 3])"
  by (simp_all add: packet_ok_def packet_key_def arrival_ok_def contiguous_def upt_rec cc_default_ordered_def)

theorem end_to_end_witness:
  "\<exists>rs u' net' snet ms t' snet' buf'. send_calls (e_os sample_env) 0 1 [[1], [2], [3]] net_empty sample_client = Some (rs, u', net')
     \<and> app_calls sample_env (replicate 7 (Receive_Call 7)) snet (sample_server 0) (replicate 1200 0) = Some (ms, t', snet', buf')
     \<and> ms = [(1, na_localhost 100, [1]), (1, na_localhost 100, [2])]"
proof -
  have a: "na_localhost 100 = from_socket_addr sample_peer" by (simp add: na_localhost_def)
  have cfg: "map_of (t_channel_config (sample_server 0)) 1 = Some cc_default_ordered" by simp
  have ks: "\<forall>k \<in> set [2, 1, 2]. 0 < k \<and> k \<le> (3 :: nat)" by simp
  have n: "2 * length [2, 1, 2 :: nat] < receives (replicate 7 (Receive_Call 7))" by simp
  have big: "1200 \<le> length (replicate 1200 (0 :: u8))" by simp
  have bod: "bodies_ok numbered" by (simp add: bodies_ok_def)
  have sock: "ts_socket (t_socket (sample_server 0)) = Some 0" by simp
  from end_to_end [OF sample_sending sample_serving sock sample_fair bod a cfg big ks sample_packets(1) n, of 0 net_empty]
  obtain rs u' net' where s: "send_calls (e_os sample_env) 0 1 (map (numbered (na_localhost 100, 1)) [1..<Suc 3]) net_empty sample_client = Some (rs, u', net')"
    and r: "\<And>snet. net_in snet 0 = map (\<lambda>k. Some (sample_peer, snd (snd (net_out net' ! (length (net_out net_empty) + (k - 1)))))) [2, 1, 2] \<Longrightarrow>
         (\<exists>ms t' snet' buf'. app_calls sample_env (replicate 7 (Receive_Call 7)) snet (sample_server 0) (replicate 1200 0) = Some (ms, t', snet', buf')
            \<and> net_in snet' 0 = []
            \<and> ms = map (\<lambda>k. (ucast (1 :: u8), na_localhost 100, numbered (na_localhost 100, 1) k)) (deliverable (cc_is_ordered cc_default_ordered) [2, 1, 2]))"
    by blast
  let ?snet = "net_empty\<lparr>net_in := (\<lambda>_. map (\<lambda>k. Some (sample_peer, snd (snd (net_out net' ! (length (net_out net_empty) + (k - 1)))))) [2, 1, 2])\<rparr>"
  have d: "deliverable (cc_is_ordered cc_default_ordered) [2, 1, 2] = [1, 2]"
    by (simp add: deliverable_def cc_is_ordered_def cc_default_ordered_def contiguous_def upt_rec)
  have up: "[1..<Suc 3] = [1, 2, 3]" by (simp add: upt_rec)
  from s r [of ?snet] show ?thesis unfolding d up by auto
qed



end
