(* ===== verification/Large_Messages.thy ===== *)
theory Large_Messages
  imports End_To_End
begin

text \<open>
  A message of 1200 bytes or more from the client's \<open>send_to_target\<close> to the server's \<open>receive_loop\<close>:
  it travels as fragments, each with a number of its own, and the server's channel puts it
  together (\<^verbatim>\<open>src/src/tachyon.rs\<close>, \<^verbatim>\<open>src/src/tachyon/channel.rs\<close>,
  \<^verbatim>\<open>src/src/tachyon/fragmentation.rs\<close>).
\<close>

subsection \<open>Lists and runs\<close>

lemma remdups_disjoint: "set xs \<inter> set ys = {} \<Longrightarrow> remdups (xs @ ys) = remdups xs @ remdups ys"
  by (induction xs) auto

lemma length_concat_le: "\<forall>x \<in> set cs. length x \<le> l \<Longrightarrow> length (concat cs) \<le> l * length cs"
  by (induction cs) auto

lemma window_run_cong:
  assumes "window_run ordered W msg ks r out" "\<forall>k \<in> set ks. msg' k = msg k"
  shows "window_run ordered W msg' ks r out"
  using assms
proof (induction rule: window_run.induct)
  case (arrive ks r out k len data b r')
  then show ?case by (intro window_run.arrive [where len = len and data = data and b = b]) auto
qed (auto intro: window_run.intros)

text \<open>What a block of numbers behind a complete stream adds to what is deliverable.\<close>

lemma contiguous_block:
  assumes "set ks = {1..n}" shows "contiguous ks = n"
  using assms by (intro contiguousI) auto

lemma deliverable_block:
  assumes ks: "set ks = {1..n}" and js: "set js = {n + 1..n + m}"
  shows "\<exists>ls. deliverable ordered (ks @ js) = deliverable ordered ks @ ls \<and> set ls = {n + 1..n + m} \<and> distinct ls"
proof (cases ordered)
  case True
  have "set (ks @ js) = {1..n + m}" using ks js by auto
  then have "contiguous (ks @ js) = n + m" by (rule contiguous_block)
  moreover have "[1..<Suc (n + m)] = [1..<Suc n] @ [Suc n..<Suc (n + m)]" using upt_add_eq_append [of 1 "Suc n" m] by simp
  ultimately show ?thesis
    using True contiguous_block [OF ks] by (intro exI [of _ "[Suc n..<Suc (n + m)]"]) (auto simp: deliverable_def simp del: upt_Suc)
next
  case False
  have "set (rev js) \<inter> set (rev ks) = {}" using ks js by auto
  then have "remdups (rev (ks @ js)) = remdups (rev js) @ remdups (rev ks)" using remdups_disjoint [of "rev js" "rev ks"] by simp
  then show ?thesis using False js by (intro exI [of _ "rev (remdups (rev js))"]) (simp add: deliverable_def)
qed

subsection \<open>A server that collects fragments\<close>

text \<open>The channel of a key, or the one that the first datagram of its sender will create.\<close>

definition channel_at :: "tachyon \<Rightarrow> channel_key \<Rightarrow> channel_config \<Rightarrow> channel" where
  "channel_at t key cfg = (case map_of (t_channels t) key of Some c \<Rightarrow> c | None \<Rightarrow> channel_create (snd key) (fst key) cfg)"

definition collecting ::
  "tachyon \<Rightarrow> nat \<Rightarrow> channel_key \<Rightarrow> channel_config \<Rightarrow> (nat \<Rightarrow> bytes) \<Rightarrow> bytes list \<Rightarrow> u16 \<Rightarrow> (nat \<Rightarrow> bytes) \<Rightarrow> nat list \<Rightarrow> nat set \<Rightarrow> bool" where
  "collecting t fd key cfg msg out g pkt ks A \<longleftrightarrow> t_inv t \<and> ts_socket (t_socket t) = Some fd \<and> ts_is_server (t_socket t)
     \<and> tcf_drop_packet_chance (t_config t) = 0 \<and> 1210 \<le> length (t_socket_receive_buffer t)
     \<and> (\<forall>a i. map_of (t_connections t) a \<noteq> None \<longrightarrow> map_of (t_channel_config t) i \<noteq> None \<longrightarrow> map_of (t_channels t) (a, i) \<noteq> None)
     \<and> (tcf_use_identity (t_config t) = 1 \<longrightarrow> id_id (get_connection_identity t (fst key)) \<noteq> 0)
     \<and> map_of (t_channel_config t) (snd key) = Some cfg \<and> unat (cc_receive_window_size cfg) \<le> 1022
     \<and> (\<forall>k c. k \<noteq> key \<longrightarrow> map_of (t_channels t) k = Some c \<longrightarrow> r_published (c_receiver c) = [])
     \<and> window_run (cc_is_ordered cfg) (cc_receive_window_size cfg) msg ks (c_receiver (channel_at t key cfg)) out
     \<and> holds (group_map (c_frag (channel_at t key cfg)) g) A pkt
     \<and> (A \<noteq> {} \<longrightarrow> map_of (fr_received (c_frag (channel_at t key cfg))) g \<noteq> None)"

lemma update_connection_maps:
  "map_of (t_channels (on_receive_connection_update now t a)) (b, i) =
      (case map_of (t_channels t) (b, i) of Some c \<Rightarrow> Some c
       | None \<Rightarrow> if b = a \<and> map_of (t_connections t) a = None then map_option (channel_create i a) (map_of (t_channel_config t) i) else None)"
  "map_of (t_connections (on_receive_connection_update now t a)) b = None \<longleftrightarrow> map_of (t_connections t) b = None \<and> b \<noteq> a"
  "get_connection_identity (on_receive_connection_update now t a) b = get_connection_identity t b"
  by (auto simp: on_receive_connection_update_def Let_def create_connection_maps get_connection_identity_def update_conv'
      connection_create_def split: option.split)

lemma update_connection_frame [simp]:
  "t_socket (on_receive_connection_update now t a) = t_socket t" "t_config (on_receive_connection_update now t a) = t_config t"
  "t_channel_config (on_receive_connection_update now t a) = t_channel_config t"
  "t_socket_receive_buffer (on_receive_connection_update now t a) = t_socket_receive_buffer t"
  by (simp_all add: on_receive_connection_update_def Let_def split: option.split)

lemma collecting_admit:
  fixes now :: nat
  assumes c: "collecting t fd (a, ch) cfg msg out g pkt ks A" and d: "length d \<le> 1210"
  defines "t1 \<equiv> on_receive_connection_update now (filled t d) a"
  shows "collecting t1 fd (a, ch) cfg msg out g pkt ks A" and "map_of (t_channels t1) (a, ch) = Some (channel_at t (a, ch) cfg)"
proof -
  have inv: "t_inv t" and all: "\<And>a i. map_of (t_connections t) a \<noteq> None \<Longrightarrow> map_of (t_channel_config t) i \<noteq> None \<Longrightarrow> map_of (t_channels t) (a, i) \<noteq> None"
    and cfg: "map_of (t_channel_config t) ch = Some cfg" and buf: "1210 \<le> length (t_socket_receive_buffer t)"
    using c unfolding collecting_def by auto
  have maps: "map_of (t_channels t1) (b, i) =
      (case map_of (t_channels t) (b, i) of Some c \<Rightarrow> Some c
       | None \<Rightarrow> if b = a \<and> map_of (t_connections t) a = None then map_option (channel_create i a) (map_of (t_channel_config t) i) else None)"
    "map_of (t_connections t1) b = None \<longleftrightarrow> map_of (t_connections t) b = None \<and> b \<noteq> a"
    "get_connection_identity t1 b = get_connection_identity t b" for b i
    unfolding t1_def update_connection_maps by (auto simp: get_connection_identity_def split: option.split)
  show m: "map_of (t_channels t1) (a, ch) = Some (channel_at t (a, ch) cfg)"
    using all [of a ch] cfg by (cases "map_of (t_connections t) a") (auto simp: maps(1) channel_at_def split: option.split)
  have "t_inv t1" using inv by (simp add: t1_def on_receive_connection_update_wf on_receive_connection_update_links)
  moreover have "map_of (t_channels t1) (b, i) \<noteq> None" if "map_of (t_connections t1) b \<noteq> None" "map_of (t_channel_config t1) i \<noteq> None" for b i
  proof -
    have "t_channel_config t1 = t_channel_config t" by (simp add: t1_def)
    then show ?thesis using that all [of b i] maps(2) [of b] by (cases "map_of (t_connections t) b") (auto simp: maps(1) split: option.split)
  qed
  moreover have "r_published (c_receiver c) = []" if "k \<noteq> (a, ch)" "map_of (t_channels t1) k = Some c" for k c
  proof -
    obtain b i where k: "k = (b, i)" by (cases k)
    have "r_published (c_receiver (channel_create i a cfg)) = []" for i cfg by (simp add: channel_create_def receiver_create_def)
    then show ?thesis using that c unfolding k collecting_def by (auto simp: maps split: option.splits if_splits)
  qed
  moreover have "channel_at t1 (a, ch) cfg = channel_at t (a, ch) cfg" using m by (simp add: channel_at_def)
  ultimately show "collecting t1 fd (a, ch) cfg msg out g pkt ks A"
    using c d unfolding collecting_def by (simp add: maps(3)) (simp add: t1_def)
qed

text \<open>The fragments of a message: the k-th number carries the part k - (n + 1).\<close>

definition fragment_header :: "u8 \<Rightarrow> u16 \<Rightarrow> nat \<Rightarrow> nat \<Rightarrow> nat \<Rightarrow> header" where
  "fragment_header ch g n m k = header_create_fragmented (seq_of k) ch g (seq_of (n + 1)) (word_of_nat m)"

definition fragment :: "u8 \<Rightarrow> u16 \<Rightarrow> nat \<Rightarrow> bytes list \<Rightarrow> nat \<Rightarrow> bytes" where
  "fragment ch g n cs k = frag_bytes (fragment_header ch g n (length cs) k) @ cs ! (k - (n + 1))"

lemma fragment_header_sel [simp]:
  "h_message_type (fragment_header ch g n m k) = MESSAGE_TYPE_FRAGMENT" "h_channel (fragment_header ch g n m k) = ch"
  "h_sequence (fragment_header ch g n m k) = seq_of k" "h_fragment_group (fragment_header ch g n m k) = g"
  "h_fragment_start_sequence (fragment_header ch g n m k) = seq_of (n + 1)" "h_fragment_count (fragment_header ch g n m k) = word_of_nat m"
  "h_start_sequence (fragment_header ch g n m k) = 0" "h_flags (fragment_header ch g n m k) = 0"
  by (simp_all add: fragment_header_def header_create_fragmented_def header_default_def)

lemma channel_receive_fragment:
  assumes "receive_fragment now (c_frag c) data len = Some ((True, b), fr)" "receive_packet (c_receiver c) s data 10 = Some (acc, r)"
    "h_message_type h = MESSAGE_TYPE_FRAGMENT" "h_sequence h = s"
  shows "\<exists>st. channel_receive env now c h a data len = Some (RR_Retry, c\<lparr>c_frag := fr, c_receiver := r, c_stats := st\<rparr>)"
proof -
  let ?st = "(c_stats c)\<lparr>cs_bytes_received := cs_bytes_received (c_stats c) + word_of_nat len\<rparr>"
  have "channel_receive env now c h a data len = Some (RR_Retry, c\<lparr>c_frag := fr, c_receiver := r,
      c_stats := if acc then ?st\<lparr>cs_fragments_received := cs_fragments_received ?st + 1\<rparr> else ?st\<rparr>)"
    using assms by (simp add: channel_receive_def process_fragment_message_def)
  then show ?thesis by blast
qed

lemma collecting_round:
  assumes c: "collecting t fd (a, ch) cfg msg out g (fragment ch g n cs) ks A"
    and q: "net_in net fd = Some (src, fragment ch g n cs k) # q" and a: "a = from_socket_addr src"
    and k: "arrival_ok (cc_receive_window_size cfg) ks k" "msg k = frag_bytes (fragment_header ch g n (length cs) k)"
    and cs: "length (cs ! (k - (n + 1))) \<le> 1200" "length cs \<le> 1022" "inj_on seq_of (insert k A)"
  shows "\<exists>t'. receive_round env now net t buf = Some (Inr True, t', taken_from net fd q, buf)
    \<and> collecting t' fd (a, ch) cfg msg out g (fragment ch g n cs) (ks @ [k]) (insert k A)"
proof -
  let ?pkt = "fragment ch g n cs" and ?fh = "fragment_header ch g n (length cs) k" and ?key = "(a, ch)"
  let ?h = "header_default\<lparr>h_message_type := MESSAGE_TYPE_FRAGMENT, h_channel := ch, h_sequence := seq_of k\<rparr>"
  let ?buf = "overwrite (t_socket_receive_buffer t) 0 (?pkt k)" and ?t1 = "on_receive_connection_update now (filled t (?pkt k)) a"
  have len: "length (?pkt k) \<le> 1210" using cs(1) by (simp add: fragment_def)
  have r: "receiving t net fd src (?pkt k) q" and srv: "ts_is_server (t_socket t)"
    and idn: "tcf_use_identity (t_config t) = 1 \<Longrightarrow> id_id (get_connection_identity t a) \<noteq> 0"
    using c q len by (auto simp: collecting_def receiving_def)
  have buf: "?buf = ?pkt k @ drop (length (?pkt k)) (t_socket_receive_buffer t)" by (simp add: overwrite_def)
  have h: "header_read ?buf = Some ?h" unfolding buf by (simp add: fragment_def frag_bytes_def header_read_prefix)
  have gate: "receive_gate env now net t = Some (Inr (?h, a, length (?pkt k)), ?t1, taken_from net fd q)"
    using gate_admits [OF r srv h] idn by (simp add: a)
  note adm = collecting_admit [OF c len, of now]
  define c1 where "c1 = channel_at t ?key cfg"
  have at1: "map_of (t_channels ?t1) ?key = Some c1" "channel_at ?t1 ?key cfg = c1" using adm(2) by (simp_all add: c1_def channel_at_def)
  have run: "window_run (cc_is_ordered cfg) (cc_receive_window_size cfg) msg ks (c_receiver c1) out" "unat (cc_receive_window_size cfg) \<le> 1022"
    and hold: "holds (group_map (c_frag c1) g) A ?pkt"
    using adm(1) at1(2) by (auto simp: collecting_def)
  have pk: "packet_of g (length cs) k (?pkt k)"
    using cs(2) by (auto simp: packet_of_def fragment_def unat_of_nat intro!: exI [of _ ?fh])
  obtain fr where fr: "receive_fragment now (c_frag c1) ?buf (length (?pkt k)) = Some ((True, card (insert k A) = length cs), fr)"
    "holds (group_map fr g) (insert k A) ?pkt" "map_of (fr_received fr) g \<noteq> None"
    using receive_fragment_holds [OF pk hold cs(3) buf] by blast
  have head: "10 \<le> length ?buf" "take 10 ?buf = msg k" unfolding buf k(2) by (simp_all add: fragment_def)
  obtain rc where rc: "receive_packet (c_receiver c1) (seq_of k) ?buf 10 = Some (k \<notin> set ks, rc)"
    using arrival_accepted [OF run k(1) head] by blast
  note run' = window_run.arrive [OF run(1) k(1) head rc]
  obtain st where st: "channel_receive env now c1 ?h a ?buf (length (?pkt k)) = Some (RR_Retry, c1\<lparr>c_frag := fr, c_receiver := rc, c_stats := st\<rparr>)"
    using channel_receive_fragment [OF fr(1) rc, of ?h env a] by auto
  let ?c2 = "c1\<lparr>c_frag := fr, c_receiver := rc, c_stats := st\<rparr>" and ?t2 = "?t1\<lparr>t_channels := AList.update ?key (c1\<lparr>c_frag := fr, c_receiver := rc, c_stats := st\<rparr>) (t_channels ?t1)\<rparr>"
  have "receive_from_socket env now net t = Some (RR_Retry, ?t2, taken_from net fd q)"
    using gate at1(1) st by (simp add: receive_from_socket_def)
  then have "receive_round env now net t buf = Some (Inr True, ?t2, taken_from net fd q, buf)" by (simp add: receive_round_def)
  moreover have "collecting ?t2 fd ?key cfg msg out g ?pkt (ks @ [k]) (insert k A)"
  proof -
    have "t_inv ?t2" using adm(1) at1(1) put_channel_inv [of ?t1 ?key c1 ?c2] by (simp add: collecting_def)
    moreover have "channel_at ?t2 ?key cfg = ?c2" by (simp add: channel_at_def update_conv')
    ultimately show ?thesis
      using adm(1) run' fr(2,3) unfolding collecting_def by (auto simp: update_conv' get_connection_identity_def simp del: split_paired_All)
  qed
  ultimately show ?thesis by blast
qed

lemma collecting_rounds:
  assumes c: "collecting t fd (a, ch) cfg msg out g (fragment ch g n cs) ks A"
    and q: "net_in net fd = map (\<lambda>k. Some (src, fragment ch g n cs k)) js" and a: "a = from_socket_addr src"
    and js: "A \<union> set js \<subseteq> {n + 1..n + length cs}" "contiguous ks \<ge> n" "contiguous (ks @ js) \<le> n + length cs"
    and msg: "\<forall>k \<in> set js. msg k = frag_bytes (fragment_header ch g n (length cs) k)"
    and cs: "\<forall>x \<in> set cs. length x \<le> 1200" "length cs < unat (cc_receive_window_size cfg)" and len: "length js \<le> N"
  shows "\<exists>t'. receive_rounds N env now net t buf = Some (None, t', taken_from net fd [], buf)
    \<and> collecting t' fd (a, ch) cfg msg out g (fragment ch g n cs) (ks @ js) (A \<union> set js)"
  using c q js msg len
proof (induction N arbitrary: net t ks js A)
  case 0
  then show ?case by (auto simp: fun_upd_idem)
next
  case (Suc N)
  have fd: "ts_socket (t_socket t) = Some fd" and W: "unat (cc_receive_window_size cfg) \<le> 1022"
    using Suc.prems(1) by (simp_all add: collecting_def)
  show ?case
  proof (cases js)
    case Nil
    have "receive_round env now net t buf = Some (Inr False, t, net, buf)"
      using fd Suc.prems(2) Nil by (simp add: receive_round_def receive_from_socket_def receive_gate_def ts_receive_def udp_recv_def)
    then show ?thesis using Suc.prems(1,2) Nil by (simp add: fun_upd_idem)
  next
    case (Cons k js')
    let ?net = "taken_from net fd (map (\<lambda>k. Some (src, fragment ch g n cs k)) js')"
    have k: "n + 1 \<le> k" "k \<le> n + length cs" using Suc.prems(3) Cons by auto
    have mono: "contiguous ks \<le> contiguous (ks @ js)" by (rule contiguous_mono) auto
    have arr: "arrival_ok (cc_receive_window_size cfg) ks k"
      using k Suc.prems(4,5) mono cs(2) W by (simp add: arrival_ok_def)
    have part: "length (cs ! (k - (n + 1))) \<le> 1200" using k cs(1) by simp
    have inj: "inj_on seq_of (insert k A)"
      using Suc.prems(3) k cs(2) W by (intro inj_on_subset [OF sn.inj_on_window [of "n + 1"]]) auto
    obtain t1 where t1: "receive_round env now net t buf = Some (Inr True, t1, ?net, buf)"
      "collecting t1 fd (a, ch) cfg msg out g (fragment ch g n cs) (ks @ [k]) (insert k A)"
      using collecting_round [OF Suc.prems(1) _ a arr _ part _ inj, of net "map (\<lambda>k. Some (src, fragment ch g n cs k)) js'" env now buf]
        Suc.prems(2,6) Cons cs(2) W by auto
    have "contiguous ks \<le> contiguous (ks @ [k])" by (rule contiguous_mono) auto
    then have "\<exists>t'. receive_rounds N env now ?net t1 buf = Some (None, t', taken_from ?net fd [], buf)
      \<and> collecting t' fd (a, ch) cfg msg out g (fragment ch g n cs) ((ks @ [k]) @ js') (insert k A \<union> set js')"
      using Suc.prems Cons k by (intro Suc.IH [OF t1(2)]) auto
    then show ?thesis using t1(1) Cons by (auto simp del: fun_upd_apply)
  qed
qed

subsection \<open>The message is handed out\<close>

lemma receive_published_fragment:
  assumes pub: "r_published (c_receiver c) = b # bs" "bb_ok l b" and con: "bb_content b = frag_bytes h"
    and h: "h_message_type h = MESSAGE_TYPE_FRAGMENT" "h_start_sequence h = 0" "h_flags h = 0"
    and asm: "assemble (c_frag c) h = Some (Inr m, fr)" and m: "m \<noteq> []" "length m < 2 ^ 32" "length m \<le> length buf"
  shows "\<exists>c'. receive_published c buf = Some ((word_of_nat (length m), c_address c), c', overwrite buf 0 m) \<and> same_key c c'"
proof -
  have data: "bb_data b = frag_bytes h @ drop (bb_length b) (bb_data b)"
    using bb_data_content [OF pub(2)] con by simp
  have ty: "read_u8 \<lparr>ib_index = 0\<rparr> (bb_data b) = Some (MESSAGE_TYPE_FRAGMENT, \<lparr>ib_index = 1\<rparr>)"
    using read_type [of b MESSAGE_TYPE_FRAGMENT] con h(1) by (simp add: frag_bytes_def)
  have hd: "header_read_fragmented (bb_data b) = Some h"
    using h(2,3) by (subst data) (simp add: header_read_fragmented_prefix)
  have "(word_of_nat (length m) :: u32) > 0" using m(1,2) by (simp add: word_less_nat_alt unat_of_nat)
  then show ?thesis
    using pub(1) ty hd asm m(3) by (simp add: receive_published_unfold receive_published_internal_def take_published_def)
qed

lemma receive_published_keys_one:
  assumes "map_of (t_channels t) key = Some c" "receive_published c buf = Some ((len, address), c', buf')" "len > 0" "key \<in> set keys"
    "\<forall>k c. k \<noteq> key \<longrightarrow> map_of (t_channels t) k = Some c \<longrightarrow> r_published (c_receiver c) = []"
  shows "\<exists>t'. receive_published_keys keys t buf =
    Some (trr_default\<lparr>trr_length := len, trr_address := address, trr_channel := ucast (c_id c')\<rparr>, t', buf')"
  using assms(1,4,5)
proof (induction keys arbitrary: t)
  case (Cons k keys)
  show ?case
  proof (cases "k = key")
    case True
    then show ?thesis using Cons.prems(1) assms(2,3) by simp
  next
    case False
    show ?thesis
    proof (cases "map_of (t_channels t) k")
      case None
      then show ?thesis using Cons False by simp
    next
      case (Some d)
      let ?t = "t\<lparr>t_channels := AList.update k d (t_channels t)\<rparr>"
      have same: "map_of (t_channels ?t) = map_of (t_channels t)" using Some by (auto simp: update_conv' fun_eq_iff)
      have "receive_published d buf = Some ((0, c_address d), d, buf)"
        using Cons.prems(3) Some False by (blast intro: receive_published_none)
      moreover have "\<exists>t'. receive_published_keys keys ?t buf =
          Some (trr_default\<lparr>trr_length := len, trr_address := address, trr_channel := ucast (c_id c')\<rparr>, t', buf')"
        using Cons.prems False by (intro Cons.IH) (simp_all only: same set_ConsD, auto)
      ultimately show ?thesis using Some by simp
    qed
  qed
qed simp

lemma collecting_start:
  assumes s: "serving t body ps ms" "unpublished t" and fd: "ts_socket (t_socket t) = Some fd" "1210 \<le> length (t_socket_receive_buffer t)"
    and cfg: "map_of (t_channel_config t) ch = Some cfg" and idn: "tcf_use_identity (t_config t) = 1 \<longrightarrow> id_id (get_connection_identity t a) \<noteq> 0"
    and msg: "\<forall>k \<in> set (numbers (a, ch) ps). msg k = stream_msg body (a, ch) k"
  shows "collecting t fd (a, ch) cfg msg (map msg (deliverable (cc_is_ordered cfg) (numbers (a, ch) ps))) g pkt (numbers (a, ch) ps) {}"
proof -
  let ?key = "(a, ch)" and ?W = "cc_receive_window_size cfg" and ?o = "cc_is_ordered cfg" and ?ks = "numbers (a, ch) ps"
  let ?c = "channel_at t ?key cfg"
  have st: "stream_state body ?key (map_of (t_channels t) ?key) (Some cfg) ?ks (messages_of ?key ms)" and W: "unat ?W \<le> 1022"
    using s(1) cfg unfolding serving_def by (metis snd_conv, blast)
  have "(\<exists>out. window_run ?o ?W (stream_msg body ?key) ?ks (c_receiver ?c) out) \<and> r_published (c_receiver ?c) = []
      \<and> map_of (fr_received (c_frag ?c)) g = None"
  proof (cases "map_of (t_channels t) ?key")
    case None
    then have "?ks = []" using st by simp
    then show ?thesis using None window_run.start [of ?o ?W]
      by (auto simp: channel_at_def channel_create_def fr_default_def) (simp_all add: receiver_create_def)
  next
    case (Some c)
    then show ?thesis using st s(2) by (auto simp: channel_at_def armed_def)
  qed
  then obtain out where run: "window_run ?o ?W msg ?ks (c_receiver ?c) out" "r_published (c_receiver ?c) = []"
    "map_of (fr_received (c_frag ?c)) g = None"
    using window_run_cong msg by blast
  have "out = map msg (deliverable ?o ?ks)" using published_stream(1) [OF run(1) W] run(2) by simp
  then show ?thesis using s fd cfg idn W run unfolding collecting_def serving_def by (simp add: group_map_def)
qed

text \<open>When all fragments are there, the first published one of them completes the message.\<close>

lemma collecting_complete:
  assumes c: "collecting t fd (a, ch) cfg msg (map msg (deliverable (cc_is_ordered cfg) ks)) g (fragment ch g n cs) (ks @ js) {n + 1..n + length cs}"
    and ks: "set ks = {1..n}" "set js = {n + 1..n + length cs}"
    and msg: "\<forall>k \<in> set js. msg k = frag_bytes (fragment_header ch g n (length cs) k)"
    and cs: "length cs < unat (cc_receive_window_size cfg)" "concat cs \<noteq> []" "length (concat cs) < 2 ^ 32" "length (concat cs) \<le> length buf"
  shows "\<exists>c c'. map_of (t_channels t) (a, ch) = Some c
    \<and> receive_published c buf = Some ((word_of_nat (length (concat cs)), a), c', overwrite buf 0 (concat cs)) \<and> c_id c' = ch"
proof -
  let ?key = "(a, ch)" and ?o = "cc_is_ordered cfg" and ?hd = "fragment_header ch g n (length cs)" and ?pkt = "fragment ch g n cs"
  have ne: "Suc 0 \<le> length cs" using cs(2) by (cases cs) auto
  define c where "c = channel_at t ?key cfg"
  have W: "unat (cc_receive_window_size cfg) \<le> 1022"
    "window_run ?o (cc_receive_window_size cfg) msg (ks @ js) (c_receiver c) (map msg (deliverable ?o ks))"
    "holds (group_map (c_frag c) g) {n + 1..n + length cs} ?pkt" "map_of (fr_received (c_frag c)) g \<noteq> None"
    using c ne by (simp_all add: collecting_def c_def)
  obtain ls where ls: "deliverable ?o (ks @ js) = deliverable ?o ks @ ls" "set ls = {n + 1..n + length cs}"
    using deliverable_block [OF ks] by blast
  have pub: "map bb_content (r_published (c_receiver c)) = map msg ls" using published_stream(1) [OF W(2,1)] ls(1) by simp
  obtain k ls' where k: "ls = k # ls'" using ls(2) ne by (cases ls) auto
  have "k \<in> set js" unfolding ks(2) ls(2) [symmetric] k by simp
  then obtain b bs where b: "r_published (c_receiver c) = b # bs" "bb_content b = frag_bytes (?hd k)" using pub k msg by auto
  obtain l where l: "bb_ok l b" using published_stream(2) [OF W(2,1)] b(1) by auto
  have at: "map_of (t_channels t) ?key = Some c"
    using b(1) by (cases "map_of (t_channels t) ?key") (simp_all add: c_def channel_at_def channel_create_def receiver_create_def)
  obtain mm where mm: "map_of (fr_received (c_frag c)) g = Some mm" using W(4) by blast
  have "\<exists>h. length h = 10 \<and> ?pkt (n + 1 + i) = h @ cs ! i" for i by (auto simp: fragment_def)
  then have "assemble (c_frag c) (?hd k) = Some (Inr (concat cs), (c_frag c)\<lparr>fr_received := AList.delete g (fr_received (c_frag c))\<rparr>)"
    using W(1,3) mm cs(1) by (intro assemble_ok [of _ g mm "n + 1" cs ?pkt])
      (simp_all add: group_map_def unat_of_nat atLeastLessThanSuc_atLeastAtMost)
  then obtain c' where "receive_published c buf = Some ((word_of_nat (length (concat cs)), c_address c), c', overwrite buf 0 (concat cs))" "same_key c c'"
    using receive_published_fragment [OF b(1) l b(2)] cs(2-4) by (auto simp del: concat_eq_Nil_conv)
  moreover have "c_address c = a" "c_id c = ch" using c at t_wf_channel [of t a ch c] by (simp_all add: collecting_def)
  ultimately show ?thesis using at by auto
qed

lemma large_message_received:
  assumes s: "serving t body ps ms" "unpublished t" and fd: "ts_socket (t_socket t) = Some fd" "1210 \<le> length (t_socket_receive_buffer t)"
    and cfg: "map_of (t_channel_config t) ch = Some cfg" and idn: "tcf_use_identity (t_config t) = 1 \<longrightarrow> id_id (get_connection_identity t a) \<noteq> 0"
    and ps: "set (numbers (a, ch) ps) = {1..n}" and a: "a = from_socket_addr src"
    and q: "net_in net fd = map (\<lambda>k. Some (src, fragment ch g n cs k)) js" and js: "set js = {n + 1..n + length cs}" "length js \<le> 100"
    and cs: "\<forall>x \<in> set cs. length x \<le> 1200" "length cs < unat (cc_receive_window_size cfg)" "concat cs \<noteq> []" and buf: "length (concat cs) \<le> length buf"
    and ord: "\<forall>ks. set (e_channel_order env ks) = set ks"
  shows "\<exists>t'. receive_loop env now net t buf = Some (result_of (a, ch) (concat cs), t', taken_from net fd [], overwrite buf 0 (concat cs))"
proof -
  let ?key = "(a, ch)" and ?ks = "numbers (a, ch) ps" and ?pkt = "fragment ch g n cs"
  define msg where "msg k = (if k \<le> n then stream_msg body ?key k else frag_bytes (fragment_header ch g n (length cs) k))" for k
  have m: "\<forall>k \<in> set ?ks. msg k = stream_msg body ?key k" "\<forall>k \<in> set js. msg k = frag_bytes (fragment_header ch g n (length cs) k)"
    using ps js(1) by (auto simp: msg_def)
  have con: "contiguous ?ks = n" "contiguous (?ks @ js) = n + length cs" using ps js(1) by (auto intro!: contiguous_block)
  let ?out = "map msg (deliverable (cc_is_ordered cfg) ?ks)"
  obtain t1 where t1: "receive_rounds 100 env now net t buf = Some (None, t1, taken_from net fd [], buf)"
    "collecting t1 fd ?key cfg msg ?out g ?pkt (?ks @ js) {n + 1..n + length cs}"
    using collecting_rounds [OF collecting_start [OF s fd cfg idn m(1)] q a, where N = 100 and env = env and now = now and buf = buf]
      js con m(2) cs(1,2) by auto
  have "unat (cc_receive_window_size cfg) \<le> 1022" using t1(2) by (simp add: collecting_def)
  then have small: "length (concat cs) < 2 ^ 32" using length_concat_le [OF cs(1)] cs(2) by simp
  obtain c c' where c: "map_of (t_channels t1) ?key = Some c"
    "receive_published c buf = Some ((word_of_nat (length (concat cs)), a), c', overwrite buf 0 (concat cs))" "c_id c' = ch"
    using collecting_complete [OF t1(2) ps js(1) m(2) cs(2,3) small buf] by blast
  have "(word_of_nat (length (concat cs)) :: u32) > 0" using cs(3) small by (simp add: word_less_nat_alt unat_of_nat)
  moreover have "?key \<in> set (e_channel_order env (map fst (t_channels t1)))"
    using ord c(1) by (auto dest: map_of_SomeD intro: rev_image_eqI)
  moreover have "\<forall>k c. k \<noteq> ?key \<longrightarrow> map_of (t_channels t1) k = Some c \<longrightarrow> r_published (c_receiver c) = []"
    using t1(2) unfolding collecting_def by blast
  ultimately obtain t' where "receive_published_keys (e_channel_order env (map fst (t_channels t1))) t1 buf =
      Some (trr_default\<lparr>trr_length := word_of_nat (length (concat cs)), trr_address := a, trr_channel := ucast (c_id c')\<rparr>, t', overwrite buf 0 (concat cs))"
    using receive_published_keys_one [OF c(1,2)] by blast
  then show ?thesis
    using t1(1) c(3) by (simp add: receive_loop_def receive_published_all_channels_def result_of_def trr_default_def)
qed

subsection \<open>The message is sent\<close>

lemma large_message_fragments:
  assumes client: "client_ok u cfd ch cbody n" and msg: "1200 \<le> len" "len \<le> length data" "len \<le> 1022 * 1200"
    and os: "\<forall>net fd dest d. os_send os net fd dest d"
  shows "\<exists>r u' g cs net'. send_to_target os now net u ch \<lparr>tgt_identity_id = 0, tgt_address = na_default\<rparr> data len = Some (r, u', net')
    \<and> sres_error r = 0 \<and> length cs = (len + 1199) div 1200 \<and> concat cs = take len data \<and> (\<forall>x \<in> set cs. length x \<le> 1200)
    \<and> net_out net' = net_out net @ map (\<lambda>j. (cfd, Connected, fragment ch g n cs (n + 1 + j))) [0..<length cs] \<and> net_in net' = net_in net \<and> net_next net' = net_next net"
proof -
  obtain uc where uc: "get_channel u na_default ch = Some uc" using client unfolding client_ok_def get_channel_def by blast
  let ?g = "fst (get_next_group (c_frag uc))" and ?m = "(len + 1199) div 1200"
  have u: "can_send u" "ch \<noteq> 0" "ts_socket (t_socket u) = Some cfd" "t_inv u" "fresh uc"
    and cur: "sm_current_sequence (c_send_buffers uc) = seq_of n"
    using client uc unfolding client_ok_def can_send_def identity_is_linked_def sent_up_to_def get_channel_def by auto
  have id: "c_id uc = ch" using t_wf_channel(4) [of u na_default ch uc] u(4) uc by (simp add: get_channel_def)
  have wf: "sm_wf (c_send_buffers uc)" using u(5) by (auto simp: fresh_def armed_def resendable_def)
  obtain r u' qs where qs: "tachyon_send_reliable os now net u ch na_default data len =
      Some (r, u', fold (sent os cfd Connected) qs net)" "sres_error r = 0" "length qs = ?m" "concat (map (drop 10) qs) = take len data"
    and at: "\<And>j. j < ?m \<Longrightarrow> length (qs ! j) \<le> 1210 \<and> qs ! j = frag_bytes (fragment_header ch ?g n ?m (n + 1 + j)) @ drop 10 (qs ! j)"
    using large_message_sent [OF u(1) msg(1,3,2) u(2,3) uc wf cur, of os now net] unfolding fragment_header_def id by auto
  define cs where "cs = map (drop 10) qs"
  have cs: "length cs = ?m" "concat cs = take len data" using qs(3,4) by (simp_all add: cs_def)
  have parts: "\<forall>x \<in> set cs. length x \<le> 1200" using at qs(3) by (fastforce simp: cs_def in_set_conv_nth)
  let ?net = "fold (sent os cfd Connected) qs net"
  have "qs ! j = fragment ch ?g n cs (n + 1 + j)" if "j < length qs" for j
    using at [of j] that qs(3) by (simp add: fragment_def cs_def)
  then have fr: "qs = map (\<lambda>j. fragment ch ?g n cs (n + 1 + j)) [0..<length cs]" using qs(3) cs(1) by (intro nth_equalityI) simp_all
  have "net_out ?net = net_out net @ map (\<lambda>p. (cfd, Connected, p)) qs" using fold_sent(1) [of os cfd Connected "\<lambda>p. p" qs net] os by simp
  moreover have "map (\<lambda>p. (cfd, Connected, p)) qs = map (\<lambda>j. (cfd, Connected, fragment ch ?g n cs (n + 1 + j))) [0..<length cs]"
    by (subst fr) (simp add: comp_def)
  ultimately have out: "net_out ?net = net_out net @ map (\<lambda>j. (cfd, Connected, fragment ch ?g n cs (n + 1 + j))) [0..<length cs]" by simp
  have "net_in ?net = net_in net" "net_next ?net = net_next net"
    by (induction qs arbitrary: net) simp_all
  moreover have "send_to_target os now net u ch \<lparr>tgt_identity_id = 0, tgt_address = na_default\<rparr> data len = Some (r, u', ?net)"
    using qs(1) u(2) by (simp add: send_to_target_def word_neq_0_conv)
  ultimately show ?thesis using qs(2) cs parts out by blast
qed

subsection \<open>Properties\<close>

text \<open>
  C4. A large message arrives whole: a client that has sent n numbers on a channel sends a message of
  1200 bytes or more, and every 1200 bytes of it go on the wire as one datagram. When these reach, in
  any order and with repetitions but at most a hundred datagrams, the socket of a server that has all
  n numbers and has handed out what it has, one call of \<open>receive_loop\<close> gives the server's application
  exactly the message, with the client's address and the channel. The fragments must fit in the
  window of the channel.
\<close>

theorem large_message_delivered:
  assumes client: "client_ok u cfd ch cbody n"
    and msg: "1200 \<le> len" "len \<le> length data" "m = (len + 1199) div 1200"
    and server: "serving t body ps ms" "unpublished t" "ts_socket (t_socket t) = Some sfd" "1210 \<le> length (t_socket_receive_buffer t)"
    and stream: "set (numbers (a, ch) ps) = {1..n}" "a = from_socket_addr src"
    and cfg: "map_of (t_channel_config t) ch = Some cfg" "m < unat (cc_receive_window_size cfg)"
    and idn: "tcf_use_identity (t_config t) = 1 \<longrightarrow> id_id (get_connection_identity t a) \<noteq> 0"
    and env: "fair_env env" and js: "set js = {..<m}" "length js \<le> 100" and buf: "len \<le> length buf"
  shows "\<exists>r u' net'. send_to_target (e_os env) now net u ch \<lparr>tgt_identity_id = 0, tgt_address = na_default\<rparr> data len = Some (r, u', net')
    \<and> sres_error r = 0 \<and> length (net_out net') = length (net_out net) + m
    \<and> (\<forall>snet. net_in snet sfd = map (\<lambda>j. Some (src, snd (snd (net_out net' ! (length (net_out net) + j))))) js \<longrightarrow>
        (\<exists>t' snet'. receive_loop env now' snet t buf = Some (result_of (a, ch) (take len data), t', snet', overwrite buf 0 (take len data))
          \<and> net_in snet' sfd = []))"
proof -
  have W: "unat (cc_receive_window_size cfg) \<le> 1022" using server(1) cfg(1) unfolding serving_def by blast
  then have big: "len \<le> 1022 * 1200" using msg(1,3) cfg(2) by simp
  have os: "\<forall>net fd dest d. os_send (e_os env) net fd dest d" using env by (simp add: fair_env_def)
  obtain r u' g cs net' where snd: "send_to_target (e_os env) now net u ch \<lparr>tgt_identity_id = 0, tgt_address = na_default\<rparr> data len = Some (r, u', net')"
    "sres_error r = 0" and cs: "length cs = m" "concat cs = take len data" "\<forall>x \<in> set cs. length x \<le> 1200"
    and out: "net_out net' = net_out net @ map (\<lambda>j. (cfd, Connected, fragment ch g n cs (n + 1 + j))) [0..<length cs]"
    using large_message_fragments [OF client msg(1,2) big os, of now net] unfolding msg(3) [symmetric] by blast
  have recv: "\<exists>t' snet'. receive_loop env now' snet t buf = Some (result_of (a, ch) (take len data), t', snet', overwrite buf 0 (take len data))
      \<and> net_in snet' sfd = []"
    if q: "net_in snet sfd = map (\<lambda>j. Some (src, snd (snd (net_out net' ! (length (net_out net) + j))))) js" for snet
  proof -
    have "net_in snet sfd = map (\<lambda>k. Some (src, fragment ch g n cs k)) (map (\<lambda>j. n + 1 + j) js)"
      unfolding q map_map using js(1) cs(1) by (intro map_cong) (auto simp: out)
    moreover have "set (map (\<lambda>j. n + 1 + j) js) = {n + 1..n + length cs}"
    proof -
      have "(\<lambda>j. n + 1 + j) ` {..<m} = {n + 1..n + m}" using image_add_atLeastLessThan [of "n + 1" 0 m] by (auto simp: lessThan_atLeast0)
      then show ?thesis using js(1) cs(1) by simp
    qed
    moreover have "concat cs \<noteq> []" "length (concat cs) \<le> length buf" unfolding cs(2) using msg(1,2) buf by auto
    ultimately show ?thesis
      using large_message_received [OF server cfg(1) idn stream, of snet g cs "map (\<lambda>j. n + 1 + j) js" buf env now'] js(2) cs cfg(2) env
      by (auto simp: fair_env_def)
  qed
  have "length (net_out net') = length (net_out net) + m" unfolding out using cs(1) by simp
  with snd recv show ?thesis by blast
qed

theorem large_message_delivered_witness:
  "\<exists>r u' net' snet t' snet'. send_to_target (e_os sample_env) 0 net_empty sample_client 1 \<lparr>tgt_identity_id = 0, tgt_address = na_default\<rparr>
        (replicate 3000 7) 2500 = Some (r, u', net')
    \<and> net_in snet 0 = map (\<lambda>j. Some (sample_peer, snd (snd (net_out net' ! j)))) [2, 0, 1, 0]
    \<and> receive_loop sample_env 7 snet (sample_server 0) (replicate 4096 0) =
        Some (result_of (na_localhost 100, 1) (take 2500 (replicate 3000 7)), t', snet', overwrite (replicate 4096 0) 0 (take 2500 (replicate 3000 7)))"
proof -
  have a: "na_localhost 100 = from_socket_addr sample_peer" by (simp add: na_localhost_def)
  have cl: "client_ok sample_client 1 1 (\<lambda>k. [of_nat k]) 0" using sample_sending [unfolded sending_def] by blast
  have "\<exists>r u' net'. send_to_target (e_os sample_env) 0 net_empty sample_client 1 \<lparr>tgt_identity_id = 0, tgt_address = na_default\<rparr>
        (replicate 3000 7) 2500 = Some (r, u', net')
    \<and> sres_error r = 0 \<and> length (net_out net') = length (net_out net_empty) + 3
    \<and> (\<forall>snet. net_in snet 0 = map (\<lambda>j. Some (sample_peer, snd (snd (net_out net' ! (length (net_out net_empty) + j))))) [2, 0, 1, 0] \<longrightarrow>
        (\<exists>t' snet'. receive_loop sample_env 7 snet (sample_server 0) (replicate 4096 0) =
            Some (result_of (na_localhost 100, 1) (take 2500 (replicate 3000 7)), t', snet', overwrite (replicate 4096 0) 0 (take 2500 (replicate 3000 7)))
          \<and> net_in snet' 0 = []))"
    by (rule large_message_delivered [OF cl _ _ _ sample_serving [of numbered] _ _ _ _ a])
      (auto simp: sample_fair get_channel_def cc_default_ordered_def)
  then obtain r u' net' where s: "send_to_target (e_os sample_env) 0 net_empty sample_client 1 \<lparr>tgt_identity_id = 0, tgt_address = na_default\<rparr>
        (replicate 3000 7) 2500 = Some (r, u', net')"
    and d: "\<And>snet. net_in snet 0 = map (\<lambda>j. Some (sample_peer, snd (snd (net_out net' ! (length (net_out net_empty) + j))))) [2, 0, 1, 0] \<Longrightarrow>
        (\<exists>t' snet'. receive_loop sample_env 7 snet (sample_server 0) (replicate 4096 0) =
            Some (result_of (na_localhost 100, 1) (take 2500 (replicate 3000 7)), t', snet', overwrite (replicate 4096 0) 0 (take 2500 (replicate 3000 7))))"
    by blast
  let ?snet = "net_empty\<lparr>net_in := (\<lambda>_. map (\<lambda>j. Some (sample_peer, snd (snd (net_out net' ! j)))) [2, 0, 1, 0])\<rparr>"
  have q: "net_in ?snet 0 = map (\<lambda>j. Some (sample_peer, snd (snd (net_out net' ! j)))) [2, 0, 1, 0]"
    "net_in ?snet 0 = map (\<lambda>j. Some (sample_peer, snd (snd (net_out net' ! (length (net_out net_empty) + j))))) [2, 0, 1, 0]"
    by (simp_all add: net_empty_def)
  from d [OF q(2)] s q(1) show ?thesis by blast
qed

end
