(* ===== verification/Pool_Routing.thy ===== *)
theory Pool_Routing
  imports Pool_Out_Buffers
begin

text \<open>
  Which server of a pool a message is sent on (\<^verbatim>\<open>src/src/tachyon/pool.rs\<close>,
  \<^verbatim>\<open>src/src/tachyon/pool_unreliable_sender.rs\<close>).
\<close>

subsection \<open>Maps built by a loop\<close>

lemma map_of_fold_index:
  "map_of (fold (\<lambda>x m. if P x then AList.update (f x) x m else m) xs m) k =
     (case find (\<lambda>x. P x \<and> f x = k) (rev xs) of Some x \<Rightarrow> Some x | None \<Rightarrow> map_of m k)"
  by (induction xs rule: rev_induct) (simp_all add: update_conv')

lemma fold_index_Some:
  assumes "map_of (fold (\<lambda>x m. if P x then AList.update (f x) x m else m) xs []) k = Some x"
  shows "x \<in> set xs \<and> P x \<and> f x = k"
  using assms by (auto simp: map_of_fold_index find_Some_iff in_set_conv_nth rev_nth split: option.splits)
    (metis diff_less length_greater_0_conv length_pos_if_in_set less_nat_zero_code nth_mem zero_less_Suc)

lemma fold_index_None:
  "map_of (fold (\<lambda>x m. if P x then AList.update (f x) x m else m) xs []) k = None \<longleftrightarrow> (\<forall>x \<in> set xs. P x \<longrightarrow> f x \<noteq> k)"
proof (cases "find (\<lambda>x. P x \<and> f x = k) (rev xs)")
  case (Some x)
  then have "x \<in> set xs \<and> P x \<and> f x = k" by (auto simp: find_Some_iff) (metis length_rev nth_mem set_rev)
  with Some show ?thesis by (auto simp: map_of_fold_index)
next
  case None
  then have "\<forall>x \<in> set xs. P x \<longrightarrow> f x \<noteq> k" by (auto simp: find_None_iff)
  with None show ?thesis by (simp add: map_of_fold_index)
qed

subsection \<open>Holders of a target\<close>

text \<open>The servers are stored under their numbers, and each is well-formed.\<close>

definition servers_wf :: "('rq, 'rb, 'ob, 'su) pool \<Rightarrow> bool" where
  "servers_wf p \<longleftrightarrow> distinct (map fst (p_servers p)) \<and>
     (\<forall>i s. map_of (p_servers p) i = Some s \<longrightarrow> t_id s = i \<and> t_wf s)"

text \<open>A server with a connection that the target means, and the address of that connection.\<close>

definition target_holder :: "('rq, 'rb, 'ob, 'su) pool \<Rightarrow> send_target \<Rightarrow> u16 \<Rightarrow> tachyon \<Rightarrow> network_address \<Rightarrow> bool" where
  "target_holder p target i s a \<longleftrightarrow> map_of (p_servers p) i = Some s \<and>
     (\<exists>conn. map_of (t_connections s) a = Some conn \<and>
        (if tgt_identity_id target > 0 then id_id (conn_identity conn) = tgt_identity_id target else a = tgt_address target))"

definition all_connections :: "('rq, 'rb, 'ob, 'su) pool_env \<Rightarrow> ('rq, 'rb, 'ob, 'su) pool \<Rightarrow> connection list" where
  "all_connections pe p =
     concat (map (\<lambda>(_, server). map snd (pe_connection_order pe (t_connections server))) (pe_server_order pe (p_servers p)))"

abbreviation orders_complete :: "('rq, 'rb, 'ob, 'su) pool_env \<Rightarrow> bool" where
  "orders_complete pe \<equiv> (\<forall>xs. mset (pe_server_order pe xs) = mset xs) \<and> (\<forall>xs. mset (pe_connection_order pe xs) = mset xs)"

lemma build_connection_maps_index:
  "p_connections_by_address (build_connection_maps pe p) =
     fold (\<lambda>c m. if True then AList.update (conn_address c) c m else m) (all_connections pe p) []"
  "p_connections_by_identity (build_connection_maps pe p) =
     fold (\<lambda>c m. if id_id (conn_identity c) > 0 then AList.update (id_id (conn_identity c)) c m else m) (all_connections pe p) []"
  by (simp_all add: build_connection_maps_def all_connections_def Let_def)

lemma server_connection:
  assumes "servers_wf p" "map_of (p_servers p) i = Some s" "map_of (t_connections s) a = Some conn"
  shows "conn_tachyon_id conn = i \<and> conn_address conn = a"
  using assms by (simp add: servers_wf_def t_wf_def)

lemma server_members:
  assumes "servers_wf p"
  shows "(i, s) \<in> set (p_servers p) \<and> (a, conn) \<in> set (t_connections s) \<longleftrightarrow>
    map_of (p_servers p) i = Some s \<and> map_of (t_connections s) a = Some conn"
proof -
  have "(i, s) \<in> set (p_servers p) \<longleftrightarrow> map_of (p_servers p) i = Some s" using assms by (simp add: servers_wf_def)
  moreover have "distinct (map fst (t_connections s))" if "map_of (p_servers p) i = Some s"
    using assms that by (simp only: servers_wf_def t_wf_def)
  ultimately show ?thesis by auto
qed

lemma all_connections_iff:
  assumes "servers_wf p" "orders_complete pe"
  shows "conn \<in> set (all_connections pe p) \<longleftrightarrow>
    (\<exists>s. map_of (p_servers p) (conn_tachyon_id conn) = Some s \<and> map_of (t_connections s) (conn_address conn) = Some conn)"
proof -
  have ord: "set (pe_server_order pe xs) = set xs" "set (pe_connection_order pe ys) = set ys" for xs ys
    using assms(2) by (metis mset_eq_setD)+
  have "conn \<in> set (all_connections pe p) \<longleftrightarrow> (\<exists>i s a. (i, s) \<in> set (p_servers p) \<and> (a, conn) \<in> set (t_connections s))"
    by (force simp: ord all_connections_def)
  also have "\<dots> \<longleftrightarrow> (\<exists>i s a. map_of (p_servers p) i = Some s \<and> map_of (t_connections s) a = Some conn)"
    using server_members [OF assms(1)] by blast
  also have "\<dots> \<longleftrightarrow> (\<exists>s. map_of (p_servers p) (conn_tachyon_id conn) = Some s \<and> map_of (t_connections s) (conn_address conn) = Some conn)"
  proof
    assume "\<exists>i s a. map_of (p_servers p) i = Some s \<and> map_of (t_connections s) a = Some conn"
    then obtain i s a where held: "map_of (p_servers p) i = Some s" "map_of (t_connections s) a = Some conn" by blast
    then show "\<exists>s. map_of (p_servers p) (conn_tachyon_id conn) = Some s \<and> map_of (t_connections s) (conn_address conn) = Some conn"
      using server_connection [OF assms(1) held] by simp
  qed blast
  finally show ?thesis .
qed

lemma known_address:
  assumes "servers_wf p" "orders_complete pe" "map_of (p_connections_by_address (build_connection_maps pe p)) a = Some conn"
  shows "conn_address conn = a \<and> (\<exists>s. map_of (p_servers p) (conn_tachyon_id conn) = Some s \<and> map_of (t_connections s) a = Some conn)"
  using fold_index_Some [OF assms(3) [unfolded build_connection_maps_index]] all_connections_iff [OF assms(1,2), of conn] by auto

lemma known_identity:
  assumes "servers_wf p" "orders_complete pe" "map_of (p_connections_by_identity (build_connection_maps pe p)) i = Some conn"
  shows "id_id (conn_identity conn) = i \<and>
    (\<exists>s. map_of (p_servers p) (conn_tachyon_id conn) = Some s \<and> map_of (t_connections s) (conn_address conn) = Some conn)"
  using fold_index_Some [OF assms(3) [unfolded build_connection_maps_index]] all_connections_iff [OF assms(1,2), of conn] by auto

lemma holder_connection:
  assumes "servers_wf p" "orders_complete pe" "map_of (p_servers p) i = Some s" "map_of (t_connections s) a = Some conn"
  shows "conn \<in> set (all_connections pe p) \<and> conn_address conn = a"
  using all_connections_iff [OF assms(1,2), of conn] server_connection [OF assms(1,3,4)] assms(3,4) by simp

lemma unknown_address:
  assumes "servers_wf p" "orders_complete pe" "map_of (p_connections_by_address (build_connection_maps pe p)) a = None"
    "map_of (p_servers p) i = Some s"
  shows "map_of (t_connections s) a = None"
  using assms(3) [unfolded build_connection_maps_index fold_index_None] holder_connection [OF assms(1,2,4)]
  by (cases "map_of (t_connections s) a") auto

lemma unknown_identity:
  assumes "servers_wf p" "orders_complete pe" "map_of (p_connections_by_identity (build_connection_maps pe p)) k = None" "k > 0"
    "map_of (p_servers p) i = Some s" "map_of (t_connections s) a = Some conn"
  shows "id_id (conn_identity conn) \<noteq> k"
  using assms(3) [unfolded build_connection_maps_index fold_index_None] assms(4) holder_connection [OF assms(1,2,5,6)] by auto

lemma build_servers [simp]: "p_servers (build_connection_maps pe p) = p_servers p"
  by (simp add: build_connection_maps_def Let_def)

subsection \<open>The unreliable senders\<close>

lemma pus_build_servers_eq:
  assumes "pus_build_servers os net xs senders = Some senders'" "distinct (map fst xs)" "\<forall>(i, s) \<in> set xs. t_id s = i"
    "\<forall>i \<in> fst ` set xs. map_of senders i = None"
  shows "(\<forall>(i, s) \<in> set xs. create_unreliable_sender os net s = Some (map_of senders' i))
    \<and> (\<forall>i. i \<notin> fst ` set xs \<longrightarrow> map_of senders' i = map_of senders i)"
  using assms
proof (induction xs arbitrary: senders)
  case (Cons x xs)
  obtain i s where x: "x = (i, s)" by (cases x)
  have i: "t_id s = i" "map_of senders i = None" "i \<notin> fst ` set xs" using Cons.prems(2-) x by auto
  obtain r where r: "create_unreliable_sender os net s = Some r"
    and rest: "pus_build_servers os net xs (case r of Some sender \<Rightarrow> AList.update i sender senders | None \<Rightarrow> senders) = Some senders'"
    using Cons.prems(1) i by (auto simp: x elim!: bind_SomeE split: option.splits)
  let ?senders = "case r of Some sender \<Rightarrow> AList.update i sender senders | None \<Rightarrow> senders"
  have m: "map_of ?senders = (map_of senders)(i := r)" using i(2) by (auto simp: update_conv' split: option.split)
  have "\<forall>j \<in> fst ` set xs. map_of ?senders j = None" using Cons.prems(4) i(3) by (auto simp: m x)
  then have "(\<forall>(i, s) \<in> set xs. create_unreliable_sender os net s = Some (map_of senders' i))
      \<and> (\<forall>j. j \<notin> fst ` set xs \<longrightarrow> map_of senders' j = map_of ?senders j)"
    using Cons.prems(2,3) rest by (intro Cons.IH) (simp_all add: x)
  with r i(3) show ?case by (auto simp: x m)
qed simp

lemma pus_build_sender:
  assumes "pus_build pe net u p = Some u'" "servers_wf p" "orders_complete pe" "map_of (p_servers p) i = Some s"
  shows "create_unreliable_sender (e_os (pe_env pe)) net s = Some (map_of (pus_senders u') i)"
proof -
  let ?xs = "pe_server_order pe (p_servers p)"
  have ms: "mset ?xs = mset (p_servers p)" using assms(3) by blast
  then have "set ?xs = set (p_servers p)" "distinct (map fst ?xs)"
    using assms(2) mset_eq_imp_distinct_iff [of "map fst ?xs" "map fst (p_servers p)"] by (auto simp: servers_wf_def dest: mset_eq_setD)
  moreover obtain senders where "pus_build_servers (e_os (pe_env pe)) net ?xs [] = Some senders" "pus_senders u' = senders"
    using assms(1) by (auto simp: pus_build_def Let_def elim!: bind_SomeE)
  moreover have "\<forall>(i, s) \<in> set (p_servers p). t_id s = i" using assms(2) by (auto simp: servers_wf_def)
  ultimately show ?thesis
    using pus_build_servers_eq [of "e_os (pe_env pe)" net ?xs "[]" senders] map_of_SomeD [OF assms(4)] by auto
qed

lemma pus_build_maps:
  assumes "pus_build pe net u p = Some u'"
  shows "pus_address_to_conn_map u' = p_connections_by_address (build_connection_maps pe p)"
    "pus_identity_to_conn_map u' = p_connections_by_identity (build_connection_maps pe p)"
  using assms by (auto simp: pus_build_def Let_def elim!: bind_SomeE)

lemma create_server_wf:
  assumes "servers_wf p" "create_server pe now net p cfg a i = Some (b, p', net')"
  shows "servers_wf p'"
proof -
  have "t_wf (t\<lparr>t_id := i\<rparr>)" if "tachyon_bind os net (tachyon_create now cfg) a = Some (True, t, net')" for os t net'
    using that by (auto simp: t_wf_def tachyon_bind_def tachyon_create_def create_with_id_def Let_def
        elim!: bind_SomeE case_prod_SomeE split: create_connect_result.splits)
  then show ?thesis
    using assms by (auto simp: create_server_def servers_wf_def Let_def distinct_update update_conv' elim!: bind_SomeE split: if_splits)
qed

subsection \<open>Properties\<close>

text \<open>
  C24. Messages go to the server that knows the peer: after the connection maps are built, a
  send to a target that no server has a connection for sends nothing, and every other send
  is carried out, as it is on a single endpoint, by a server that holds a connection to the
  target, at the address of that connection; a \<open>PoolUnreliableSender\<close> built from the same
  pool picks the same server and address, on a clone of that server's socket.
\<close>

theorem pool_routing:
  assumes wf: "servers_wf p" "orders_complete pe"
    and u: "pus_build pe net0 u0 p = Some u"
  shows "(\<nexists>i s a. target_holder p target i s a)
        \<and> pool_send_to_target os now net (build_connection_maps pe p) channel_id target data len =
            Some (sres_default, build_connection_maps pe p, net)
        \<and> pus_send_to_target os net u target data len = Some (sres_default, u, net)
      \<or> (\<exists>i s a. target_holder p target i s a
        \<and> pool_send_to_target os now net (build_connection_maps pe p) channel_id target data len =
            send_on_server os now net (build_connection_maps pe p) i s channel_id a data (usize_of_i32 len)
        \<and> pus_send_to_target os net u target data len = pus_send_via os net u i a data (usize_of_i32 len)
        \<and> create_unreliable_sender (e_os (pe_env pe)) net0 s = Some (map_of (pus_senders u) i))"
proof (cases "tgt_identity_id target > 0")
  case True
  note defs = pool_send_to_target_def send_to_identity_def pus_send_to_target_def pus_send_to_identity_def pus_build_maps [OF u]
  show ?thesis
  proof (cases "map_of (p_connections_by_identity (build_connection_maps pe p)) (tgt_identity_id target)")
    case None
    with True show ?thesis using unknown_identity [OF wf None True] by (auto simp: defs target_holder_def)
  next
    case (Some conn)
    with True show ?thesis
      using known_identity [OF wf Some] pus_build_sender [OF u wf] by (fastforce simp: defs target_holder_def)
  qed
next
  case False
  note defs = pool_send_to_target_def send_to_address_def pus_send_to_target_def pus_send_to_address_def pus_build_maps [OF u]
  show ?thesis
  proof (cases "map_of (p_connections_by_address (build_connection_maps pe p)) (tgt_address target)")
    case None
    with False show ?thesis using unknown_address [OF wf None] by (auto simp: defs target_holder_def)
  next
    case (Some conn)
    with False show ?thesis
      using known_address [OF wf Some] pus_build_sender [OF u wf] by (fastforce simp: defs target_holder_def)
  qed
qed

theorem pool_routing_witness:
  "\<exists>p u t'. pool_send_to_target os_ideal 0 net_empty (build_connection_maps sample_pool_env p) 0 \<lparr>tgt_identity_id = 0, tgt_address = na_localhost 9\<rparr> [7] 1
       = send_on_server os_ideal 0 net_empty (build_connection_maps sample_pool_env p) 0 t' 0 (na_localhost 9) [7] 1
     \<and> pus_send_to_target os_ideal net_empty u \<lparr>tgt_identity_id = 0, tgt_address = na_localhost 9\<rparr> [7] 1
       = pus_send_via os_ideal net_empty u 0 (na_localhost 9) [7] 1"
proof -
  let ?s = "create_connection 0 (sample_server 0) (na_localhost 9) identity_default" and ?tgt = "\<lparr>tgt_identity_id = 0, tgt_address = na_localhost 9\<rparr>"
  let ?p = "sample_pool\<lparr>p_servers := [(0, ?s)]\<rparr>"
  have "t_connections ?s = [(na_localhost 9, (connection_create (na_localhost 9) 0)\<lparr>conn_identity := identity_default, conn_received_at := time_since_start 0 (sample_server 0)\<rparr>)]"
    by (simp add: create_connection_def create_configured_channels_def fire_connection_event_def Let_def)
  then have wf: "servers_wf ?p" by (simp add: servers_wf_def create_connection_wf connection_create_def)
  have ord: "orders_complete sample_pool_env" by (simp add: sample_pool_env_def)
  obtain u where u: "pus_build sample_pool_env net_empty pus_create ?p = Some u"
    by (simp add: pus_build_def sample_pool_env_def create_unreliable_sender_def clone_socket_def sample_env_def os_ideal_def Let_def)
  have holder: "target_holder ?p ?tgt 0 ?s (na_localhost 9)"
    by (simp add: target_holder_def create_connection_maps)
  have one: "usize_of_i32 1 = 1" by (simp add: usize_of_i32_def)
  obtain i s a where "target_holder ?p ?tgt i s a"
    "pool_send_to_target os_ideal 0 net_empty (build_connection_maps sample_pool_env ?p) 0 ?tgt [7] 1 =
       send_on_server os_ideal 0 net_empty (build_connection_maps sample_pool_env ?p) i s 0 a [7] (usize_of_i32 1)"
    "pus_send_to_target os_ideal net_empty u ?tgt [7] 1 = pus_send_via os_ideal net_empty u i a [7] (usize_of_i32 1)"
    using pool_routing [OF wf ord u, of ?tgt os_ideal 0 net_empty 0 "[7]" 1] holder by blast
  then show ?thesis unfolding one by (auto simp: target_holder_def split: if_splits)
qed

end
