(* ===== verification/Foreign_Interface.thy ===== *)
theory Foreign_Interface
  imports Pool_Routing
begin

text \<open>
  \<^verbatim>\<open>src/src/tachyon/ffi.rs\<close>, \<^verbatim>\<open>src/src/tachyon/pool_ffi.rs\<close>, \<^verbatim>\<open>src/src/tachyon/memory_block.rs\<close> and the
  exported functions of \<^verbatim>\<open>src/src/tachyon/pool_unreliable_sender.rs\<close>: what a host program calls. A handle is a
  number that names a box, 0 is the null pointer; every new box gets a new number. The use of a
  null or freed handle, and of more memory of the host than it has, is undefined behaviour:
  the result is \<open>None\<close>, as for a panic. What a function writes through a pointer of the host
  is part of its result.
\<close>

subsection \<open>Boxes\<close>

type_synonym handle = nat

record ('rq, 'rb, 'ob, 'su) boxes =
  bx_next :: handle
  bx_tachyons :: "handle \<rightharpoonup> tachyon"
  bx_senders :: "handle \<rightharpoonup> unreliable_sender"
  bx_pools :: "handle \<rightharpoonup> ('rq, 'rb, 'ob, 'su) pool"
  bx_workers :: "handle \<Rightarrow> task list"
  bx_pool_senders :: "handle \<rightharpoonup> pool_unreliable_sender"
  bx_blocks :: "handle \<rightharpoonup> bytes"

definition bx_empty :: "('rq, 'rb, 'ob, 'su) boxes" where
  "bx_empty = \<lparr>bx_next = 1, bx_tachyons = Map.empty, bx_senders = Map.empty, bx_pools = Map.empty,
     bx_workers = (\<lambda>_. []), bx_pool_senders = Map.empty, bx_blocks = Map.empty\<rparr>"

abbreviation put_tachyon :: "handle \<Rightarrow> tachyon \<Rightarrow> ('rq, 'rb, 'ob, 'su) boxes \<Rightarrow> ('rq, 'rb, 'ob, 'su) boxes" where
  "put_tachyon h t bx \<equiv> bx\<lparr>bx_tachyons := (bx_tachyons bx)(h \<mapsto> t)\<rparr>"

abbreviation put_pool ::
  "handle \<Rightarrow> ('rq, 'rb, 'ob, 'su) pool \<Rightarrow> ('rq, 'rb, 'ob, 'su) boxes \<Rightarrow> ('rq, 'rb, 'ob, 'su) boxes" where
  "put_pool h p bx \<equiv> bx\<lparr>bx_pools := (bx_pools bx)(h \<mapsto> p)\<rparr>"

text \<open>\<open>slice::from_raw_parts_mut(data, length as usize)\<close> on memory of the host.\<close>

definition host_slice :: "bytes \<Rightarrow> nat \<Rightarrow> bytes option" where
  "host_slice memory len = (if len \<le> length memory then Some (take len memory) else None)"

definition status :: "bool \<Rightarrow> int" where
  "status ok = (if ok then 1 else -1)"

subsection \<open>Endpoints\<close>

definition set_callbacks :: "bool \<Rightarrow> bool \<Rightarrow> tachyon \<Rightarrow> tachyon" where
  "set_callbacks identity_event_callback connection_event_callback tachyon =
     (let tachyon = (if identity_event_callback then tachyon\<lparr>t_identity_event_callback := True\<rparr> else tachyon)
      in if connection_event_callback then tachyon\<lparr>t_connection_event_callback := True\<rparr> else tachyon)"

definition register_callbacks ::
  "('rq, 'rb, 'ob, 'su) boxes \<Rightarrow> handle \<Rightarrow> bool \<Rightarrow> bool \<Rightarrow> ('rq, 'rb, 'ob, 'su) boxes option" where
  "register_callbacks bx tachyon_ptr identity_event_callback connection_event_callback = do {
     tachyon \<leftarrow> bx_tachyons bx tachyon_ptr;
     Some (put_tachyon tachyon_ptr (set_callbacks identity_event_callback connection_event_callback tachyon) bx) }"

definition create_tachyon ::
  "('rq, 'rb, 'ob, 'su) boxes \<Rightarrow> nat \<Rightarrow> tachyon_config \<Rightarrow> handle \<times> ('rq, 'rb, 'ob, 'su) boxes" where
  "create_tachyon bx now config =
     (let tachyon = tachyon_create now config
      in (bx_next bx, put_tachyon (bx_next bx) tachyon (bx\<lparr>bx_next := bx_next bx + 1\<rparr>)))"

definition destroy_tachyon :: "('rq, 'rb, 'ob, 'su) boxes \<Rightarrow> handle \<Rightarrow> ('rq, 'rb, 'ob, 'su) boxes option" where
  "destroy_tachyon bx tachyon =
     (if tachyon \<noteq> 0 then do {
        _ \<leftarrow> bx_tachyons bx tachyon;
        Some (bx\<lparr>bx_tachyons := (bx_tachyons bx)(tachyon := None)\<rparr>) }
      else Some bx)"

definition ffi_bind_socket ::
  "os \<Rightarrow> network \<Rightarrow> ('rq, 'rb, 'ob, 'su) boxes \<Rightarrow> handle \<Rightarrow> network_address \<Rightarrow> (int \<times> ('rq, 'rb, 'ob, 'su) boxes \<times> network) option" where
  "ffi_bind_socket os net bx tachyon_ptr address = do {
     tachyon \<leftarrow> bx_tachyons bx tachyon_ptr;
     (ok, tachyon, net) \<leftarrow> tachyon_bind os net tachyon address;
     Some (status ok, put_tachyon tachyon_ptr tachyon bx, net) }"

definition ffi_connect_socket ::
  "os \<Rightarrow> nat \<Rightarrow> network \<Rightarrow> ('rq, 'rb, 'ob, 'su) boxes \<Rightarrow> handle \<Rightarrow> network_address
     \<Rightarrow> (int \<times> ('rq, 'rb, 'ob, 'su) boxes \<times> network) option" where
  "ffi_connect_socket os now net bx tachyon_ptr address = do {
     tachyon \<leftarrow> bx_tachyons bx tachyon_ptr;
     (ok, tachyon, net) \<leftarrow> tachyon_connect os now net tachyon address;
     Some (status ok, put_tachyon tachyon_ptr tachyon bx, net) }"

definition ffi_configure_channel ::
  "('rq, 'rb, 'ob, 'su) boxes \<Rightarrow> handle \<Rightarrow> u8 \<Rightarrow> channel_config \<Rightarrow> (int \<times> ('rq, 'rb, 'ob, 'su) boxes) option" where
  "ffi_configure_channel bx tachyon_ptr channel_id channel_config = do {
     tachyon \<leftarrow> bx_tachyons bx tachyon_ptr;
     let (res, tachyon) = configure_channel tachyon channel_id channel_config;
     Some (status res, put_tachyon tachyon_ptr tachyon bx) }"

definition ffi_send_to_target ::
  "os \<Rightarrow> nat \<Rightarrow> network \<Rightarrow> ('rq, 'rb, 'ob, 'su) boxes \<Rightarrow> handle \<Rightarrow> u8 \<Rightarrow> send_target \<Rightarrow> bytes \<Rightarrow> 32 word
     \<Rightarrow> (send_result \<times> ('rq, 'rb, 'ob, 'su) boxes \<times> network) option" where
  "ffi_send_to_target os now net bx tachyon_ptr channel target data len = do {
     tachyon \<leftarrow> bx_tachyons bx tachyon_ptr;
     data \<leftarrow> host_slice data (usize_of_i32 len);
     (result, tachyon, net) \<leftarrow> send_to_target os now net tachyon channel target data (usize_of_i32 len);
     Some (result, put_tachyon tachyon_ptr tachyon bx, net) }"

text \<open>The bytes received replace the slice of the host's memory.\<close>

definition ffi_receive ::
  "env \<Rightarrow> nat \<Rightarrow> network \<Rightarrow> ('rq, 'rb, 'ob, 'su) boxes \<Rightarrow> handle \<Rightarrow> bytes \<Rightarrow> u32
     \<Rightarrow> (tachyon_receive_result \<times> bytes \<times> ('rq, 'rb, 'ob, 'su) boxes \<times> network) option" where
  "ffi_receive env now net bx tachyon_ptr data receive_buffer_len = do {
     tachyon \<leftarrow> bx_tachyons bx tachyon_ptr;
     slice \<leftarrow> host_slice data (unat receive_buffer_len);
     (result, tachyon, net, slice) \<leftarrow> receive_loop env now net tachyon slice;
     Some (result, overwrite data 0 slice, put_tachyon tachyon_ptr tachyon bx, net) }"

definition ffi_tachyon_update ::
  "env \<Rightarrow> nat \<Rightarrow> network \<Rightarrow> ('rq, 'rb, 'ob, 'su) boxes \<Rightarrow> handle \<Rightarrow> (('rq, 'rb, 'ob, 'su) boxes \<times> network) option" where
  "ffi_tachyon_update env now net bx tachyon_ptr = do {
     tachyon \<leftarrow> bx_tachyons bx tachyon_ptr;
     (tachyon, net) \<leftarrow> tachyon_update env now net tachyon;
     Some (put_tachyon tachyon_ptr tachyon bx, net) }"

text \<open>The last argument is what the host's memory holds before the call.\<close>

definition tachyon_get_connection ::
  "('rq, 'rb, 'ob, 'su) boxes \<Rightarrow> handle \<Rightarrow> network_address \<Rightarrow> connection \<Rightarrow> connection option" where
  "tachyon_get_connection bx tachyon_ptr address connection = do {
     tachyon \<leftarrow> bx_tachyons bx tachyon_ptr;
     Some (case get_connection tachyon address of Some conn \<Rightarrow> conn | None \<Rightarrow> connection) }"

definition tachyon_get_connection_by_identity ::
  "('rq, 'rb, 'ob, 'su) boxes \<Rightarrow> handle \<Rightarrow> u32 \<Rightarrow> connection \<Rightarrow> connection option" where
  "tachyon_get_connection_by_identity bx tachyon_ptr i connection = do {
     tachyon \<leftarrow> bx_tachyons bx tachyon_ptr;
     Some (case get_connection_by_identity tachyon i of Some conn \<Rightarrow> conn | None \<Rightarrow> connection) }"

definition tachyon_get_config :: "('rq, 'rb, 'ob, 'su) boxes \<Rightarrow> handle \<Rightarrow> (tachyon_config \<times> identity) option" where
  "tachyon_get_config bx tachyon_ptr = do {
     tachyon \<leftarrow> bx_tachyons bx tachyon_ptr;
     Some (t_config tachyon, t_identity tachyon) }"

definition ffi_set_identity ::
  "('rq, 'rb, 'ob, 'su) boxes \<Rightarrow> handle \<Rightarrow> u32 \<Rightarrow> u32 \<Rightarrow> u32 \<Rightarrow> ('rq, 'rb, 'ob, 'su) boxes option" where
  "ffi_set_identity bx tachyon_ptr i session_id on_self = do {
     tachyon \<leftarrow> bx_tachyons bx tachyon_ptr;
     let tachyon = (if on_self = 1
       then tachyon\<lparr>t_identity := (t_identity tachyon)\<lparr>id_id := i, id_session_id := session_id\<rparr>\<rparr>
       else set_identity tachyon i session_id);
     Some (put_tachyon tachyon_ptr tachyon bx) }"

definition get_stats ::
  "('rq, 'rb, 'ob, 'su) boxes \<Rightarrow> handle \<Rightarrow> (tachyon_stats \<times> ('rq, 'rb, 'ob, 'su) boxes) option" where
  "get_stats bx tachyon_ptr = do {
     tachyon \<leftarrow> bx_tachyons bx tachyon_ptr;
     let (combined, tachyon) = get_combined_stats tachyon;
     Some (combined, put_tachyon tachyon_ptr tachyon bx) }"

subsection \<open>Unreliable senders\<close>

definition ffi_create_unreliable_sender ::
  "os \<Rightarrow> network \<Rightarrow> ('rq, 'rb, 'ob, 'su) boxes \<Rightarrow> handle \<Rightarrow> (handle \<times> ('rq, 'rb, 'ob, 'su) boxes) option" where
  "ffi_create_unreliable_sender os net bx tachyon_ptr = do {
     tachyon \<leftarrow> bx_tachyons bx tachyon_ptr;
     r \<leftarrow> create_unreliable_sender os net tachyon;
     Some (case r of
         Some sender \<Rightarrow> (bx_next bx, bx\<lparr>bx_next := bx_next bx + 1, bx_senders := (bx_senders bx)(bx_next bx \<mapsto> sender)\<rparr>)
       | None \<Rightarrow> (0, bx)) }"

definition destroy_unreliable_sender :: "('rq, 'rb, 'ob, 'su) boxes \<Rightarrow> handle \<Rightarrow> ('rq, 'rb, 'ob, 'su) boxes option" where
  "destroy_unreliable_sender bx sender_ptr =
     (if sender_ptr \<noteq> 0 then do {
        _ \<leftarrow> bx_senders bx sender_ptr;
        Some (bx\<lparr>bx_senders := (bx_senders bx)(sender_ptr := None)\<rparr>) }
      else Some bx)"

definition unreliable_sender_send ::
  "os \<Rightarrow> network \<Rightarrow> ('rq, 'rb, 'ob, 'su) boxes \<Rightarrow> handle \<Rightarrow> network_address \<Rightarrow> bytes \<Rightarrow> 32 word
     \<Rightarrow> (send_result \<times> ('rq, 'rb, 'ob, 'su) boxes \<times> network) option" where
  "unreliable_sender_send os net bx sender_ptr address data len = do {
     sender \<leftarrow> bx_senders bx sender_ptr;
     data \<leftarrow> host_slice data (usize_of_i32 len);
     (result, sender, net) \<leftarrow> usnd_send os net sender address data (usize_of_i32 len);
     Some (result, bx\<lparr>bx_senders := (bx_senders bx)(sender_ptr \<mapsto> sender)\<rparr>, net) }"

subsection \<open>Pools\<close>

definition ffi_pool_create ::
  "('rq, 'rb, 'ob, 'su) pool_env \<Rightarrow> ('rq, 'rb, 'ob, 'su) boxes \<Rightarrow> u8 \<Rightarrow> u32 \<Rightarrow> u32 \<Rightarrow> handle \<times> ('rq, 'rb, 'ob, 'su) boxes" where
  "ffi_pool_create pe bx max_servers receive_buffer_len out_buffer_len =
     (let p = pool_create pe max_servers receive_buffer_len out_buffer_len
      in (bx_next bx, put_pool (bx_next bx) p (bx\<lparr>bx_next := bx_next bx + 1, bx_workers := (bx_workers bx)(bx_next bx := [])\<rparr>)))"

definition pool_destroy :: "('rq, 'rb, 'ob, 'su) boxes \<Rightarrow> handle \<Rightarrow> ('rq, 'rb, 'ob, 'su) boxes option" where
  "pool_destroy bx h =
     (if h \<noteq> 0 then do {
        _ \<leftarrow> bx_pools bx h;
        Some (bx\<lparr>bx_pools := (bx_pools bx)(h := None)\<rparr>) }
      else Some bx)"

definition pool_create_server ::
  "('rq, 'rb, 'ob, 'su) pool_env \<Rightarrow> nat \<Rightarrow> network \<Rightarrow> ('rq, 'rb, 'ob, 'su) boxes \<Rightarrow> handle \<Rightarrow> tachyon_config \<Rightarrow> network_address \<Rightarrow> u16
     \<Rightarrow> (int \<times> ('rq, 'rb, 'ob, 'su) boxes \<times> network) option" where
  "pool_create_server pe now net bx pool_ptr config address i = do {
     p \<leftarrow> bx_pools bx pool_ptr;
     (ok, p, net) \<leftarrow> create_server pe now net p config address i;
     Some (status ok, put_pool pool_ptr p bx, net) }"

definition pool_configure_channel ::
  "('rq, 'rb, 'ob, 'su) boxes \<Rightarrow> handle \<Rightarrow> u16 \<Rightarrow> u8 \<Rightarrow> channel_config \<Rightarrow> (int \<times> ('rq, 'rb, 'ob, 'su) boxes) option" where
  "pool_configure_channel bx pool_ptr server_id channel_id channel_config = do {
     p \<leftarrow> bx_pools bx pool_ptr;
     case get_server p server_id of
       Some tachyon \<Rightarrow>
         (let (res, tachyon) = configure_channel tachyon channel_id channel_config
          in Some (status res, put_pool pool_ptr (p\<lparr>p_servers := AList.update server_id tachyon (p_servers p)\<rparr>) bx))
     | None \<Rightarrow> Some (-1, bx) }"

definition pool_get_available ::
  "('rq, 'rb, 'ob, 'su) pool_env \<Rightarrow> ('rq, 'rb, 'ob, 'su) boxes \<Rightarrow> handle \<Rightarrow> pool_server_ref \<Rightarrow> (int \<times> pool_server_ref) option" where
  "pool_get_available pe bx pool_ptr pool_ref_ptr = do {
     p \<leftarrow> bx_pools bx pool_ptr;
     Some (case get_available_server pe p of Some pool_ref \<Rightarrow> (1, pool_ref) | None \<Rightarrow> (-1, pool_ref_ptr)) }"

definition pool_get_server_having_connection ::
  "('rq, 'rb, 'ob, 'su) boxes \<Rightarrow> handle \<Rightarrow> network_address \<Rightarrow> u16 option" where
  "pool_get_server_having_connection bx pool_ptr address = do {
     p \<leftarrow> bx_pools bx pool_ptr;
     Some (get_server_having_connection p address) }"

definition pool_get_server_having_identity :: "('rq, 'rb, 'ob, 'su) boxes \<Rightarrow> handle \<Rightarrow> u32 \<Rightarrow> u16 option" where
  "pool_get_server_having_identity bx pool_ptr i = do {
     p \<leftarrow> bx_pools bx pool_ptr;
     Some (get_server_having_identity p i) }"

definition ffi_pool_set_identity ::
  "('rq, 'rb, 'ob, 'su) boxes \<Rightarrow> handle \<Rightarrow> u16 \<Rightarrow> u32 \<Rightarrow> u32 \<Rightarrow> u32 \<Rightarrow> ('rq, 'rb, 'ob, 'su) boxes option" where
  "ffi_pool_set_identity bx pool_ptr server_id i session_id on_self = do {
     p \<leftarrow> bx_pools bx pool_ptr;
     Some (put_pool pool_ptr (pool_set_identity p server_id i session_id on_self) bx) }"

fun update_servers ::
  "env \<Rightarrow> nat \<Rightarrow> u16 list \<Rightarrow> (u16 \<times> tachyon) list \<Rightarrow> network \<Rightarrow> ((u16 \<times> tachyon) list \<times> network) option" where
  "update_servers env now [] servers net = Some (servers, net)"
| "update_servers env now (i # rest) servers net =
     (case map_of servers i of
        Some server \<Rightarrow> do {
          (server, net) \<leftarrow> tachyon_update env now net server;
          update_servers env now rest (AList.update i server servers) net }
      | None \<Rightarrow> update_servers env now rest servers net)"

definition pool_update_servers ::
  "('rq, 'rb, 'ob, 'su) pool_env \<Rightarrow> nat \<Rightarrow> network \<Rightarrow> ('rq, 'rb, 'ob, 'su) boxes \<Rightarrow> handle
     \<Rightarrow> (('rq, 'rb, 'ob, 'su) boxes \<times> network) option" where
  "pool_update_servers pe now net bx pool_ptr = do {
     p \<leftarrow> bx_pools bx pool_ptr;
     (servers, net) \<leftarrow> update_servers (pe_env pe) now (map fst (pe_server_order pe (p_servers p))) (p_servers p) net;
     Some (put_pool pool_ptr (build_connection_maps pe (p\<lparr>p_servers := servers\<rparr>)) bx, net) }"

definition pool_register_callbacks ::
  "('rq, 'rb, 'ob, 'su) boxes \<Rightarrow> handle \<Rightarrow> bool \<Rightarrow> bool \<Rightarrow> ('rq, 'rb, 'ob, 'su) boxes option" where
  "pool_register_callbacks bx pool_ptr identity_event_callback connection_event_callback = do {
     p \<leftarrow> bx_pools bx pool_ptr;
     Some (put_pool pool_ptr (p\<lparr>p_servers :=
       map (\<lambda>(i, server). (i, set_callbacks identity_event_callback connection_event_callback server)) (p_servers p)\<rparr>) bx) }"

definition pool_get_next_out_buffer ::
  "('rq, 'rb, 'ob, 'su) pool_env \<Rightarrow> ('rq, 'rb, 'ob, 'su) boxes \<Rightarrow> handle \<Rightarrow> bytes
     \<Rightarrow> (out_buffer_counts \<times> bytes \<times> ('rq, 'rb, 'ob, 'su) boxes) option" where
  "pool_get_next_out_buffer pe bx pool_ptr receive_buffer_ptr = do {
     p \<leftarrow> bx_pools bx pool_ptr;
     slice \<leftarrow> host_slice receive_buffer_ptr (unat (p_receive_buffer_len p));
     (res, p, slice) \<leftarrow> get_next_out_buffer pe p slice;
     Some (res, overwrite receive_buffer_ptr 0 slice, put_pool pool_ptr p bx) }"

text \<open>The workers that \<open>receive\<close> spawns run beside the host; \<open>finish_receive\<close> is the part after the wait for them.\<close>

definition ffi_pool_receive ::
  "('rq, 'rb, 'ob, 'su) pool_env \<Rightarrow> ('rq, 'rb, 'ob, 'su) boxes \<Rightarrow> handle \<Rightarrow> (int \<times> ('rq, 'rb, 'ob, 'su) boxes) option" where
  "ffi_pool_receive pe bx pool_ptr = do {
     p \<leftarrow> bx_pools bx pool_ptr;
     let (ok, p, workers) = pool_receive pe p;
     Some (status ok, (put_pool pool_ptr p bx)\<lparr>bx_workers := (bx_workers bx)(pool_ptr := bx_workers bx pool_ptr @ workers)\<rparr>) }"

definition pool_finish_receive ::
  "('rq, 'rb, 'ob, 'su) pool_env \<Rightarrow> ('rq, 'rb, 'ob, 'su) boxes \<Rightarrow> handle \<Rightarrow> (nat \<times> ('rq, 'rb, 'ob, 'su) boxes) option" where
  "pool_finish_receive pe bx pool_ptr = do {
     p \<leftarrow> bx_pools bx pool_ptr;
     let (result, p) = finish_receive pe p;
     Some (snd result, put_pool pool_ptr p bx) }"

definition pool_send_to ::
  "os \<Rightarrow> nat \<Rightarrow> network \<Rightarrow> ('rq, 'rb, 'ob, 'su) boxes \<Rightarrow> handle \<Rightarrow> u8 \<Rightarrow> send_target \<Rightarrow> bytes \<Rightarrow> 32 word
     \<Rightarrow> (send_result \<times> ('rq, 'rb, 'ob, 'su) boxes \<times> network) option" where
  "pool_send_to os now net bx pool_ptr channel target data len = do {
     p \<leftarrow> bx_pools bx pool_ptr;
     data \<leftarrow> host_slice data (usize_of_i32 len);
     (result, p, net) \<leftarrow> pool_send_to_target os now net p channel target data len;
     Some (result, put_pool pool_ptr p bx, net) }"

subsection \<open>Unreliable senders of a pool\<close>

definition pool_unreliable_sender_create ::
  "('rq, 'rb, 'ob, 'su) pool_env \<Rightarrow> network \<Rightarrow> ('rq, 'rb, 'ob, 'su) boxes \<Rightarrow> handle \<Rightarrow> (handle \<times> ('rq, 'rb, 'ob, 'su) boxes) option" where
  "pool_unreliable_sender_create pe net bx pool_ptr = do {
     p \<leftarrow> bx_pools bx pool_ptr;
     sender \<leftarrow> pus_build pe net pus_create p;
     Some (bx_next bx, bx\<lparr>bx_next := bx_next bx + 1, bx_pool_senders := (bx_pool_senders bx)(bx_next bx \<mapsto> sender)\<rparr>) }"

definition pool_unreliable_sender_destroy :: "('rq, 'rb, 'ob, 'su) boxes \<Rightarrow> handle \<Rightarrow> ('rq, 'rb, 'ob, 'su) boxes option" where
  "pool_unreliable_sender_destroy bx h =
     (if h \<noteq> 0 then do {
        _ \<leftarrow> bx_pool_senders bx h;
        Some (bx\<lparr>bx_pool_senders := (bx_pool_senders bx)(h := None)\<rparr>) }
      else Some bx)"

definition pool_unreliable_sender_build ::
  "('rq, 'rb, 'ob, 'su) pool_env \<Rightarrow> network \<Rightarrow> ('rq, 'rb, 'ob, 'su) boxes \<Rightarrow> handle \<Rightarrow> handle \<Rightarrow> ('rq, 'rb, 'ob, 'su) boxes option" where
  "pool_unreliable_sender_build pe net bx pool_ptr sender_ptr = do {
     p \<leftarrow> bx_pools bx pool_ptr;
     sender \<leftarrow> bx_pool_senders bx sender_ptr;
     sender \<leftarrow> pus_build pe net sender p;
     Some (bx\<lparr>bx_pool_senders := (bx_pool_senders bx)(sender_ptr \<mapsto> sender)\<rparr>) }"

definition pool_unreliable_sender_send ::
  "os \<Rightarrow> network \<Rightarrow> ('rq, 'rb, 'ob, 'su) boxes \<Rightarrow> handle \<Rightarrow> send_target \<Rightarrow> bytes \<Rightarrow> 32 word
     \<Rightarrow> (send_result \<times> ('rq, 'rb, 'ob, 'su) boxes \<times> network) option" where
  "pool_unreliable_sender_send os net bx sender_ptr target data len = do {
     sender \<leftarrow> bx_pool_senders bx sender_ptr;
     data \<leftarrow> host_slice data (usize_of_i32 len);
     (result, sender, net) \<leftarrow> pus_send_to_target os net sender target data len;
     Some (result, bx\<lparr>bx_pool_senders := (bx_pool_senders bx)(sender_ptr \<mapsto> sender)\<rparr>, net) }"

subsection \<open>Memory blocks\<close>

record memory_block =
  mb_memory :: handle
  mb_length :: u32

text \<open>\<open>Layout::array::<u8>\<close> fails above the largest \<open>isize\<close>.\<close>

definition layout_ok :: "u32 \<Rightarrow> bool" where
  "layout_ok len \<longleftrightarrow> unat len \<le> 2 ^ 63 - 1"

text \<open>
  \<open>alloc_zeroed\<close> returns null when the system has no memory, an argument; a layout of size zero is
  undefined behaviour. So is \<open>dealloc\<close> of anything but a live block with the layout it was
  allocated with.
\<close>

definition mb_allocate ::
  "bool \<Rightarrow> ('rq, 'rb, 'ob, 'su) boxes \<Rightarrow> u32 \<Rightarrow> (memory_block option \<times> ('rq, 'rb, 'ob, 'su) boxes) option" where
  "mb_allocate available bx len =
     (if layout_ok len then
        if len = 0 then None
        else if available then Some (Some \<lparr>mb_memory = bx_next bx, mb_length = len\<rparr>,
          bx\<lparr>bx_next := bx_next bx + 1, bx_blocks := (bx_blocks bx)(bx_next bx \<mapsto> replicate (unat len) 0)\<rparr>)
        else Some (Some \<lparr>mb_memory = 0, mb_length = len\<rparr>, bx)
      else Some (None, bx))"

definition mb_free :: "('rq, 'rb, 'ob, 'su) boxes \<Rightarrow> memory_block \<Rightarrow> (int \<times> ('rq, 'rb, 'ob, 'su) boxes) option" where
  "mb_free bx block =
     (if mb_length block = 0 then Some (-3, bx)
      else if layout_ok (mb_length block) then
        (case bx_blocks bx (mb_memory block) of
           Some memory \<Rightarrow>
             if length memory = unat (mb_length block)
             then Some (1, bx\<lparr>bx_blocks := (bx_blocks bx)(mb_memory block := None)\<rparr>) else None
         | None \<Rightarrow> None)
      else Some (-1, bx))"

definition allocate_memory_block ::
  "bool \<Rightarrow> ('rq, 'rb, 'ob, 'su) boxes \<Rightarrow> u32 \<Rightarrow> memory_block \<Rightarrow> (int \<times> memory_block \<times> ('rq, 'rb, 'ob, 'su) boxes) option" where
  "allocate_memory_block available bx len block_ptr = do {
     (r, bx) \<leftarrow> mb_allocate available bx len;
     Some (case r of Some block \<Rightarrow> (1, block, bx) | None \<Rightarrow> (-1, block_ptr, bx)) }"

text \<open>The argument is null or points to a block.\<close>

definition free_memory_block ::
  "('rq, 'rb, 'ob, 'su) boxes \<Rightarrow> memory_block option \<Rightarrow> (int \<times> ('rq, 'rb, 'ob, 'su) boxes) option" where
  "free_memory_block bx block_ptr = (case block_ptr of None \<Rightarrow> Some (-2, bx) | Some block \<Rightarrow> mb_free bx block)"

lemma layout_ok_u32: "layout_ok len"
  using unsigned_less [of len, where ?'a = nat] by (simp add: layout_ok_def)

text \<open>A block can be freed once: the second call is undefined.\<close>

lemma memory_block_roundtrip:
  assumes "bx_blocks bx (bx_next bx) = None" "len \<noteq> 0"
  shows "\<exists>block bx' bx''. allocate_memory_block True bx len b = Some (1, block, bx') \<and> bx_blocks bx' (mb_memory block) = Some (replicate (unat len) 0)
    \<and> free_memory_block bx' (Some block) = Some (1, bx'') \<and> bx_blocks bx'' = bx_blocks bx \<and> free_memory_block bx'' (Some block) = None"
  using assms by (simp add: allocate_memory_block_def mb_allocate_def free_memory_block_def mb_free_def layout_ok_u32 fun_upd_idem)

end
