(* ===== verification/Host_Runs.thy ===== *)
theory Host_Runs
  imports Foreign_Interface
begin

text \<open>
  Everything a host program can do through the exported functions, with the workers of its pools
  running beside it in any order, and what stays true of the endpoints behind its handles.
\<close>

subsection \<open>The number of an endpoint\<close>

lemma identity_message_ids: "client_identity_update os now net t = Some (t', net') \<Longrightarrow> t_id t' = t_id t"
  by (auto simp: client_identity_update_def Let_def elim!: bind_SomeE split: if_splits)

lemma update_id: "tachyon_update env now net t = Some (t', net') \<Longrightarrow> t_id t' = t_id t"
  by (auto simp: tachyon_update_def elim!: bind_SomeE case_prod_SomeE dest!: identity_message_ids)

lemma send_unreliable_id: "send_unreliable os net t a d n = Some (r, t', net') \<Longrightarrow> t_id t' = t_id t"
  by (auto simp: send_unreliable_def Let_def elim!: bind_SomeE case_prod_SomeE split: if_splits option.splits)

lemma send_reliable_id: "tachyon_send_reliable os now net t i a d n = Some (r, t', net') \<Longrightarrow> t_id t' = t_id t"
  by (auto simp: tachyon_send_reliable_def elim!: bind_SomeE case_prod_SomeE split: if_splits option.splits)

lemma set_identity_id [simp]: "t_id (set_identity t i s) = t_id t"
  by (simp add: set_identity_def Let_def)

lemma configure_channel_id: "t_id (snd (configure_channel t i cfg)) = t_id t"
  by (simp add: configure_channel_def)

lemma set_callbacks_inv [simp]: "t_inv (set_callbacks f g t) = t_inv t" "t_id (set_callbacks f g t) = t_id t"
  by (simp_all add: set_callbacks_def t_wf_def links_ok_def Let_def)

subsection \<open>Servers of a pool\<close>

text \<open>A server under its number, as every operation of a pool keeps it.\<close>

definition keyed :: "(u16 \<times> tachyon) list \<Rightarrow> bool" where
  "keyed xs \<longleftrightarrow> distinct (map fst xs) \<and> (\<forall>i s. map_of xs i = Some s \<longrightarrow> t_id s = i \<and> t_inv s)"

lemma keyed_lookup: "keyed xs \<Longrightarrow> map_of xs i = Some s \<Longrightarrow> t_id s = i \<and> t_inv s"
  by (simp add: keyed_def)

lemma keyed_update: "keyed xs \<Longrightarrow> t_id s = i \<Longrightarrow> t_inv s \<Longrightarrow> keyed (AList.update i s xs)"
  by (simp add: keyed_def distinct_update update_conv')

lemma keyed_map:
  assumes "keyed xs" "\<And>s. t_id (f s) = t_id s" "\<And>s. t_inv s \<Longrightarrow> t_inv (f s)"
  shows "keyed (map (\<lambda>(i, s). (i, f s)) xs)"
proof -
  have "map_of (map (\<lambda>(i, s). (i, f s)) xs) i = map_option f (map_of xs i)" for i
    by (induction xs) auto
  moreover have "map fst (map (\<lambda>(i, s). (i, f s)) xs) = map fst xs" by (simp add: case_prod_beta comp_def)
  ultimately show ?thesis using assms by (auto simp: keyed_def simp del: map_map)
qed

lemma send_keeps:
  assumes "(if ch = 0 then send_unreliable os net s a d n else tachyon_send_reliable os now net s ch a d n) = Some (r, t, net')" "t_inv s"
  shows "t_id t = t_id s \<and> t_inv t"
proof (cases "ch = 0")
  case True
  with assms(1) have t: "send_unreliable os net s a d n = Some (r, t, net')" by simp
  show ?thesis using send_unreliable_id [OF t] send_unreliable_inv [OF assms(2) t] by simp
next
  case False
  with assms(1) have t: "tachyon_send_reliable os now net s ch a d n = Some (r, t, net')" by simp
  show ?thesis using send_reliable_id [OF t] send_reliable_inv [OF assms(2) t] by simp
qed

lemma send_on_server_keyed:
  assumes "keyed (p_servers p)" "map_of (p_servers p) i = Some s" "send_on_server os now net p i s ch a d n = Some (r, p', net')"
  shows "keyed (p_servers p') \<and> p_servers_in_use p' = p_servers_in_use p"
proof -
  have s: "t_id s = i" "t_inv s" using keyed_lookup [OF assms(1,2)] by simp_all
  obtain t where t: "(if ch = 0 then send_unreliable os net s a d n else tachyon_send_reliable os now net s ch a d n) = Some (r, t, net')"
    and p': "p' = p\<lparr>p_servers := AList.update i t (p_servers p)\<rparr>"
    using assms(3) unfolding send_on_server_def by (elim bind_SomeE case_prod_SomeE) (simp only: option.inject prod.inject)
  have "keyed (AList.update i t (p_servers p))" using send_keeps [OF t s(2)] s(1) by (intro keyed_update [OF assms(1)]) simp_all
  then show ?thesis by (simp add: p')
qed

lemma pool_send_keyed:
  assumes "keyed (p_servers p)" "pool_send_to_target os now net p ch tgt d n = Some (r, p', net')"
  shows "keyed (p_servers p') \<and> p_servers_in_use p' = p_servers_in_use p"
  using assms(2) assms(1)
  unfolding pool_send_to_target_def send_to_identity_def send_to_address_def
  by (auto split: if_split_asm option.split_asm dest: send_on_server_keyed [OF assms(1)])

lemma update_servers_keyed: "update_servers env now is xs net = Some (xs', net') \<Longrightarrow> keyed xs \<Longrightarrow> keyed xs'"
proof (induction env now "is" xs net rule: update_servers.induct)
  case (2 env now i rest servers net)
  show ?case
  proof (cases "map_of servers i")
    case (Some s)
    obtain t net1 where t: "tachyon_update env now net s = Some (t, net1)"
      "update_servers env now rest (AList.update i t servers) net1 = Some (xs', net')"
      using "2.prems"(1) Some by (auto elim!: bind_SomeE)
    have "t_id t = i" "t_inv t"
      using update_id [OF t(1)] update_inv [OF _ t(1)] keyed_lookup [OF "2.prems"(2) Some] by simp_all
    from "2.IH"(2) [OF Some t(1) refl t(2) keyed_update [OF "2.prems"(2) this]] show ?thesis .
  qed (use 2 in simp)
qed simp

lemma new_server_inv:
  assumes "tachyon_bind os net (tachyon_create now cfg) a = Some (b, t, net')"
  shows "t_inv (t\<lparr>t_id := i\<rparr>)"
  using assms by (auto simp: t_wf_def links_ok_def tachyon_bind_def tachyon_create_def create_with_id_def Let_def
      elim!: bind_SomeE case_prod_SomeE split: create_connect_result.splits)

lemma create_server_keyed:
  assumes "keyed (p_servers p)" "create_server pe now net p cfg a i = Some (b, p', net')"
  shows "keyed (p_servers p') \<and> p_servers_in_use p' = p_servers_in_use p"
  using assms(2) keyed_update [OF assms(1) _ new_server_inv] assms(1) unfolding create_server_def Let_def
  by (auto elim!: bind_SomeE split: if_split_asm)

lemma pool_set_identity_keyed:
  assumes "keyed (p_servers p)"
  shows "keyed (p_servers (pool_set_identity p i j s on_self)) \<and> p_servers_in_use (pool_set_identity p i j s on_self) = p_servers_in_use p"
proof (cases "map_of (p_servers p) i")
  case (Some t)
  let ?t = "if on_self = 1 then t\<lparr>t_identity := (t_identity t)\<lparr>id_id := j, id_session_id := s\<rparr>\<rparr> else set_identity t j s"
  have "t_id ?t = i \<and> t_inv ?t" using keyed_lookup [OF assms Some] by (simp add: set_identity_wf set_identity_links)
  then have "keyed (AList.update i ?t (p_servers p))" by (intro keyed_update [OF assms]) simp_all
  with Some show ?thesis by (simp only: pool_set_identity_def Let_def option.case) simp
qed (simp add: pool_set_identity_def assms)

subsection \<open>Workers\<close>

text \<open>Endpoints whose tables are consistent.\<close>

definition sound :: "tachyon set" where
  "sound = {t. t_inv t}"

lemma soundI: "t_inv t \<Longrightarrow> t \<in> sound" and soundD: "t \<in> sound \<Longrightarrow> t_inv t"
  by (simp_all add: sound_def)

lemma round_sound:
  assumes "receive_server_round env now net s q b = Some (go, s', q', b', net')" "s \<in> sound"
  shows "s' \<in> sound"
  using assms receive_loop_inv [OF soundD [OF assms(2)]]
  by (auto simp: receive_server_round_def intro!: soundI elim!: bind_SomeE case_prod_SomeE split: if_split_asm)

context pool_queues
begin

text \<open>The endpoints of a pool, wherever they are: in the table, in the queue, with a worker.\<close>

definition pool_inv :: "('rq, 'rb, 'ob, 'su) pool \<Rightarrow> task list \<Rightarrow> bool" where
  "pool_inv p ws \<longleftrightarrow> keyed (p_servers p) \<and> set (su_items (p_servers_in_use p)) \<subseteq> sound
     \<and> (\<forall>w \<in> set ws. set (task_servers w) \<subseteq> sound)"

lemma su_push_subset: "set (su_items (push_or_drop (pe_su pe) x q)) \<subseteq> insert x (set (su_items q))"
  by (cases "length (su_items q) < su_cap q") (auto simp: su.push_room su.push_full)

lemma task_step_sound:
  assumes "task_step pe now w p net = Some (w', p', net')" "set (su_items (p_servers_in_use p)) \<subseteq> sound" "set (task_servers w) \<subseteq> sound"
  shows "p_servers p' = p_servers p \<and> set (su_items (p_servers_in_use p')) \<subseteq> sound \<and> set (task_servers w') \<subseteq> sound"
proof (cases w)
  case (T_Receive n s q b)
  with assms show ?thesis by (cases n) (auto elim!: bind_SomeE case_prod_SomeE dest!: round_sound split: if_split_asm)
next
  case (T_Return_Server s)
  with assms show ?thesis using subset_trans [OF su_push_subset [of s "p_servers_in_use p"], of sound] by auto
next
  case T_Start
  with assms show ?thesis by (auto split: prod.splits option.splits dest!: su.pop_Some su.pop_None)
qed (use assms in \<open>auto split: prod.splits option.splits\<close>)

lemma worker_inv:
  assumes "pool_inv p ws" "i < length ws" "task_step pe now (ws ! i) p net = Some (w', p', net')"
  shows "pool_inv p' (ws[i := w'])"
proof -
  have "set (task_servers (ws ! i)) \<subseteq> sound" using assms(1,2) by (simp add: pool_inv_def)
  then have "p_servers p' = p_servers p" "set (su_items (p_servers_in_use p')) \<subseteq> sound" "set (task_servers w') \<subseteq> sound"
    using task_step_sound [OF assms(3)] assms(1) by (simp_all add: pool_inv_def)
  moreover from this(3) have "set (task_servers w) \<subseteq> sound" if "w \<in> set (ws[i := w'])" for w
    using that set_update_subset_insert [of ws i w'] assms(1) unfolding pool_inv_def by (cases "w = w'") blast+
  ultimately show ?thesis using assms(1) by (simp add: pool_inv_def)
qed

lemma receive_inv:
  assumes "pool_inv p ws" "pool_receive pe p = (b, p', ts)" "\<forall>xs. mset (pe_server_order pe xs) = mset xs"
  shows "pool_inv p' (ws @ ts)"
proof (cases "p_servers p = []")
  case False
  let ?ss = "map snd (pe_server_order pe (p_servers p))"
  have p': "p' = p\<lparr>p_servers_in_use := fold (push_or_drop (pe_su pe)) ?ss (p_servers_in_use p), p_servers := [],
      p_counter := Some (length (p_servers p))\<rparr>" "ts = replicate (length (p_servers p)) T_Start"
    using assms(2) False by (simp_all add: pool_receive_def Let_def)
  have "set (pe_server_order pe (p_servers p)) = set (p_servers p)" using assms(3) by (metis mset_eq_setD)
  then have "set ?ss \<subseteq> sound" using assms(1) by (auto simp: pool_inv_def keyed_def intro!: soundI)
  moreover have "set (su_items (fold (push_or_drop (pe_su pe)) ?ss (p_servers_in_use p))) \<subseteq> set (su_items (p_servers_in_use p)) \<union> set ?ss"
    using su.fold_push [of ?ss "p_servers_in_use p"] set_take_subset [of _ ?ss] by auto
  ultimately have "set (su_items (p_servers_in_use p')) \<subseteq> sound" using assms(1) unfolding p' pool_inv_def by simp blast
  with assms(1) show ?thesis by (auto simp: pool_inv_def p' keyed_def)
qed (use assms in \<open>simp add: pool_receive_def\<close>)

lemma collect_inv:
  "pool_inv p ws \<Longrightarrow> collect_servers n pe p k = (m, p') \<Longrightarrow> pool_inv p' ws"
proof (induction n arbitrary: p k)
  case (Suc n)
  show ?case
  proof (cases "aq_pop (pe_su pe) (p_servers_in_use p)")
    case (Pair r q)
    show ?thesis
    proof (cases r)
      case None
      then have "pool_inv (p\<lparr>p_servers_in_use := q\<rparr>) ws" using Suc.prems(1) Pair su.pop_None [of "p_servers_in_use p" q] by (simp add: pool_inv_def)
      from Suc.IH [OF this] Suc.prems(2) Pair None show ?thesis by simp
    next
      case (Some s)
      then have q: "su_items (p_servers_in_use p) = s # su_items q" using Pair su.pop_Some by auto
      have "keyed (AList.update (t_id s) s (p_servers p))"
        using Suc.prems(1) q by (intro keyed_update) (simp_all add: pool_inv_def sound_def)
      then have "pool_inv (p\<lparr>p_servers_in_use := q, p_servers := AList.update (t_id s) s (p_servers p)\<rparr>) ws"
        using Suc.prems(1) q by (simp add: pool_inv_def)
      from Suc.IH [OF this] Suc.prems(2) Pair Some show ?thesis by simp
    qed
  qed
qed simp

lemma move_received_servers:
  "p_servers (snd (move_received_loop n pe p k)) = p_servers p \<and> p_servers_in_use (snd (move_received_loop n pe p k)) = p_servers_in_use p"
  by (induction n arbitrary: p k) (auto split: prod.splits option.splits)

lemma finish_inv:
  assumes "pool_inv p ws" "finish_receive pe p = (r, p')"
  shows "pool_inv p' ws"
proof (cases "p_counter p")
  case (Some c)
  let ?p = "snd (move_received_to_published pe p)"
  have p: "pool_inv ?p ws" using assms(1) move_received_servers by (simp add: pool_inv_def move_received_to_published_def)
  let ?c = "collect_servers (aq_len (pe_su pe) (p_servers_in_use ?p)) pe ?p 0"
  have "p' = (snd ?c)\<lparr>p_counter := None\<rparr>"
    using assms(2) Some by (auto simp: finish_receive_def Let_def case_prod_beta)
  moreover have "pool_inv (snd ?c) ws" using collect_inv [OF p, of _ 0 "fst ?c" "snd ?c"] by simp
  ultimately show ?thesis by (simp add: pool_inv_def)
qed (use assms in \<open>simp add: finish_receive_def\<close>)

end

subsection \<open>The blocking receive\<close>

text \<open>
  The workers of \<open>receive_blocking_out_buffer\<close>, and beside them those of an earlier \<open>receive\<close>, in
  any order.
\<close>

inductive out_run ::
  "('rq, 'rb, 'ob, 'su) pool_env \<Rightarrow> ('rq, 'rb, 'ob, 'su) pool \<times> network \<times> task list \<times> out_task list
     \<Rightarrow> ('rq, 'rb, 'ob, 'su) pool \<times> network \<times> task list \<times> out_task list \<Rightarrow> bool" for pe s where
  start: "out_run pe s s"
| out: "out_run pe s (p, net, ws, os) \<Longrightarrow> i < length os \<Longrightarrow> out_task_step pe now (os ! i) p net = Some (w', p', net') \<Longrightarrow>
    out_run pe s (p', net', ws, os[i := w'])"
| worker: "out_run pe s (p, net, ws, os) \<Longrightarrow> i < length ws \<Longrightarrow> task_step pe now (ws ! i) p net = Some (w', p', net') \<Longrightarrow>
    out_run pe s (p', net', ws[i := w'], os)"

fun out_done :: "out_task \<Rightarrow> bool" where
  "out_done (O_Done s) = True"
| "out_done _ = False"

lemma out_round_keeps:
  assumes "out_buffer_round env now net s ob b w = Some (go, s', ob', b', w', net')"
  shows "t_id s' = t_id s \<and> (s \<in> sound \<longrightarrow> s' \<in> sound)"
proof -
  obtain r net1 b1 where "receive_loop env now net s b = Some (r, s', net1, b1)"
    using assms by (auto simp: out_buffer_round_def elim!: bind_SomeE case_prod_SomeE split: if_split_asm)
  note r = this
  show ?thesis using receive_loop_id [OF r] receive_loop_inv [OF _ r] by (simp add: sound_def)
qed

lemma out_step_keeps:
  assumes "out_task_step pe now w p net = Some (w', p', net')"
  shows "p_servers p' = p_servers p \<and> p_servers_in_use p' = p_servers_in_use p \<and> t_id (out_task_server w') = t_id (out_task_server w)
    \<and> (out_task_server w \<in> sound \<longrightarrow> out_task_server w' \<in> sound)"
  using assms
proof (induction pe now w p net rule: out_task_step.induct)
  case (4 pe now n server out_buffer receive_buffer writer p net)
  then show ?case by (auto elim!: bind_SomeE case_prod_SomeE dest!: out_round_keeps split: if_split_asm)
qed (auto split: prod.splits option.splits)

text \<open>Worker \<open>i\<close> works for the server \<open>i\<close> of the table.\<close>

definition serves :: "(u16 \<times> tachyon) list \<Rightarrow> out_task list \<Rightarrow> bool" where
  "serves xs os \<longleftrightarrow> length os = length xs \<and> (\<forall>i < length xs. t_id (out_task_server (os ! i)) = fst (xs ! i) \<and> out_task_server (os ! i) \<in> sound)"

lemma serves_start: "keyed xs \<Longrightarrow> serves xs (map (\<lambda>(_, s). O_Server s) xs)"
  by (auto simp: serves_def keyed_def case_prod_beta intro!: soundI) (metis eq_fst_iff map_of_is_SomeI nth_mem prod.collapse)+

lemma serves_keyed:
  assumes "serves xs os" "distinct (map fst xs)"
  shows "keyed (map (\<lambda>((k, _), t). (k, out_task_server t)) (zip xs os))"
proof -
  let ?ys = "map (\<lambda>((k, _), t). (k, out_task_server t)) (zip xs os)"
  have fst: "map fst ?ys = map fst xs"
    using assms(1) by (intro nth_equalityI) (auto simp: serves_def case_prod_beta)
  have "t_id t = k \<and> t_inv t" if "(k, t) \<in> set ?ys" for k t
    using that assms(1) by (auto simp: serves_def set_zip case_prod_beta dest!: soundD)
  with fst assms(2) show ?thesis by (auto simp: keyed_def simp del: map_map dest: map_of_SomeD)
qed

context pool_queues
begin

lemma out_run_inv:
  assumes "out_run pe (p, net, ws, out_tasks p) st" "pool_inv p ws"
  shows "case st of (p', net', ws', os) \<Rightarrow> pool_inv p' ws' \<and> p_servers p' = p_servers p \<and> serves (p_servers p) os"
  using assms(1)
proof (induction rule: out_run.induct)
  case start
  then show ?case using assms(2) serves_start [of "p_servers p"] by (simp add: pool_inv_def out_tasks_def)
next
  case (out p1 net1 ws1 os i now w' p' net')
  then show ?case using out_step_keeps [OF out.hyps(3)] by (auto simp: pool_inv_def serves_def nth_list_update)
next
  case (worker p1 net1 ws1 os i now w' p' net')
  moreover have "p_servers p' = p_servers p1"
    using task_step_sound [OF worker.hyps(3)] worker by (auto simp: pool_inv_def)
  ultimately show ?case using worker_inv [OF _ worker.hyps(2,3)] by auto
qed

lemma blocking_inv:
  assumes "out_run pe (p, net, ws, out_tasks p) (p', net', ws', os)" "pool_inv p ws"
  shows "pool_inv (finish_out_tasks p' os) ws'"
  using out_run_inv [OF assms] serves_keyed [of "p_servers p" os] assms(2)
  by (simp add: pool_inv_def finish_out_tasks_def keyed_def)

end

subsection \<open>The host\<close>

text \<open>The call returns when all its workers are done.\<close>

inductive pool_receive_blocking ::
  "('rq, 'rb, 'ob, 'su) pool_env \<Rightarrow> ('rq, 'rb, 'ob, 'su) boxes \<Rightarrow> handle \<Rightarrow> ('rq, 'rb, 'ob, 'su) boxes \<Rightarrow> bool" for pe bx pool_ptr where
  "bx_pools bx pool_ptr = Some p \<Longrightarrow> out_run pe (p, net, bx_workers bx pool_ptr, out_tasks p) (p', net', ws, os) \<Longrightarrow>
    list_all out_done os \<Longrightarrow>
    pool_receive_blocking pe bx pool_ptr ((put_pool pool_ptr (finish_out_tasks p' os) bx)\<lparr>bx_workers := (bx_workers bx)(pool_ptr := ws)\<rparr>)"

text \<open>
  One call of the host, or one step of a worker of one of its pools. A call of \<open>finish_receive\<close> is
  allowed at any moment, which covers the moments at which the wait for the workers ends. The
  functions that only read are left out.
\<close>

inductive host_step :: "('rq, 'rb, 'ob, 'su) pool_env \<Rightarrow> ('rq, 'rb, 'ob, 'su) boxes \<Rightarrow> ('rq, 'rb, 'ob, 'su) boxes \<Rightarrow> bool" for pe bx where
  "register_callbacks bx h f g = Some bx' \<Longrightarrow> host_step pe bx bx'"
| "create_tachyon bx now cfg = (h, bx') \<Longrightarrow> host_step pe bx bx'"
| "destroy_tachyon bx h = Some bx' \<Longrightarrow> host_step pe bx bx'"
| "ffi_bind_socket (e_os (pe_env pe)) net bx h a = Some (r, bx', net') \<Longrightarrow> host_step pe bx bx'"
| "ffi_connect_socket (e_os (pe_env pe)) now net bx h a = Some (r, bx', net') \<Longrightarrow> host_step pe bx bx'"
| "ffi_configure_channel bx h i cc = Some (r, bx') \<Longrightarrow> host_step pe bx bx'"
| "ffi_send_to_target (e_os (pe_env pe)) now net bx h ch tgt d n = Some (r, bx', net') \<Longrightarrow> host_step pe bx bx'"
| "ffi_receive (pe_env pe) now net bx h d m = Some (tr, d', bx', net') \<Longrightarrow> host_step pe bx bx'"
| "ffi_tachyon_update (pe_env pe) now net bx h = Some (bx', net') \<Longrightarrow> host_step pe bx bx'"
| "ffi_set_identity bx h i s on_self = Some bx' \<Longrightarrow> host_step pe bx bx'"
| "get_stats bx h = Some (st, bx') \<Longrightarrow> host_step pe bx bx'"
| "ffi_create_unreliable_sender (e_os (pe_env pe)) net bx h = Some (h', bx') \<Longrightarrow> host_step pe bx bx'"
| "destroy_unreliable_sender bx h = Some bx' \<Longrightarrow> host_step pe bx bx'"
| "unreliable_sender_send (e_os (pe_env pe)) net bx h a d n = Some (sr, bx', net') \<Longrightarrow> host_step pe bx bx'"
| "ffi_pool_create pe bx k m m' = (h, bx') \<Longrightarrow> host_step pe bx bx'"
| "pool_destroy bx h = Some bx' \<Longrightarrow> host_step pe bx bx'"
| "pool_create_server pe now net bx h cfg a j = Some (r, bx', net') \<Longrightarrow> host_step pe bx bx'"
| "pool_configure_channel bx h j ch cc = Some (r, bx') \<Longrightarrow> host_step pe bx bx'"
| "ffi_pool_set_identity bx h j i s on_self = Some bx' \<Longrightarrow> host_step pe bx bx'"
| "pool_update_servers pe now net bx h = Some (bx', net') \<Longrightarrow> host_step pe bx bx'"
| "pool_register_callbacks bx h f g = Some bx' \<Longrightarrow> host_step pe bx bx'"
| "pool_get_next_out_buffer pe bx h d = Some (oc, d', bx') \<Longrightarrow> host_step pe bx bx'"
| "ffi_pool_receive pe bx h = Some (r, bx') \<Longrightarrow> host_step pe bx bx'"
| "pool_finish_receive pe bx h = Some (c, bx') \<Longrightarrow> host_step pe bx bx'"
| "pool_send_to (e_os (pe_env pe)) now net bx h ch tgt d n = Some (sr, bx', net') \<Longrightarrow> host_step pe bx bx'"
| "pool_unreliable_sender_create pe net bx h = Some (h', bx') \<Longrightarrow> host_step pe bx bx'"
| "pool_unreliable_sender_destroy bx h = Some bx' \<Longrightarrow> host_step pe bx bx'"
| "pool_unreliable_sender_build pe net bx h h' = Some bx' \<Longrightarrow> host_step pe bx bx'"
| "pool_unreliable_sender_send (e_os (pe_env pe)) net bx h tgt d n = Some (sr, bx', net') \<Longrightarrow> host_step pe bx bx'"
| "allocate_memory_block available bx m b = Some (r, b', bx') \<Longrightarrow> host_step pe bx bx'"
| "free_memory_block bx b = Some (r, bx') \<Longrightarrow> host_step pe bx bx'"
| worker: "bx_pools bx h = Some p \<Longrightarrow> i < length (bx_workers bx h) \<Longrightarrow>
    task_step pe now (bx_workers bx h ! i) p net = Some (w', p', net') \<Longrightarrow>
    host_step pe bx ((put_pool h p' bx)\<lparr>bx_workers := (bx_workers bx)(h := (bx_workers bx h)[i := w'])\<rparr>)"
| "pool_receive_blocking pe bx h bx' \<Longrightarrow> host_step pe bx bx'"

inductive host_run :: "('rq, 'rb, 'ob, 'su) pool_env \<Rightarrow> ('rq, 'rb, 'ob, 'su) boxes \<Rightarrow> bool" for pe where
  start: "host_run pe bx_empty"
| step: "host_run pe bx \<Longrightarrow> host_step pe bx bx' \<Longrightarrow> host_run pe bx'"

text \<open>Null and the handles that have not been given out name nothing.\<close>

definition handles_ok :: "('rq, 'rb, 'ob, 'su) boxes \<Rightarrow> bool" where
  "handles_ok bx \<longleftrightarrow> 0 < bx_next bx \<and> (\<forall>h. h = 0 \<or> bx_next bx \<le> h \<longrightarrow>
     bx_tachyons bx h = None \<and> bx_senders bx h = None \<and> bx_pools bx h = None \<and> bx_pool_senders bx h = None \<and> bx_blocks bx h = None)"

lemma handle_live:
  assumes "handles_ok bx" "bx_tachyons bx h \<noteq> None \<or> bx_senders bx h \<noteq> None \<or> bx_pools bx h \<noteq> None \<or> bx_pool_senders bx h \<noteq> None"
  shows "h \<noteq> 0 \<and> h < bx_next bx"
  using assms unfolding handles_ok_def by (metis not_le)

context pool_queues
begin

definition host_inv :: "('rq, 'rb, 'ob, 'su) boxes \<Rightarrow> bool" where
  "host_inv bx \<longleftrightarrow> handles_ok bx \<and> (\<forall>h t. bx_tachyons bx h = Some t \<longrightarrow> t \<in> sound) \<and> (\<forall>h p. bx_pools bx h = Some p \<longrightarrow> pool_inv p (bx_workers bx h))"

lemma host_tachyon:
  assumes "host_inv bx" "bx_tachyons bx h = Some t"
  shows "t_inv t"
  using assms by (intro soundD) (simp add: host_inv_def)

lemma host_put_tachyon:
  assumes "host_inv bx" "bx_tachyons bx h = Some t" "t_inv t'"
  shows "host_inv (put_tachyon h t' bx)"
proof -
  have "handles_ok (put_tachyon h t' bx)" using assms(1) handle_live [of bx h] assms(2) by (auto simp: host_inv_def handles_ok_def)
  then show ?thesis using assms(1) soundI [OF assms(3)] by (simp add: host_inv_def)
qed

lemma host_pool: "host_inv bx \<Longrightarrow> bx_pools bx h = Some p \<Longrightarrow> pool_inv p (bx_workers bx h)"
  by (simp add: host_inv_def)

lemma host_put_pool:
  assumes "host_inv bx" "bx_pools bx h = Some p" "pool_inv p' ws"
  shows "host_inv ((put_pool h p' bx)\<lparr>bx_workers := (bx_workers bx)(h := ws)\<rparr>)"
proof -
  have "handles_ok ((put_pool h p' bx)\<lparr>bx_workers := (bx_workers bx)(h := ws)\<rparr>)"
    using assms(1) handle_live [of bx h] assms(2) by (auto simp: host_inv_def handles_ok_def)
  then show ?thesis using assms(1,3) by (simp add: host_inv_def)
qed

lemma host_put_servers:
  assumes "host_inv bx" "bx_pools bx h = Some p" "keyed (p_servers p')" "p_servers_in_use p' = p_servers_in_use p"
  shows "host_inv (put_pool h p' bx)"
  using host_put_pool [OF assms(1,2), of p' "bx_workers bx h"] host_pool [OF assms(1,2)] assms(3,4) by (simp add: pool_inv_def)

lemma host_keyed: "host_inv bx \<Longrightarrow> bx_pools bx h = Some p \<Longrightarrow> keyed (p_servers p)"
  using host_pool by (simp add: pool_inv_def)

lemma host_new:
  assumes "host_inv bx"
  shows "t_inv t \<Longrightarrow> host_inv (put_tachyon (bx_next bx) t (bx\<lparr>bx_next := bx_next bx + 1\<rparr>))"
    "pool_inv p [] \<Longrightarrow> host_inv (put_pool (bx_next bx) p (bx\<lparr>bx_next := bx_next bx + 1, bx_workers := (bx_workers bx)(bx_next bx := [])\<rparr>))"
    "host_inv (bx\<lparr>bx_next := bx_next bx + 1, bx_senders := (bx_senders bx)(bx_next bx \<mapsto> sn)\<rparr>)"
    "host_inv (bx\<lparr>bx_next := bx_next bx + 1, bx_pool_senders := (bx_pool_senders bx)(bx_next bx \<mapsto> ps)\<rparr>)"
    "host_inv (bx\<lparr>bx_next := bx_next bx + 1, bx_blocks := (bx_blocks bx)(bx_next bx \<mapsto> bl)\<rparr>)"
  using assms by (auto simp: host_inv_def handles_ok_def intro: soundI)

lemma host_drop:
  assumes "host_inv bx"
  shows "host_inv (bx\<lparr>bx_tachyons := (bx_tachyons bx)(h := None)\<rparr>)" "host_inv (bx\<lparr>bx_senders := (bx_senders bx)(h := None)\<rparr>)"
    "host_inv (bx\<lparr>bx_pools := (bx_pools bx)(h := None)\<rparr>)" "host_inv (bx\<lparr>bx_pool_senders := (bx_pool_senders bx)(h := None)\<rparr>)"
    "host_inv (bx\<lparr>bx_blocks := (bx_blocks bx)(h := None)\<rparr>)"
  using assms by (auto simp: host_inv_def handles_ok_def)

lemma host_put_sender:
  assumes "host_inv bx"
  shows "bx_senders bx h = Some sn \<Longrightarrow> host_inv (bx\<lparr>bx_senders := (bx_senders bx)(h \<mapsto> sn')\<rparr>)"
    "bx_pool_senders bx h = Some ps \<Longrightarrow> host_inv (bx\<lparr>bx_pool_senders := (bx_pool_senders bx)(h \<mapsto> ps')\<rparr>)"
  using assms handle_live [of bx h] by (auto simp: host_inv_def handles_ok_def)

lemma created_inv: "pool_inv (pool_create pe k m m') []" "t_inv (tachyon_create now cfg)"
proof -
  show "pool_inv (pool_create pe k m m') []"
    using su.new_law by (simp add: pool_inv_def pool_create_def keyed_def Let_def split: prod.split)
  show "t_inv (tachyon_create now cfg)" using endpoint_inv [OF endpoint.start, of now cfg 0] by (simp add: tachyon_create_def)
qed

lemma next_out_buffer_servers:
  "next_out_buffer_loop n pe p b = Some (r, p', b') \<Longrightarrow> p_servers p' = p_servers p \<and> p_servers_in_use p' = p_servers_in_use p"
proof (induction n arbitrary: p b)
  case (Suc n)
  show ?case
  proof (cases "aq_pop (pe_ob pe) (p_out_buffers p)")
    case (Pair r q)
    with Suc.prems Suc.IH show ?thesis
      by (cases r) (fastforce simp: Let_def elim!: bind_SomeE split: if_split_asm)+
  qed
qed simp

lemma host_endpoint_calls:
  assumes "host_inv bx"
  shows "register_callbacks bx h f g = Some bx' \<Longrightarrow> host_inv bx'"
    "create_tachyon bx now cfg = (h, bx') \<Longrightarrow> host_inv bx'"
    "destroy_tachyon bx h = Some bx' \<Longrightarrow> host_inv bx'"
    "ffi_bind_socket os net bx h a = Some (r, bx', net') \<Longrightarrow> host_inv bx'"
    "ffi_connect_socket os now net bx h a = Some (r, bx', net') \<Longrightarrow> host_inv bx'"
    "ffi_configure_channel bx h i cc = Some (r, bx') \<Longrightarrow> host_inv bx'"
    "ffi_send_to_target os now net bx h ch tgt d n = Some (sr, bx', net') \<Longrightarrow> host_inv bx'"
    "ffi_receive env now net bx h d m = Some (tr, d', bx', net') \<Longrightarrow> host_inv bx'"
    "ffi_tachyon_update env now net bx h = Some (bx', net') \<Longrightarrow> host_inv bx'"
    "ffi_set_identity bx h k s on_self = Some bx' \<Longrightarrow> host_inv bx'"
    "get_stats bx h = Some (st, bx') \<Longrightarrow> host_inv bx'"
proof -
  note put = host_put_tachyon [OF assms] and t = host_tachyon [OF assms]
  show "register_callbacks bx h f g = Some bx' \<Longrightarrow> host_inv bx'"
    using put t by (auto simp: register_callbacks_def elim!: bind_SomeE)
  show "create_tachyon bx now cfg = (h, bx') \<Longrightarrow> host_inv bx'"
    using host_new(1) [OF assms created_inv(2)] by (auto simp: create_tachyon_def Let_def)
  show "destroy_tachyon bx h = Some bx' \<Longrightarrow> host_inv bx'"
    using host_drop(1) [OF assms] assms by (auto simp: destroy_tachyon_def elim!: bind_SomeE split: if_split_asm)
  show "ffi_bind_socket os net bx h a = Some (r, bx', net') \<Longrightarrow> host_inv bx'"
    by (auto simp: ffi_bind_socket_def elim!: bind_SomeE dest: bind_inv [OF t] intro: put)
  show "ffi_connect_socket os now net bx h a = Some (r, bx', net') \<Longrightarrow> host_inv bx'"
    by (auto simp: ffi_connect_socket_def elim!: bind_SomeE dest: connect_inv [OF t] intro: put)
  show "ffi_configure_channel bx h i cc = Some (r, bx') \<Longrightarrow> host_inv bx'"
    using put [OF _ configure_channel_inv [OF t]] by (auto simp: ffi_configure_channel_def case_prod_beta elim!: bind_SomeE)
  show "ffi_send_to_target os now net bx h ch tgt d n = Some (sr, bx', net') \<Longrightarrow> host_inv bx'"
    by (auto simp: ffi_send_to_target_def elim!: bind_SomeE dest: send_to_target_inv [OF t] intro: put)
  show "ffi_receive env now net bx h d m = Some (tr, d', bx', net') \<Longrightarrow> host_inv bx'"
    by (auto simp: ffi_receive_def elim!: bind_SomeE dest: receive_loop_inv [OF t] intro: put)
  show "ffi_tachyon_update env now net bx h = Some (bx', net') \<Longrightarrow> host_inv bx'"
    by (auto simp: ffi_tachyon_update_def elim!: bind_SomeE dest: update_inv [OF t] intro: put)
  show "ffi_set_identity bx h k s on_self = Some bx' \<Longrightarrow> host_inv bx'"
    using t put by (auto simp: ffi_set_identity_def Let_def set_identity_wf set_identity_links elim!: bind_SomeE split: if_split_asm)
  show "get_stats bx h = Some (st, bx') \<Longrightarrow> host_inv bx'"
    using put [OF _ combined_stats_inv [OF t]] by (auto simp: get_stats_def case_prod_beta elim!: bind_SomeE)
qed

lemma host_pool_calls:
  assumes "host_inv bx" "\<forall>xs. mset (pe_server_order pe xs) = mset xs"
  shows "ffi_pool_create pe bx k m m' = (h, bx') \<Longrightarrow> host_inv bx'"
    "pool_destroy bx h = Some bx' \<Longrightarrow> host_inv bx'"
    "pool_create_server pe now net bx h cfg a j = Some (r, bx', net') \<Longrightarrow> host_inv bx'"
    "pool_configure_channel bx h j ch cc = Some (r, bx') \<Longrightarrow> host_inv bx'"
    "ffi_pool_set_identity bx h j i s on_self = Some bx' \<Longrightarrow> host_inv bx'"
    "pool_update_servers pe now net bx h = Some (bx', net') \<Longrightarrow> host_inv bx'"
    "pool_register_callbacks bx h f g = Some bx' \<Longrightarrow> host_inv bx'"
    "pool_get_next_out_buffer pe bx h d = Some (oc, d', bx') \<Longrightarrow> host_inv bx'"
    "ffi_pool_receive pe bx h = Some (r, bx') \<Longrightarrow> host_inv bx'"
    "pool_finish_receive pe bx h = Some (c, bx') \<Longrightarrow> host_inv bx'"
    "pool_send_to os now net bx h ch tgt d n = Some (sr, bx', net') \<Longrightarrow> host_inv bx'"
proof -
  note put = host_put_servers [OF assms(1)] and keyed = host_keyed [OF assms(1)]
  show "ffi_pool_create pe bx k m m' = (h, bx') \<Longrightarrow> host_inv bx'"
    using host_new(2) [OF assms(1) created_inv(1)] by (auto simp: ffi_pool_create_def Let_def)
  show "pool_destroy bx h = Some bx' \<Longrightarrow> host_inv bx'"
    using host_drop(3) [OF assms(1)] assms(1) by (auto simp: pool_destroy_def elim!: bind_SomeE split: if_split_asm)
  show "pool_create_server pe now net bx h cfg a j = Some (r, bx', net') \<Longrightarrow> host_inv bx'"
    by (auto simp: pool_create_server_def elim!: bind_SomeE dest: create_server_keyed [OF keyed] intro: put)
  show "pool_configure_channel bx h j ch cc = Some (r, bx') \<Longrightarrow> host_inv bx'"
  proof -
    assume c: "pool_configure_channel bx h j ch cc = Some (r, bx')"
    then obtain p where p: "bx_pools bx h = Some p" by (auto simp: pool_configure_channel_def elim!: bind_SomeE)
    have "keyed (AList.update j (snd (configure_channel s ch cc)) (p_servers p))" if "map_of (p_servers p) j = Some s" for s
      using keyed_lookup [OF keyed [OF p] that] configure_channel_inv [of s ch cc]
      by (intro keyed_update [OF keyed [OF p]]) (simp_all add: configure_channel_id)
    with c p assms(1) put [OF p] show ?thesis
      by (auto simp: pool_configure_channel_def get_server_def case_prod_beta Let_def split: option.split_asm)
  qed
  show "ffi_pool_set_identity bx h j i s on_self = Some bx' \<Longrightarrow> host_inv bx'"
    using put pool_set_identity_keyed [OF keyed] by (auto simp: ffi_pool_set_identity_def elim!: bind_SomeE)
  show "pool_update_servers pe now net bx h = Some (bx', net') \<Longrightarrow> host_inv bx'"
    by (auto simp: pool_update_servers_def build_connection_maps_def Let_def elim!: bind_SomeE
        dest: update_servers_keyed [OF _ keyed] intro!: put)
  show "pool_register_callbacks bx h f g = Some bx' \<Longrightarrow> host_inv bx'"
    using keyed_map [OF keyed, where f = "set_callbacks f g"] by (auto simp: pool_register_callbacks_def elim!: bind_SomeE intro!: put)
  show "pool_get_next_out_buffer pe bx h d = Some (oc, d', bx') \<Longrightarrow> host_inv bx'"
    using keyed by (auto simp: pool_get_next_out_buffer_def get_next_out_buffer_def elim!: bind_SomeE case_prod_SomeE
        dest!: next_out_buffer_servers intro: put)
  show "ffi_pool_receive pe bx h = Some (r, bx') \<Longrightarrow> host_inv bx'"
  proof -
    assume c: "ffi_pool_receive pe bx h = Some (r, bx')"
    then obtain p b p' ts where p: "bx_pools bx h = Some p" "pool_receive pe p = (b, p', ts)"
      "bx' = (put_pool h p' bx)\<lparr>bx_workers := (bx_workers bx)(h := bx_workers bx h @ ts)\<rparr>"
      by (auto simp: ffi_pool_receive_def Let_def elim!: bind_SomeE split: prod.split_asm)
    show ?thesis using host_put_pool [OF assms(1) p(1) receive_inv [OF host_pool [OF assms(1) p(1)] p(2) assms(2)]] p(3) by simp
  qed
  show "pool_finish_receive pe bx h = Some (c, bx') \<Longrightarrow> host_inv bx'"
  proof -
    assume c: "pool_finish_receive pe bx h = Some (c, bx')"
    then obtain p r p' where p: "bx_pools bx h = Some p" "finish_receive pe p = (r, p')" "bx' = put_pool h p' bx"
      by (auto simp: pool_finish_receive_def Let_def elim!: bind_SomeE split: prod.split_asm)
    show ?thesis using host_put_pool [OF assms(1) p(1) finish_inv [OF host_pool [OF assms(1) p(1)] p(2)]] p(3) by simp
  qed
  show "pool_send_to os now net bx h ch tgt d n = Some (sr, bx', net') \<Longrightarrow> host_inv bx'"
    by (auto simp: pool_send_to_def elim!: bind_SomeE dest: pool_send_keyed [OF keyed] intro: put)
qed

lemma host_sender_calls:
  assumes "host_inv bx"
  shows "ffi_create_unreliable_sender os net bx h = Some (h', bx') \<Longrightarrow> host_inv bx'"
    "destroy_unreliable_sender bx h = Some bx' \<Longrightarrow> host_inv bx'"
    "unreliable_sender_send os net bx h a d n = Some (sr, bx', net') \<Longrightarrow> host_inv bx'"
    "pool_unreliable_sender_create pe net bx h = Some (h', bx') \<Longrightarrow> host_inv bx'"
    "pool_unreliable_sender_destroy bx h = Some bx' \<Longrightarrow> host_inv bx'"
    "pool_unreliable_sender_build pe net bx h h' = Some bx' \<Longrightarrow> host_inv bx'"
    "pool_unreliable_sender_send os net bx h tgt d n = Some (sr, bx', net') \<Longrightarrow> host_inv bx'"
    "allocate_memory_block available bx m b = Some (r, b', bx') \<Longrightarrow> host_inv bx'"
    "free_memory_block bx bo = Some (r, bx') \<Longrightarrow> host_inv bx'"
  using assms host_new(3-) [OF assms] host_drop [OF assms] host_put_sender [OF assms]
  by (auto simp: ffi_create_unreliable_sender_def destroy_unreliable_sender_def unreliable_sender_send_def pool_unreliable_sender_create_def
      pool_unreliable_sender_destroy_def pool_unreliable_sender_build_def pool_unreliable_sender_send_def allocate_memory_block_def
      mb_allocate_def free_memory_block_def mb_free_def elim!: bind_SomeE split: if_split_asm option.split_asm)

lemma host_blocking:
  assumes "host_inv bx" "pool_receive_blocking pe bx h bx'"
  shows "host_inv bx'"
  using assms(2)
proof cases
  case (1 p net p' net' ws os)
  show ?thesis
    unfolding 1(1) by (rule host_put_pool [OF assms(1) 1(2) blocking_inv [OF 1(3) host_pool [OF assms(1) 1(2)]]])
qed

lemma host_step_inv:
  assumes "host_step pe bx bx'" "host_inv bx" "\<forall>xs. mset (pe_server_order pe xs) = mset xs"
  shows "host_inv bx'"
  using assms(1)
proof cases
  case (worker h p i now net w' p' net')
  then show ?thesis using host_put_pool [OF assms(2) worker(2) worker_inv [OF host_pool [OF assms(2) worker(2)] worker(3,4)]] by simp
qed (erule host_endpoint_calls [OF assms(2)] host_pool_calls [OF assms(2,3)] host_sender_calls [OF assms(2)] host_blocking [OF assms(2)])+

lemma host_run_inv:
  assumes "host_run pe bx" "\<forall>xs. mset (pe_server_order pe xs) = mset xs"
  shows "host_inv bx"
  using assms(1)
proof (induction rule: host_run.induct)
  case start
  show ?case by (simp add: host_inv_def handles_ok_def bx_empty_def)
qed (use host_step_inv assms(2) in blast)

end

subsection \<open>Properties\<close>

text \<open>
  C15. Whatever a host program calls through the exported functions, in any order, with the workers
  of its pools running in any interleaving and any datagrams arriving: every live handle of
  an endpoint names one with consistent tables, every pool keeps its servers under their
  numbers, each once and with consistent tables, and neither null nor a handle that has not
  been given out names anything.
\<close>

theorem handles_sound:
  assumes "host_run pe bx" "pool_queues pe rq_items rq_cap rb_items rb_cap su_items su_cap"
    "\<forall>xs. mset (pe_server_order pe xs) = mset xs"
  shows "(\<forall>h t. bx_tachyons bx h = Some t \<longrightarrow> t_wf t \<and> links_ok t)
    \<and> (\<forall>h p. bx_pools bx h = Some p \<longrightarrow> servers_wf p \<and> (\<forall>i s. get_server p i = Some s \<longrightarrow> t_id s = i \<and> links_ok s))
    \<and> (\<forall>h. h = 0 \<or> bx_next bx \<le> h \<longrightarrow> bx_tachyons bx h = None \<and> bx_pools bx h = None \<and> bx_senders bx h = None \<and> bx_pool_senders bx h = None)"
proof -
  have inv: "pool_queues.host_inv su_items bx" by (rule pool_queues.host_run_inv [OF assms(2,1,3)])
  have "t_wf t \<and> links_ok t" if "bx_tachyons bx h = Some t" for h t
    by (rule pool_queues.host_tachyon [OF assms(2) inv that])
  moreover have "servers_wf p \<and> (\<forall>i s. get_server p i = Some s \<longrightarrow> t_id s = i \<and> links_ok s)" if "bx_pools bx h = Some p" for h p
    using pool_queues.host_keyed [OF assms(2) inv that] by (simp add: keyed_def servers_wf_def get_server_def)
  moreover have "handles_ok bx" using inv by (simp add: pool_queues.host_inv_def [OF assms(2)])
  then have "bx_tachyons bx h = None \<and> bx_pools bx h = None \<and> bx_senders bx h = None \<and> bx_pool_senders bx h = None"
    if "h = 0 \<or> bx_next bx \<le> h" for h
    using that unfolding handles_ok_def by metis
  ultimately show ?thesis by (intro conjI allI impI) simp_all
qed

theorem handles_sound_witness:
  "\<exists>bx t p. host_run sample_pool_env bx \<and> bx_tachyons bx 1 = Some t \<and> t_wf t \<and> links_ok t
     \<and> bx_pools bx 2 = Some p \<and> servers_wf p \<and> bx_tachyons bx 0 = None"
proof -
  let ?cfg = "\<lparr>tcf_use_identity = 0, tcf_drop_packet_chance = 0, tcf_drop_reliable_only = 0\<rparr>"
  let ?b1 = "snd (create_tachyon bx_empty 0 ?cfg)"
  let ?b2 = "snd (ffi_pool_create sample_pool_env ?b1 1 10 10)"
  have "host_step sample_pool_env bx_empty ?b1" by (rule host_step.intros(2)) (rule prod.collapse [symmetric])
  from host_run.step [OF host_run.start this] have b1: "host_run sample_pool_env ?b1" .
  have "host_step sample_pool_env ?b1 ?b2" by (rule host_step.intros(15)) (rule prod.collapse [symmetric])
  from host_run.step [OF b1 this] have run: "host_run sample_pool_env ?b2" .
  have "bx_tachyons ?b2 1 = Some (tachyon_create 0 ?cfg)" "bx_pools ?b2 2 = Some (pool_create sample_pool_env 1 10 10)"
    by (simp_all add: create_tachyon_def ffi_pool_create_def bx_empty_def Let_def)
  note boxes = this
  have "\<forall>xs. mset (pe_server_order sample_pool_env xs) = mset xs" by (simp add: sample_pool_env_def)
  note sound = handles_sound [OF run sample_pool_queues this]
  show ?thesis using run boxes sound by (intro exI [of _ ?b2] exI [of _ "tachyon_create 0 ?cfg"] exI [of _ "pool_create sample_pool_env 1 10 10"]) metis
qed

end
