(* ===== verification/Pool_Blocking.thy ===== *)
theory Pool_Blocking
  imports Host_Runs
begin

text \<open>
  The blocking receives of a pool (\<^verbatim>\<open>src/src/tachyon/pool.rs\<close>): all interleavings of the workers of
  \<open>receive_blocking_out_buffer\<close>, which fill the out buffers, and what the reader of the buffers gets;
  all interleavings of the workers of \<open>receive_blocking\<close>, and what is published.
\<close>

subsection \<open>The messages of a worker\<close>

text \<open>The message that a step of a worker takes from its server, if it takes one.\<close>

fun out_message :: "('rq, 'rb, 'ob, 'su) pool_env \<Rightarrow> nat \<Rightarrow> out_task \<Rightarrow> network \<Rightarrow> message list" where
  "out_message pe now (O_Receive (Suc n) server out_buffer receive_buffer writer) net =
     (case receive_loop (pe_env pe) now net server receive_buffer of
        Some (res, _, _, receive_buffer) \<Rightarrow>
          if trr_length res = 0 \<or> trr_error res > 0 then []
          else [(trr_channel res, trr_address res, take (unat (trr_length res)) receive_buffer)]
      | None \<Rightarrow> [])"
| "out_message pe now w net = []"

text \<open>Runs with the messages that each worker has taken so far.\<close>

inductive out_trace ::
  "('rq, 'rb, 'ob, 'su) pool_env \<Rightarrow> ('rq, 'rb, 'ob, 'su) pool \<times> network \<times> out_task list
     \<Rightarrow> ('rq, 'rb, 'ob, 'su) pool \<times> network \<times> out_task list \<Rightarrow> (nat \<Rightarrow> message list) \<Rightarrow> bool" for pe s where
  start: "out_trace pe s s (\<lambda>_. [])"
| step: "out_trace pe s (p, net, os) ms \<Longrightarrow> i < length os \<Longrightarrow> out_task_step pe now (os ! i) p net = Some (w', p', net') \<Longrightarrow>
    out_trace pe s (p', net', os[i := w']) (ms(i := ms i @ out_message pe now (os ! i) net))"

lemma out_run_trace:
  assumes "out_run pe (p0, net0, [], os0) st"
  shows "\<exists>p net os ms. st = (p, net, [], os) \<and> out_trace pe (p0, net0, os0) (p, net, os) ms"
  using assms
proof (induction rule: out_run.induct)
  case start
  then show ?case using out_trace.start by blast
next
  case (out p net ws os i now w' p' net')
  then show ?case using out_trace.step [of pe "(p0, net0, os0)" p net os _ i now w' p' net'] by auto
qed auto

subsection \<open>What a worker has written\<close>

abbreviation records :: "message list \<Rightarrow> bytes" where
  "records ms \<equiv> concat (map record_bytes ms)"

definition holds_messages :: "nat \<Rightarrow> out_buffer \<Rightarrow> message list \<Rightarrow> bool" where
  "holds_messages L ob ms \<longleftrightarrow> length (records ms) \<le> length (ob_data ob) \<and> length (ob_data ob) \<le> L
     \<and> take (length (records ms)) (ob_data ob) = records ms \<and> ob_count ob = word_of_nat (length ms)
     \<and> (\<forall>m \<in> set ms. length (snd (snd m)) < 2 ^ 32)"

definition complete :: "nat \<Rightarrow> out_buffer \<Rightarrow> message list \<Rightarrow> bool" where
  "complete L ob ms \<longleftrightarrow> holds_messages L ob ms \<and> length ms \<le> 100000
     \<and> (length ms < 100000 \<longrightarrow> ob_bytes_written ob = word_of_nat (length (records ms)))"

fun out_state :: "nat \<Rightarrow> out_task \<Rightarrow> message list \<Rightarrow> bool" where
  "out_state L (O_Server s) ms \<longleftrightarrow> ms = []"
| "out_state L (O_Out s ob) ms \<longleftrightarrow> ms = [] \<and> complete L ob []"
| "out_state L (O_Receive n s ob b w) ms \<longleftrightarrow> length ms + n = 100000 \<and> ib_index (lp_writer w) = length (records ms) \<and> holds_messages L ob ms"
| "out_state L (O_Return_Buffer s ob b) ms \<longleftrightarrow> complete L ob ms"
| "out_state L (O_Return_Out s ob) ms \<longleftrightarrow> complete L ob ms"
| "out_state L (O_Done s) ms \<longleftrightarrow> True"

lemma out_round_state:
  assumes r: "out_buffer_round env now net s ob b w = Some (go, s', ob', b', w', net')"
    and h: "holds_messages L ob ms" "ib_index (lp_writer w) = length (records ms)"
  shows "\<exists>res net1 b1. receive_loop env now net s b = Some (res, s', net1, b1)
    \<and> (if trr_length res = 0 \<or> trr_error res > 0
       then \<not> go \<and> ob' = ob\<lparr>ob_bytes_written := word_of_nat (length (records ms))\<rparr>
       else go \<and> holds_messages L ob' (ms @ [(trr_channel res, trr_address res, take (unat (trr_length res)) b1)])
         \<and> ib_index (lp_writer w') = length (records (ms @ [(trr_channel res, trr_address res, take (unat (trr_length res)) b1)])))"
proof -
  obtain res s1 net1 b1 where l: "receive_loop env now net s b = Some (res, s1, net1, b1)"
    using r by (auto simp: out_buffer_round_def elim!: bind_SomeE)
  show ?thesis
  proof (cases "trr_length res = 0 \<or> trr_error res > 0")
    case True
    then show ?thesis using r l h(2) by (auto simp: out_buffer_round_def)
  next
    case False
    let ?m = "(trr_channel res, trr_address res, take (unat (trr_length res)) b1)"
    have s: "slice b1 0 (unat (trr_length res)) = Some (take (unat (trr_length res)) b1)" "s' = s1"
      and room: "length (records ms) + length (record_bytes ?m) \<le> length (ob_data ob)"
      and ob': "ob' = ob\<lparr>ob_data := overwrite (ob_data ob) (length (records ms)) (record_bytes ?m), ob_count := ob_count ob + 1\<rparr>" "go"
      and w': "ib_index (lp_writer w') = length (records ms) + length (record_bytes ?m)"
      using r l False h(2) by (auto simp: out_buffer_round_def lp_write_eq slice_def elim!: bind_SomeE split: if_splits)
    have "length (take (unat (trr_length res)) b1) < 2 ^ 32"
      using unsigned_less [where ?'a = nat and ?'b = 32, of "trr_length res"] by simp
    then have "holds_messages L ob' (ms @ [?m])"
      using h(1) room unfolding ob' holds_messages_def by (auto simp: overwrite_def)
    then show ?thesis using l False s(2) ob'(2) w' by auto
  qed
qed


fun started :: "out_task \<Rightarrow> bool" where
  "started (O_Server s) = False"
| "started _ = True"

lemma complete_reset: "length (ob_data ob) \<le> L \<Longrightarrow> complete L (ob\<lparr>ob_bytes_written := 0, ob_count := 0\<rparr>) []"
  by (simp add: complete_def holds_messages_def)

lemma complete_finished:
  "holds_messages L ob ms \<Longrightarrow> length ms \<le> 100000 \<Longrightarrow> complete L (ob\<lparr>ob_bytes_written := word_of_nat (length (records ms))\<rparr>) ms"
  by (simp add: complete_def holds_messages_def)

text \<open>
  The queue during a run from the buffers \<open>xs\<close>: the buffers not yet taken, then those that were
  returned, in the order \<open>ret\<close> in which their workers finished.
\<close>

definition workers_in :: "(out_task \<Rightarrow> bool) \<Rightarrow> out_task list \<Rightarrow> nat set" where
  "workers_in P os = {i. i < length os \<and> P (os ! i)}"

lemma workers_in_iff [simp]: "i \<in> workers_in P os \<longleftrightarrow> i < length os \<and> P (os ! i)"
  by (simp add: workers_in_def)

lemma finite_workers_in [simp]: "finite (workers_in P os)"
  by (simp add: workers_in_def)

definition buffers_filled :: "nat \<Rightarrow> out_buffer list \<Rightarrow> nat list \<Rightarrow> out_buffer list \<Rightarrow> out_task list \<Rightarrow> (nat \<Rightarrow> message list) \<Rightarrow> bool" where
  "buffers_filled L xs ret ys os ms \<longleftrightarrow> distinct ret \<and> set ret = workers_in out_done os
     \<and> (\<exists>bs. ys = drop (card (workers_in started os)) xs @ bs \<and> list_all2 (\<lambda>b i. complete L b (ms i)) bs ret)
     \<and> (\<forall>i < length os. out_state L (os ! i) (ms i))"

lemma done_started: "out_done w \<Longrightarrow> started w"
  by (cases w) auto

lemma workers_in_update:
  "i < length os \<Longrightarrow> workers_in P (os[i := w]) = (if P w then insert i (workers_in P os) else workers_in P os - {i})"
  by (auto simp: workers_in_def nth_list_update)

lemma complete_other:
  "list_all2 (\<lambda>b i. complete L b (ms i)) bs ret \<Longrightarrow> i \<notin> set ret \<Longrightarrow> list_all2 (\<lambda>b j. complete L b ((ms(i := m)) j)) bs ret"
  by (erule list.rel_mono_strong) auto

locale out_queue = ob: bounded_queue "pe_ob pe" items cap
  for pe :: "('rq, 'rb, 'ob, 'su) pool_env" and items cap
begin

lemma out_step_state:
  assumes "out_task_step pe now w p net = Some (w', p', net')" "out_state L w ms"
    "started w \<Longrightarrow> length (items (p_out_buffers p)) < cap (p_out_buffers p)"
    "\<not> started w \<Longrightarrow> \<exists>b bs. items (p_out_buffers p) = b # bs \<and> length (ob_data b) \<le> L"
  shows "out_state L w' (ms @ out_message pe now w net) \<and> started w' \<and> \<not> out_done w \<and> cap (p_out_buffers p') = cap (p_out_buffers p)
    \<and> (if \<not> started w then \<not> out_done w' \<and> items (p_out_buffers p') = tl (items (p_out_buffers p))
       else if out_done w' then out_message pe now w net = [] \<and> (\<exists>b. complete L b ms \<and> items (p_out_buffers p') = items (p_out_buffers p) @ [b])
       else items (p_out_buffers p') = items (p_out_buffers p))"
  using assms
proof (cases w)
  case (O_Server s)
  then obtain b bs where b: "items (p_out_buffers p) = b # bs" "length (ob_data b) \<le> L" using assms(4) by auto
  then obtain q where "aq_pop (pe_ob pe) (p_out_buffers p) = (Some b, q)" "items q = bs" "cap q = cap (p_out_buffers p)"
    using ob.pop_Cons by blast
  then show ?thesis using assms(1,2) O_Server b by (auto simp: complete_reset)
next
  case (O_Receive n s ob b wr)
  show ?thesis
  proof (cases n)
    case 0
    then show ?thesis using assms O_Receive by (auto simp: complete_def)
  next
    case (Suc k)
    obtain go s' ob' b' wr' where r: "out_buffer_round (pe_env pe) now net s ob b wr = Some (go, s', ob', b', wr', net')"
      and w': "w' = (if go then O_Receive k s' ob' b' wr' else O_Return_Buffer s' ob' b')" "p' = p"
      using assms(1) O_Receive Suc by (auto elim!: bind_SomeE case_prod_SomeE)
    have h: "holds_messages L ob ms" "ib_index (lp_writer wr) = length (records ms)" "length ms + Suc k = 100000"
      using assms(2) O_Receive Suc by auto
    show ?thesis using out_round_state [OF r h(1,2)] w' h complete_finished [OF h(1)] O_Receive Suc by (auto split: if_splits)
  qed
qed (auto simp: ob.push_room complete_def lp_default_def split: prod.splits option.splits)


lemma filled_step:
  assumes f: "buffers_filled L xs ret (items (p_out_buffers p)) os ms"
    and i: "i < length os" and t: "out_task_step pe now (os ! i) p net = Some (w', p', net')"
    and sizes: "length os \<le> length xs" "length xs \<le> cap (p_out_buffers p)" "\<forall>b \<in> set xs. length (ob_data b) \<le> L"
  shows "cap (p_out_buffers p') = cap (p_out_buffers p)
    \<and> (\<exists>ret. buffers_filled L xs ret (items (p_out_buffers p')) (os[i := w']) (ms(i := ms i @ out_message pe now (os ! i) net)))"
proof -
  let ?S = "workers_in started os" and ?D = "workers_in out_done os" and ?m = "out_message pe now (os ! i) net"
  obtain bs where ret: "distinct ret" "set ret = ?D" and q: "items (p_out_buffers p) = drop (card ?S) xs @ bs"
    and bs: "list_all2 (\<lambda>b i. complete L b (ms i)) bs ret" and st: "\<forall>i < length os. out_state L (os ! i) (ms i)"
    using f by (auto simp: buffers_filled_def)
  have card: "length bs = card ?D" using ret bs distinct_card [of ret] by (auto dest: list_all2_lengthD)
  have le: "card ?S \<le> length os" using card_mono [of "{..<length os}" ?S] by (auto simp: workers_in_def)
  have nd: "\<not> out_done (os ! i)" using t by (cases "os ! i") auto
  then have out: "i \<notin> set ret" using ret by auto
  have room: "length (items (p_out_buffers p)) < cap (p_out_buffers p)" if "started (os ! i)"
  proof -
    have "?D \<subseteq> ?S - {i}" using nd by (auto dest: done_started)
    then have "?D \<subset> ?S" using that i by auto
    then have "card ?D < card ?S" by (simp add: psubset_card_mono)
    then show ?thesis using card q le sizes by simp
  qed
  have less: "card ?S < length xs" if "\<not> started (os ! i)"
  proof -
    have "?S \<subseteq> {..<length os} - {i}" using that by auto
    then have "?S \<subset> {..<length os}" using i by blast
    then show ?thesis using psubset_card_mono [of "{..<length os}" ?S] sizes(1) by simp
  qed
  then have fresh: "\<exists>b bs. items (p_out_buffers p) = b # bs \<and> length (ob_data b) \<le> L" if "\<not> started (os ! i)"
    using that q sizes(3) by (simp add: Cons_nth_drop_Suc [symmetric])
  note s = out_step_state [OF t st [rule_format, OF i] room fresh]
  have st': "\<forall>j < length (os[i := w']). out_state L (os[i := w'] ! j) ((ms(i := ms i @ ?m)) j)"
    using s st i by (auto simp: nth_list_update)
  have S': "workers_in started (os[i := w']) = insert i ?S" using s i by (simp add: workers_in_update)
  have D': "workers_in out_done (os[i := w']) = (if out_done w' then insert i ?D else ?D)" using i nd by (auto simp: workers_in_update)
  show ?thesis
  proof (cases "\<not> started (os ! i) \<or> \<not> out_done w'")
    case True
    have "items (p_out_buffers p') = drop (card (insert i ?S)) xs @ bs"
    proof (cases "started (os ! i)")
      case True
      then have "insert i ?S = ?S" using i by auto
      then show ?thesis using s i q True \<open>\<not> started (os ! i) \<or> \<not> out_done w'\<close> by simp
    next
      case False
      then have "card (insert i ?S) = Suc (card ?S)" by simp
      then show ?thesis using s i q False less by (simp add: tl_append_if tl_drop drop_Suc)
    qed
    moreover have "\<not> out_done w'" using True s st i by auto
    ultimately have "buffers_filled L xs ret (items (p_out_buffers p')) (os[i := w']) (ms(i := ms i @ ?m))"
      unfolding buffers_filled_def S' using st' D' ret complete_other [OF bs out] by auto
    then show ?thesis using s i by blast
  next
    case False
    then obtain b where b: "complete L b (ms i)" "items (p_out_buffers p') = items (p_out_buffers p) @ [b]" "?m = []"
      using s i by auto
    have "insert i ?S = ?S" using False i by auto
    moreover have "list_all2 (\<lambda>b j. complete L b ((ms(i := ms i @ ?m)) j)) (bs @ [b]) (ret @ [i])"
      using bs b(1,3) by (simp add: list_all2_appendI)
    ultimately have "buffers_filled L xs (ret @ [i]) (items (p_out_buffers p')) (os[i := w']) (ms(i := ms i @ ?m))"
      unfolding buffers_filled_def S' using st' D' ret False out b(2) q by auto
    then show ?thesis using s i by blast
  qed
qed

lemma out_trace_filled:
  assumes "out_trace pe (p0, net0, map O_Server ss) st ms" "length ss \<le> length (items (p_out_buffers p0))"
    "length (items (p_out_buffers p0)) \<le> cap (p_out_buffers p0)" "\<forall>b \<in> set (items (p_out_buffers p0)). length (ob_data b) \<le> L"
  shows "case st of (p, net, os) \<Rightarrow> length os = length ss \<and> cap (p_out_buffers p) = cap (p_out_buffers p0)
    \<and> (\<exists>ret. buffers_filled L (items (p_out_buffers p0)) ret (items (p_out_buffers p)) os ms)"
  using assms(1)
proof (induction rule: out_trace.induct)
  case start
  have "workers_in P (map O_Server ss) = {}" if "\<And>s. \<not> P (O_Server s)" for P using that by (auto simp: workers_in_def)
  from this [of out_done] this [of started]
  have "buffers_filled L (items (p_out_buffers p0)) [] (items (p_out_buffers p0)) (map O_Server ss) (\<lambda>_. [])"
    unfolding buffers_filled_def by (auto intro!: exI [of _ "[]"])
  then show ?case by auto
next
  case (step p net os ms i now w' p' net')
  then show ?case using filled_step [OF _ step.hyps(2,3)] assms(2-) by (auto simp del: fun_upd_apply)
qed

end

subsection \<open>Reading the buffers\<close>

text \<open>
  What the host does after \<open>receive_blocking_out_buffer\<close>: it takes the next out buffer and reads
  the messages in it, until a call returns no messages.
\<close>

fun read_out_buffers ::
  "nat \<Rightarrow> ('rq, 'rb, 'ob, 'su) pool_env \<Rightarrow> ('rq, 'rb, 'ob, 'su) pool \<Rightarrow> bytes
     \<Rightarrow> (message list list \<times> ('rq, 'rb, 'ob, 'su) pool \<times> bytes) option" where
  "read_out_buffers 0 pe p receive_buffer = None"
| "read_out_buffers (Suc n) pe p receive_buffer = do {
     (counts, p, receive_buffer) \<leftarrow> get_next_out_buffer pe p receive_buffer;
     if obc_count counts = 0 then Some ([], p, receive_buffer)
     else do {
       ms \<leftarrow> read_records (unat (obc_count counts)) lp_default receive_buffer;
       (rest, p, receive_buffer) \<leftarrow> read_out_buffers n pe p receive_buffer;
       Some (ms # rest, p, receive_buffer) } }"

text \<open>The messages that the buffers of a queue hold, in order.\<close>

abbreviation contents :: "nat \<Rightarrow> out_buffer list \<Rightarrow> message list list \<Rightarrow> bool" where
  "contents L \<equiv> list_all2 (\<lambda>b ms. complete L b ms \<and> length ms < 100000)"

lemma complete_count: "complete L b ms \<Longrightarrow> unat (ob_count b) = length ms"
  by (auto simp: complete_def holds_messages_def unat_of_nat)

lemma complete_empty: "complete L b ms \<Longrightarrow> ob_count b = 0 \<longleftrightarrow> ms = []"
  using complete_count [of L b ms] by (metis length_0_conv unat_0 unat_0_iff)

lemma complete_read:
  assumes "complete L b ms" "length ms < 100000" "L < 2 ^ 32" "L \<le> length buf"
  shows "unat (ob_bytes_written b) = length (records ms)" "length (records ms) \<le> length (ob_data b)" "length (records ms) \<le> length buf"
    "read_records (length ms) lp_default (overwrite buf 0 (take (length (records ms)) (ob_data b))) = Some ms"
    "complete L (b\<lparr>ob_bytes_written := 0, ob_count := 0\<rparr>) []"
proof -
  have h: "length (records ms) \<le> length (ob_data b)" "length (ob_data b) \<le> L" "take (length (records ms)) (ob_data b) = records ms"
    "\<forall>m \<in> set ms. length (snd (snd m)) < 2 ^ 32" "ob_bytes_written b = word_of_nat (length (records ms))"
    using assms(1,2) by (auto simp: complete_def holds_messages_def)
  show "unat (ob_bytes_written b) = length (records ms)" using h(1,2,5) assms(3) by (simp add: unat_of_nat)
  show "length (records ms) \<le> length (ob_data b)" "length (records ms) \<le> length buf" using h(1,2) assms(4) by simp_all
  show "read_records (length ms) lp_default (overwrite buf 0 (take (length (records ms)) (ob_data b))) = Some ms"
    using h(3,4) by (intro read_records_eq [where rest = "drop (length (records ms)) buf"]) (simp_all add: lp_default_def overwrite_def)
  show "complete L (b\<lparr>ob_bytes_written := 0, ob_count := 0\<rparr>) []" using h(2) by (rule complete_reset)
qed

context out_queue
begin

lemma next_out_buffer_none:
  assumes "\<forall>b \<in> set (items (p_out_buffers p)). ob_count b = 0" "length (items (p_out_buffers p)) \<le> cap (p_out_buffers p)"
    "n \<le> length (items (p_out_buffers p))"
  shows "\<exists>q. next_out_buffer_loop n pe p buf = Some (obc_default, p\<lparr>p_out_buffers := q\<rparr>, buf)
    \<and> mset (items q) = mset (items (p_out_buffers p)) \<and> cap q = cap (p_out_buffers p)"
  using assms
proof (induction n arbitrary: p)
  case (Suc n)
  then obtain b bs where b: "items (p_out_buffers p) = b # bs" by (cases "items (p_out_buffers p)") auto
  obtain q where q: "aq_pop (pe_ob pe) (p_out_buffers p) = (Some b, q)" "items q = bs" "cap q = cap (p_out_buffers p)"
    using ob.pop_Cons [OF b] by auto
  let ?p = "p\<lparr>p_out_buffers := push_or_drop (pe_ob pe) b q\<rparr>"
  have push: "items (p_out_buffers ?p) = bs @ [b]" "cap (p_out_buffers ?p) = cap (p_out_buffers p)"
    using ob.push_room [of q b] q b Suc.prems(2) by simp_all
  have "\<exists>q. next_out_buffer_loop n pe ?p buf = Some (obc_default, ?p\<lparr>p_out_buffers := q\<rparr>, buf)
    \<and> mset (items q) = mset (items (p_out_buffers ?p)) \<and> cap q = cap (p_out_buffers ?p)"
    by (rule Suc.IH) (use push b Suc.prems in simp_all)
  then show ?case using q(1) push b Suc.prems(1) by auto
next
  case 0
  then show ?case by (intro exI [of _ "p_out_buffers p"]) simp
qed

lemma read_contents:
  assumes "contents L (items (p_out_buffers p)) mss" "length (filter (\<lambda>ms. ms \<noteq> []) mss) < n" "L < 2 ^ 32" "L \<le> length buf"
    "length (items (p_out_buffers p)) \<le> cap (p_out_buffers p)"
  shows "\<exists>q buf'. read_out_buffers n pe p buf = Some (filter (\<lambda>ms. ms \<noteq> []) mss, p\<lparr>p_out_buffers := q\<rparr>, buf')
    \<and> length (items q) = length (items (p_out_buffers p)) \<and> (\<forall>b \<in> set (items q). complete L b [])"
  using assms
proof (induction n arbitrary: p mss buf)
  case (Suc n)
  show ?case
  proof (cases "filter (\<lambda>ms. ms \<noteq> []) mss")
    case Nil
    then have all: "complete L b []" if "b \<in> set (items (p_out_buffers p))" for b
      using Suc.prems(1) that by (auto simp: list_all2_conv_all_nth in_set_conv_nth filter_empty_conv) (metis nth_mem)
    then have "\<forall>b \<in> set (items (p_out_buffers p)). ob_count b = 0" using complete_empty by blast
    then obtain q where "get_next_out_buffer pe p buf = Some (obc_default, p\<lparr>p_out_buffers := q\<rparr>, buf)"
      "mset (items q) = mset (items (p_out_buffers p))"
      using next_out_buffer_none [OF _ Suc.prems(5) le_refl, of buf] by (auto simp: get_next_out_buffer_def ob.len_law)
    note q = this
    have "length (items q) = length (items (p_out_buffers p))" "set (items q) = set (items (p_out_buffers p))"
      using q(2) by (rule mset_eq_length, rule mset_eq_setD)
    then show ?thesis using Nil all q(1) by (intro exI [of _ q] exI [of _ buf]) (simp add: obc_default_def)
  next
    case (Cons ms rest)
    then obtain ys zs where mss: "mss = ys @ ms # zs" "\<forall>y \<in> set ys. y = []" "ms \<noteq> []" "rest = filter (\<lambda>ms. ms \<noteq> []) zs"
      by (auto simp: filter_eq_Cons_iff)
    then obtain bs b cs where q: "items (p_out_buffers p) = bs @ b # cs" "contents L bs ys" "contents L cs zs" "complete L b ms" "length ms < 100000"
      using Suc.prems(1) by (auto simp: list_all2_append2 list_all2_Cons2)
    have bs: "\<forall>y \<in> set bs. complete L y []" "\<forall>y \<in> set bs. ob_count y = 0"
      using q(2) mss(2) complete_empty by (auto simp: list_all2_conv_all_nth in_set_conv_nth) (metis nth_mem)+
    let ?b = "b\<lparr>ob_bytes_written := 0, ob_count := 0\<rparr>"
    note r = complete_read [OF q(4,5) Suc.prems(3,4)]
    have cnt: "ob_count b \<noteq> 0" "unat (ob_count b) = length ms" using complete_empty [OF q(4)] complete_count [OF q(4)] mss(3) by auto
    obtain q' where g: "get_next_out_buffer pe p buf = Some (\<lparr>obc_bytes_written = ob_bytes_written b, obc_count = ob_count b\<rparr>,
        p\<lparr>p_out_buffers := q'\<rparr>, overwrite buf 0 (take (length (records ms)) (ob_data b)))"
      "items q' = cs @ bs @ [?b]" "cap q' = cap (p_out_buffers p)"
      using next_out_buffer_loop_first [OF ob.bounded_queue_axioms q(1) bs(2) cnt(1), of "length (items (p_out_buffers p))" buf]
        q(1) r(1-3) Suc.prems(5)
      by (auto simp: get_next_out_buffer_def ob.len_law simp del: next_out_buffer_loop.simps)
    have "contents L (items q') (zs @ map (\<lambda>_. []) bs @ [[]])"
      unfolding g(2) using q(3) bs(1) r(5) by (intro list_all2_appendI) (auto simp: list.rel_map intro!: list.rel_refl_strong)
    moreover have "filter (\<lambda>ms. ms \<noteq> []) (zs @ map (\<lambda>_. []) bs @ [[]]) = rest" using mss(4) by (simp add: filter_empty_conv)
    ultimately have "\<exists>q'' buf'. read_out_buffers n pe (p\<lparr>p_out_buffers := q'\<rparr>) (overwrite buf 0 (take (length (records ms)) (ob_data b)))
        = Some (rest, p\<lparr>p_out_buffers := q''\<rparr>, buf')
      \<and> length (items q'') = length (items q') \<and> (\<forall>b \<in> set (items q''). complete L b [])"
      using Suc.IH [of "p\<lparr>p_out_buffers := q'\<rparr>" "zs @ map (\<lambda>_. []) bs @ [[]]" "overwrite buf 0 (take (length (records ms)) (ob_data b))"]
        Suc.prems(2-) g q(1) Cons r(2,3) by simp
    then show ?thesis using g q(1) Cons cnt r(4) by auto
  qed
qed simp

lemma out_trace_read:
  assumes t: "out_trace pe (p, net, out_tasks p) (p', net', os) ms" "list_all out_done os" "\<forall>i < length os. length (ms i) < 100000"
    and fresh: "\<forall>b \<in> set (items (p_out_buffers p)). complete L b []"
    and sizes: "length (p_servers p) \<le> length (items (p_out_buffers p))" "length (items (p_out_buffers p)) \<le> cap (p_out_buffers p)"
      "L < 2 ^ 32" "L \<le> length buf"
  shows "\<exists>ret p'' buf'. mset ret = mset [0..<length (p_servers p)]
    \<and> read_out_buffers (Suc (length (p_servers p))) pe (finish_out_tasks p' os) buf = Some (filter (\<lambda>m. m \<noteq> []) (map ms ret), p'', buf')
    \<and> length (items (p_out_buffers p'')) = length (items (p_out_buffers p)) \<and> (\<forall>b \<in> set (items (p_out_buffers p'')). complete L b [])"
proof -
  let ?N = "length (p_servers p)" and ?xs = "items (p_out_buffers p)"
  have o: "out_tasks p = map O_Server (map snd (p_servers p))" by (simp add: out_tasks_def case_prod_beta)
  have lens: "\<forall>b \<in> set ?xs. length (ob_data b) \<le> L" using fresh by (auto simp: complete_def holds_messages_def)
  from out_trace_filled [OF t(1) [unfolded o] _ sizes(2) lens] sizes(1)
  obtain ret where len: "length os = ?N" and cap: "cap (p_out_buffers p') = cap (p_out_buffers p)"
    and f: "buffers_filled L ?xs ret (items (p_out_buffers p')) os ms" by auto
  have all: "workers_in P os = {..<?N}" if "\<And>w. out_done w \<Longrightarrow> P w" for P
    using t(2) len that by (auto simp: workers_in_def list_all_length)
  have D: "workers_in out_done os = {..<?N}" by (rule all)
  have S: "workers_in started os = {..<?N}" by (rule all) (rule done_started)
  obtain bs where ret: "distinct ret" "set ret = {..<?N}" and q: "items (p_out_buffers p') = drop ?N ?xs @ bs"
    and bs: "list_all2 (\<lambda>b i. complete L b (ms i)) bs ret"
    using f by (auto simp: buffers_filled_def D S)
  have perm: "mset ret = mset [0..<?N]" using ret set_eq_iff_mset_eq_distinct [of ret "[0..<?N]"] by (simp add: lessThan_atLeast0)
  then have n: "length ret = ?N" by (metis length_upt minus_nat.diff_0 mset_eq_length)
  have "contents L bs (map ms ret)"
    using bs ret(2) t(3) len by (auto simp: list_all2_conv_all_nth)
  moreover have "contents L (drop ?N ?xs) (map (\<lambda>_. []) (drop ?N ?xs))"
    using fresh by (auto simp: list.rel_map dest: in_set_dropD intro!: list.rel_refl_strong)
  ultimately have "contents L (items (p_out_buffers (finish_out_tasks p' os))) (map (\<lambda>_. []) (drop ?N ?xs) @ map ms ret)"
    unfolding q by (simp add: finish_out_tasks_def q list_all2_appendI)
  moreover have "filter (\<lambda>m. m \<noteq> []) (map (\<lambda>_. []) (drop ?N ?xs) @ map ms ret) = filter (\<lambda>m. m \<noteq> []) (map ms ret)"
    by (simp add: filter_empty_conv)
  moreover have "length (filter (\<lambda>m. m \<noteq> []) (map ms ret)) < Suc ?N" using n length_filter_le [of "\<lambda>m. m \<noteq> []" "map ms ret"] by simp
  moreover have "length (items (p_out_buffers p')) = length ?xs" using q bs n sizes(1) by (auto dest: list_all2_lengthD)
  ultimately show ?thesis
    using read_contents [of L "finish_out_tasks p' os" "map (\<lambda>_. []) (drop ?N ?xs) @ map ms ret" "Suc ?N" buf] sizes cap perm
    by (auto simp: finish_out_tasks_def)
qed

end

interpretation sample_out: out_queue sample_pool_env fst snd
  by (simp add: out_queue_def sample_pool_env_def fifo.bounded_queue_axioms)

lemma complete_Nil: "complete L b [] \<longleftrightarrow> ob_count b = 0 \<and> ob_bytes_written b = 0 \<and> length (ob_data b) \<le> L"
  by (auto simp: complete_def holds_messages_def)

lemma sample_out_trace:
  "\<exists>s p net. out_trace sample_pool_env
     (sample_pool\<lparr>p_out_buffers := ([\<lparr>ob_data = replicate 40 0, ob_bytes_written = 0, ob_count = 0\<rparr>], 1)\<rparr>, arriving [0, 9], [O_Server (sample_server 0)])
     (p, net, [O_Done s]) ((\<lambda>_. [])(0 := [(0, from_socket_addr sample_peer, [9])]))"
proof -
  let ?ob = "\<lparr>ob_data = replicate 40 0, ob_bytes_written = 0, ob_count = 0\<rparr>" and ?m = "(0, from_socket_addr sample_peer, [9]) :: message"
  let ?p = "sample_pool\<lparr>p_out_buffers := ([?ob], 1)\<rparr>" and ?s0 = "sample_server 0" and ?b0 = "replicate 10 0 :: bytes"
  let ?run = "out_trace sample_pool_env (?p, arriving [0, 9], [O_Server ?s0])"
  obtain t t' net b where r: "receive_loop sample_env 7 (arriving [0, 9]) ?s0 ?b0 =
       Some (\<lparr>trr_channel = 0, trr_address = from_socket_addr sample_peer, trr_length = 1, trr_error = 0\<rparr>, t, net, b)"
     "take 1 b = [9]" "length b = 10" "receive_loop sample_env 7 net t b = Some (trr_default, t', net, b)"
    using sample_receives by blast
  have sl: "slice b 0 1 = Some [9]" using r(2,3) by (simp add: slice_def)
  obtain wr ob1 where one: "out_buffer_round sample_env 7 (arriving [0, 9]) ?s0 ?ob ?b0 lp_default = Some (True, t, ob1, b, wr, net)"
    using r(1) sl by (simp add: out_buffer_round_def lp_default_def lp_write_eq)
  obtain ob2 where two: "out_buffer_round sample_env 7 net t ob1 b wr = Some (False, t', ob2, b, wr, net)"
    using r(4) by (simp add: out_buffer_round_def trr_default_def)
  have step: "?run (p, n, [w]) ms \<Longrightarrow> out_task_step sample_pool_env 7 w p n = Some (w', p', n') \<Longrightarrow>
      ms' = ms(0 := ms 0 @ out_message sample_pool_env 7 w n) \<Longrightarrow> ?run (p', n', [w']) ms'" for p n w ms w' p' n' ms'
    using out_trace.step [of sample_pool_env "(?p, arriving [0, 9], [O_Server ?s0])" p n "[w]" ms 0 7 w' p' n'] by simp
  let ?n = "arriving [0, 9]" and ?e = "\<lambda>_ :: nat. [] :: message list" and ?c = "(\<lambda>_ :: nat. [])(0 := [?m])"
  let ?p1 = "?p\<lparr>p_out_buffers := ([], 1)\<rparr>"
  have "?run (?p1, ?n, [O_Out ?s0 ?ob]) ?e"
    by (rule step [OF out_trace.start]) (simp_all add: sample_pool_env_def fifo_queue_def fun_eq_iff)
  then have "?run (?p1\<lparr>p_receive_buffers := ([], 1)\<rparr>, ?n, [O_Receive 100000 ?s0 ?ob ?b0 lp_default]) ?e"
    by (rule step) (simp_all add: sample_pool_env_def fifo_queue_def fun_eq_iff)
  moreover have "out_task_step sample_pool_env 7 (O_Receive k ?s0 ?ob ?b0 lp_default) p ?n = Some (O_Receive (k - 1) t ob1 b wr, p, net)
      \<and> out_message sample_pool_env 7 (O_Receive k ?s0 ?ob ?b0 lp_default) ?n = [?m]" if "0 < k" for k p
    using that one r(1,2) by (cases k) (simp_all add: sample_pool_env_def)
  ultimately have "?run (?p1\<lparr>p_receive_buffers := ([], 1)\<rparr>, net, [O_Receive 99999 t ob1 b wr]) ?c"
    by - (rule step, assumption, simp_all)
  moreover have "out_task_step sample_pool_env 7 (O_Receive k t ob1 b wr) p net = Some (O_Return_Buffer t' ob2 b, p, net)
      \<and> out_message sample_pool_env 7 (O_Receive k t ob1 b wr) net = []" if "0 < k" for k p
    using that two r(4) by (cases k) (simp_all add: sample_pool_env_def trr_default_def)
  ultimately have "?run (?p1\<lparr>p_receive_buffers := ([], 1)\<rparr>, net, [O_Return_Buffer t' ob2 b]) ?c"
    by - (rule step, assumption, simp_all)
  then have "?run (?p1\<lparr>p_receive_buffers := ([b], 1)\<rparr>, net, [O_Return_Out t' ob2]) ?c"
    by (rule step) (simp_all add: sample_pool_env_def fifo_queue_def)
  then have "?run (?p1\<lparr>p_receive_buffers := ([b], 1), p_out_buffers := ([ob2], 1)\<rparr>, net, [O_Done t']) ?c"
    by (rule step) (simp_all add: sample_pool_env_def fifo_queue_def)
  then show ?thesis by blast
qed

subsection \<open>The blocking receive into the queues\<close>

text \<open>Worker \<open>i\<close> of \<open>receive_blocking\<close> has the server of key \<open>i\<close> and never gives it away.\<close>

definition holds_servers :: "(u16 \<times> tachyon) list \<Rightarrow> task list \<Rightarrow> bool" where
  "holds_servers xs ts \<longleftrightarrow> length ts = length xs
     \<and> (\<forall>i < length xs. \<exists>s. task_servers (ts ! i) = [s] \<and> t_id s = fst (xs ! i) \<and> s \<in> sound)"

lemma receive_server_round_id: "receive_server_round env now net s q b = Some (go, s', q', b', net') \<Longrightarrow> t_id s' = t_id s"
  by (auto simp: receive_server_round_def elim!: bind_SomeE case_prod_SomeE dest!: receive_loop_id split: if_splits)

lemma task_step_server:
  assumes "task_step pe now t p net = Some (t', p', net')" "\<not> finished True t" "task_servers t = [s]" "s \<in> sound"
  shows "\<exists>s'. task_servers t' = [s'] \<and> t_id s' = t_id s \<and> s' \<in> sound"
proof (cases t)
  case (T_Receive n s0 q b)
  then show ?thesis using assms round_sound [of "pe_env pe" now net s q b]
    by (cases n) (auto dest: receive_server_round_id elim!: bind_SomeE case_prod_SomeE split: if_split_asm)
qed (use assms in \<open>auto split: prod.splits option.splits\<close>)

lemma workers_hold_servers:
  assumes "workers_run pe True (p0, net0, ts0) n msgs ids (p, net, ts)" "holds_servers xs ts0"
  shows "holds_servers xs ts"
  using assms
proof (induction n msgs ids "(p, net, ts)" arbitrary: p net ts rule: workers_run.induct)
  case (step n msgs ids p1 net1 ts1 i now t' p' net')
  then have h: "holds_servers xs ts1" by simp
  then obtain s where s: "task_servers (ts1 ! i) = [s]" "t_id s = fst (xs ! i)" "s \<in> sound" using step.hyps(3) by (auto simp: holds_servers_def)
  obtain s' where "task_servers t' = [s']" "t_id s' = fst (xs ! i)" "s' \<in> sound"
    using task_step_server [OF step.hyps(5,4) s(1,3)] s(2) by auto
  with h step.hyps(3) show ?case unfolding holds_servers_def by (simp add: nth_list_update)
qed

lemma finished_holding: "finished True t \<Longrightarrow> task_servers t = [s] \<Longrightarrow> t = T_Return_Server s"
  by (cases t) auto

lemma finished_servers:
  assumes "holds_servers xs ts" "list_all (finished True) ts"
  shows "\<exists>ss. ts = map T_Return_Server ss \<and> length ss = length xs \<and> (\<forall>i < length xs. t_id (ss ! i) = fst (xs ! i) \<and> ss ! i \<in> sound)"
proof -
  have s: "ts ! i = T_Return_Server (hd (task_servers (ts ! i)))" if "i < length ts" for i
    using assms that finished_holding [of "ts ! i"] by (fastforce simp: holds_servers_def list_all_length)
  let ?ss = "map (\<lambda>t. hd (task_servers t)) ts"
  have "ts = map T_Return_Server ?ss" by (rule nth_equalityI) (simp_all flip: s)
  moreover have "length ?ss = length xs \<and> (\<forall>i < length xs. t_id (?ss ! i) = fst (xs ! i) \<and> ?ss ! i \<in> sound)"
    using assms(1) by (force simp: holds_servers_def)
  ultimately show ?thesis by blast
qed

lemma returned_idle:
  "concat (map task_queues (map T_Return_Server ss)) = []" "concat (map task_buffers (map T_Return_Server ss)) = []"
  "concat (map task_servers (map T_Return_Server ss)) = ss"
  by (induction ss) simp_all

lemma blocking_start:
  assumes "pool_ready rq_items rq_cap rb_items rb_cap su_items su_cap p"
  shows "holds_servers (p_servers p) (blocking_tasks p)"
    "concat (map task_queues (blocking_tasks p)) = []" "concat (map task_buffers (blocking_tasks p)) = []"
    "length (concat (map task_servers (blocking_tasks p))) = length (p_servers p)"
proof -
  have "\<And>i. i < length (p_servers p) \<Longrightarrow> t_id (snd (p_servers p ! i)) = fst (p_servers p ! i) \<and> t_inv (snd (p_servers p ! i))"
    using assms by (metis (mono_tags, lifting) case_prodD nth_mem pool_ready_def prod.collapse)
  then show "holds_servers (p_servers p) (blocking_tasks p)"
    by (auto simp: holds_servers_def blocking_tasks_def case_prod_beta intro: soundI)
  have "concat (map task_queues (map (\<lambda>(_, server). T_Server server) xs)) = []"
    "concat (map task_buffers (map (\<lambda>(_, server). T_Server server) xs)) = []"
    "length (concat (map task_servers (map (\<lambda>(_, server). T_Server server) xs))) = length xs" for xs :: "(u16 \<times> tachyon) list"
    by (induction xs) auto
  then show "concat (map task_queues (blocking_tasks p)) = []" "concat (map task_buffers (blocking_tasks p)) = []"
    "length (concat (map task_servers (blocking_tasks p))) = length (p_servers p)"
    by (simp_all only: blocking_tasks_def)
qed

lemma sample_blocking_run:
  "\<exists>n ids p net s. workers_run sample_pool_env True (sample_pool, arriving [0, 9], [T_Server (sample_server 0)]) n [[9]] ids (p, net, [T_Return_Server s])"
proof -
  let ?s0 = "sample_server 0" and ?b0 = "replicate 10 0 :: bytes" and ?n = "arriving [0, 9]"
  let ?run = "\<lambda>msgs st. \<exists>n ids. workers_run sample_pool_env True (sample_pool, ?n, [T_Server ?s0]) n msgs ids st"
  obtain t t' net b where r: "receive_loop sample_env 7 ?n ?s0 ?b0 =
       Some (\<lparr>trr_channel = 0, trr_address = from_socket_addr sample_peer, trr_length = 1, trr_error = 0\<rparr>, t, net, b)"
     "take 1 b = [9]" "length b = 10" "receive_loop sample_env 7 net t b = Some (trr_default, t', net, b)"
    using sample_receives by blast
  have one: "receive_server_round sample_env 7 ?n ?s0 [] ?b0 = Some (True, t, [[9]], b, net)"
    using r(1-3) by (simp add: receive_server_round_def slice_def)
  have two: "receive_server_round sample_env 7 net t [[9]] b = Some (False, t', [[9]], b, net)"
    using r(4) by (simp add: receive_server_round_def trr_default_def)
  have step: "?run msgs (p, n, [w]) \<Longrightarrow> \<not> finished True w \<Longrightarrow> task_step sample_pool_env 7 w p n = Some (w', p', n') \<Longrightarrow>
      msgs' = msgs @ emitted w w' \<Longrightarrow> ?run msgs' (p', n', [w'])" for p n w msgs w' p' n' msgs'
    using workers_run.step [of sample_pool_env True "(sample_pool, ?n, [T_Server ?s0])" _ msgs _ p n "[w]" 0 7 w' p' n'] by fastforce
  let ?p = "sample_pool\<lparr>p_receive_queue := ([], 1)\<rparr>"
  have "?run [] (sample_pool, ?n, [T_Server ?s0])" using workers_run.start by blast
  then have "?run [] (?p, ?n, [T_Queue ?s0 []])"
    by (rule step) (simp_all add: sample_pool_env_def fifo_queue_def)
  then have "?run [] (?p\<lparr>p_receive_buffers := ([], 1)\<rparr>, ?n, [T_Receive 100000 ?s0 [] ?b0])"
    by (rule step) (simp_all add: sample_pool_env_def fifo_queue_def)
  moreover have "task_step sample_pool_env 7 (T_Receive k ?s0 [] ?b0) p ?n = Some (T_Receive (k - 1) t [[9]] b, p, net)" if "0 < k" for k p
    using that one by (cases k) (simp_all add: sample_pool_env_def)
  ultimately have "?run [[9]] (?p\<lparr>p_receive_buffers := ([], 1)\<rparr>, net, [T_Receive 99999 t [[9]] b])"
    by - (rule step, assumption, simp_all)
  moreover have "task_step sample_pool_env 7 (T_Receive k t [[9]] b) p net = Some (T_Return_Buffer t' [[9]] b, p, net)" if "0 < k" for k p
    using that two by (cases k) (simp_all add: sample_pool_env_def)
  ultimately have "?run [[9]] (?p\<lparr>p_receive_buffers := ([], 1)\<rparr>, net, [T_Return_Buffer t' [[9]] b])"
    by - (rule step, assumption, simp_all)
  then have "?run [[9]] (?p\<lparr>p_receive_buffers := ([b], 1)\<rparr>, net, [T_Return_Queue t' [[9]]])"
    by (rule step) (simp_all add: sample_pool_env_def fifo_queue_def)
  then have "?run [[9]] (?p\<lparr>p_receive_buffers := ([b], 1), p_receive_queue := ([[[9]]], 1)\<rparr>, net, [T_Return_Server t'])"
    by (rule step) (simp_all add: sample_pool_env_def fifo_queue_def)
  then show ?thesis by blast
qed

subsection \<open>Properties\<close>





end
