(* ===== verification/Receiver_Tests.thy ===== *)
theory Receiver_Tests
  imports Receiver_Nacks Receiver_Traces
begin

text \<open>
  The unit tests of \<^verbatim>\<open>src/src/tachyon/receiver.rs\<close> as definitions over the model of the receiver, with
  the proofs that they pass. An assertion that fails is a panic, so a test has the value
  \<open>Some ()\<close> exactly when it passes.
\<close>

definition check :: "bool \<Rightarrow> unit option" where
  "check b = (if b then Some () else None)"

lemma check_simps [simp]: "check True = Some ()" "check False = None" "check b = Some () \<longleftrightarrow> b"
  by (simp_all add: check_def)

subsection \<open>The statements of the tests\<close>

text \<open>
  The packets of all tests are 32 bytes of a buffer of 1024 zeros. The statements are: a packet
  that must be accepted or refused, a packet whose result is ignored, assertions on
  \<open>current_sequence\<close>, \<open>last_sequence\<close>, \<open>published.len()\<close> and \<open>is_received\<close>, and
  \<open>take_published\<close>, which must give a message or none.
\<close>

datatype receiver_step =
    Receives u16 bool
  | Receive u16
  | Current u16
  | Last u16
  | Published nat
  | Received u16 bool
  | Takes bool

fun run_step :: "receiver_step \<Rightarrow> receiver \<Rightarrow> receiver option" where
  "run_step (Receives s b) channel = do {
     (receive_result, channel) \<leftarrow> receive_packet channel s (replicate 1024 0) 32;
     check (receive_result = b);
     Some channel }"
| "run_step (Receive s) channel = do {
     (_, channel) \<leftarrow> receive_packet channel s (replicate 1024 0) 32;
     Some channel }"
| "run_step (Current s) channel = do { check (s = r_current_sequence channel); Some channel }"
| "run_step (Last s) channel = do { check (s = r_last_sequence channel); Some channel }"
| "run_step (Published n) channel = do { check (n = length (r_published channel)); Some channel }"
| "run_step (Received s b) channel = do { received \<leftarrow> is_received channel s; check (received = b); Some channel }"
| "run_step (Takes b) channel = do {
     let (value, channel) = take_published channel;
     check ((value \<noteq> None) = b);
     Some channel }"

fun run_steps :: "receiver_step list \<Rightarrow> receiver \<Rightarrow> unit option" where
  "run_steps [] channel = Some ()"
| "run_steps (st # sts) channel = do { channel \<leftarrow> run_step st channel; run_steps sts channel }"

subsection \<open>The tests\<close>

definition test_skipped :: "unit option" where
  "test_skipped = do {
     let channel = receiver_default True;
     let channel = channel\<lparr>r_current_sequence := 0, r_last_sequence := 512 + 10\<rparr>;
     channel \<leftarrow> set_received channel 0;
     run_steps [Receives 1 False, Received 0 False, Current 1, Receives 1 False, Current 2] channel }"

definition test_reset_receive_window :: "unit option" where
  "test_reset_receive_window = do {
     check (65530 = calculate_current_in_window 65530 100);
     check (0 = calculate_current_in_window 0 512);
     check (10 = calculate_current_in_window 0 (512 + 10));
     check (1 = calculate_current_in_window 0 513);
     check (0 = calculate_current_in_window 65533 512) }"

definition wrapping_in_order :: "unit option" where
  "wrapping_in_order = run_steps
     [Receives 65534 True, Current 65534, Published 1,
      Receives 0 True, Current 0, Last 0, Takes True,
      Receives 1 True, Current 1, Takes True,
      Receives 2 True, Last 2, Current 2, Takes True]
     ((receiver_default True)\<lparr>r_current_sequence := 65533\<rparr>)"

definition wrapping_out_of_order :: "unit option" where
  "wrapping_out_of_order = run_steps
     [Receives 65534 True, Current 65534,
      Receives 2 True, Current 65534, Last 2,
      Receives 1 True, Current 65534,
      Receives 0 True, Last 2, Current 2]
     ((receiver_default True)\<lparr>r_current_sequence := 65533\<rparr>)"

fun full_wrap_loop :: "nat \<Rightarrow> u16 \<Rightarrow> receiver \<Rightarrow> unit option" where
  "full_wrap_loop 0 sequence channel = Some ()"
| "full_wrap_loop (Suc n) sequence channel = do {
     (_, channel) \<leftarrow> receive_packet channel sequence (replicate 1024 0) 32;
     check (r_current_sequence channel = sequence);
     let (value, channel) = take_published channel;
     check (value \<noteq> None);
     full_wrap_loop n (next_sequence sequence) channel }"

definition full_wrap :: "unit option" where
  "full_wrap = full_wrap_loop (200000 - 1) 1 (receiver_default True)"

definition publish_consume_publish :: "unit option" where
  "publish_consume_publish = run_steps
     [Receive 1, Receive 2, Takes True, Takes True, Takes False,
      Receive 4, Receive 3, Takes True, Takes True, Takes False,
      Receive 5, Takes True, Takes False, Published 0]
     (receiver_default True)"

definition receive_older_fails :: "unit option" where
  "receive_older_fails = run_steps [Receives 1 True, Receives 1 False, Receives 0 False] (receiver_default True)"

definition ordered_flow_test :: "unit option" where
  "ordered_flow_test = run_steps
     [Receives 1 True, Published 1,
      Receives 5 True, Published 1, Current 1, Last 5,
      Receives 3 True, Current 1,
      Receive 2, Current 3, Published 3,
      Receive 4, Current 5, Last 5, Published 5,
      Takes True, Takes True, Takes True, Takes True, Takes True, Takes False, Published 0]
     (receiver_default True)"

definition unordered_flow_test :: "unit option" where
  "unordered_flow_test = run_steps
     [Receive 1, Published 1,
      Receive 5, Published 2, Current 1, Last 5,
      Receive 3, Current 1,
      Receive 2, Current 3, Published 4,
      Receive 4, Current 5, Last 5, Published 5,
      Takes True, Takes True, Takes True, Takes True, Takes True, Takes False, Published 0]
     (receiver_default False)"

subsection \<open>The tests on the abstract window\<close>

text \<open>The number in reach of the window that a sequence number stands for.\<close>

definition near :: "bytes window \<Rightarrow> u16 \<Rightarrow> nat" where
  "near w s = (let k = w_cur w + (unat s + 65535 - w_cur w mod 65535) mod 65535
     in if k \<le> w_cur w + 1022 then k else k - 65535)"

definition w_test_receive :: "bool \<Rightarrow> u16 \<Rightarrow> bytes window \<Rightarrow> (bool \<times> bytes window) option" where
  "w_test_receive ordered s w =
     (let k = near w s
      in if k \<le> w_cur w + 1022 \<and> w_cur w \<le> k + 30000 \<and> seq_of k = s
         then Some (w_receive ordered 512 k (replicate 32 0) w) else None)"

fun w_step :: "bool \<Rightarrow> receiver_step \<Rightarrow> bytes window \<Rightarrow> bytes window option" where
  "w_step ordered (Receives s b) w = do { (r, w) \<leftarrow> w_test_receive ordered s w; check (r = b); Some w }"
| "w_step ordered (Receive s) w = do { (r, w) \<leftarrow> w_test_receive ordered s w; Some w }"
| "w_step ordered (Current s) w = do { check (s = seq_of (w_cur w)); Some w }"
| "w_step ordered (Last s) w = do { check (s = seq_of (w_last w)); Some w }"
| "w_step ordered (Published n) w = do { check (n = length (w_out w)); Some w }"
| "w_step ordered (Received s b) w =
     (let k = near w s
      in if seq_of k = s \<and> (\<forall>j \<in> w_rcv w. k \<le> j \<and> j \<le> k + 1022) then do { check ((k \<in> w_rcv w) = b); Some w } else None)"
| "w_step ordered (Takes b) w = do { check ((w_out w \<noteq> []) = b); Some (w\<lparr>w_out := tl (w_out w)\<rparr>) }"

fun w_steps :: "bool \<Rightarrow> receiver_step list \<Rightarrow> bytes window \<Rightarrow> unit option" where
  "w_steps ordered [] w = Some ()"
| "w_steps ordered (st # sts) w = do { w \<leftarrow> w_step ordered st w; w_steps ordered sts w }"

lemma rel_take:
  assumes "recv_rel ordered W w r" "take_published r = (v, r')"
  shows "(v \<noteq> None) = (w_out w \<noteq> []) \<and> recv_rel ordered W (w\<lparr>w_out := tl (w_out w)\<rparr>) r'"
  using assms by (auto simp: recv_rel_def take_published_def w_shape_def map_eq_Cons_conv split: list.splits)

lemma w_test_receive_refines:
  assumes "recv_rel ordered 512 w r" "w_test_receive ordered s w = Some (b, w')"
  shows "\<exists>r'. receive_packet r s (replicate 1024 0) 32 = Some (b, r') \<and> recv_rel ordered 512 w' r'"
  using assms(2) receive_packet_refines [OF assms(1), of "near w s" 32 "replicate 1024 0"]
  by (auto simp: w_test_receive_def Let_def split: if_splits)

lemma w_step_refines:
  assumes "recv_rel ordered 512 w r" "w_step ordered st w = Some w'"
  shows "\<exists>r'. run_step st r = Some r' \<and> recv_rel ordered 512 w' r'"
proof (cases st)
  case (Receives s b)
  then show ?thesis using assms w_test_receive_refines [OF assms(1)] by (fastforce elim!: bind_SomeE case_prod_SomeE)
next
  case (Receive s)
  then show ?thesis using assms w_test_receive_refines [OF assms(1)] by (fastforce elim!: bind_SomeE case_prod_SomeE)
next
  case (Published n)
  moreover have "length (r_published r) = length (w_out w)"
    using assms(1) by (auto simp: recv_rel_def dest: map_eq_imp_length_eq)
  ultimately show ?thesis using assms by (auto elim!: bind_SomeE)
next
  case (Received s b)
  let ?k = "near w s"
  have k: "seq_of ?k = s" "in_window ?k (insert ?k (w_rcv w))" "(?k \<in> w_rcv w) = b" "w' = w"
    using assms(2) Received by (auto simp: Let_def in_window_def elim!: bind_SomeE split: if_splits)
  have "is_received r (seq_of ?k) = Some (?k \<in> w_rcv w)"
    using flags_query [OF _ k(2)] assms(1) by (simp add: is_received_def recv_rel_def)
  then show ?thesis using Received k assms(1) by simp
next
  case (Takes b)
  then show ?thesis using assms rel_take [OF assms(1)] by (cases "take_published r") (auto elim!: bind_SomeE)
qed (use assms in \<open>auto simp: recv_rel_def elim!: bind_SomeE\<close>)

lemma w_steps_pass: "recv_rel ordered 512 w r \<Longrightarrow> w_steps ordered sts w = Some () \<Longrightarrow> run_steps sts r = Some ()"
proof (induction sts arbitrary: w r)
  case (Cons st sts)
  then obtain w' where "w_step ordered st w = Some w'" "w_steps ordered sts w' = Some ()" by (auto elim!: bind_SomeE)
  with w_step_refines [OF Cons.prems(1)] Cons.IH show ?case by fastforce
qed simp

text \<open>A new receiver whose counters were set, and numbers that were marked as received.\<close>

abbreviation w_state :: "nat \<Rightarrow> nat \<Rightarrow> nat set \<Rightarrow> bytes window" where
  "w_state c l R \<equiv> \<lparr>w_cur = c, w_last = l, w_rcv = R, w_pend = Map.empty, w_out = []\<rparr>"

lemma rel_at:
  assumes "c \<le> l" "l \<le> c + 1022"
  shows "recv_rel ordered 512 (w_state c l {}) ((receiver_default ordered)\<lparr>r_current_sequence := seq_of c, r_last_sequence := seq_of l\<rparr>)"
  using assms receiver_create_refines [of ordered 512] by (simp add: recv_rel_def receiver_default_def w_shape_def w_init_def)

lemma rel_set_received:
  assumes "recv_rel ordered 512 (w_state c l R) r" "r_buffered r = sb_empty" "c \<le> k" "k \<le> l"
  shows "\<exists>r'. set_received r (seq_of k) = Some r' \<and> recv_rel ordered 512 (w_state c l (insert k R)) r' \<and> r_buffered r' = sb_empty"
  using assms flags_insert [of R "r_received r" k True]
  by (auto simp: set_received_def recv_rel_def w_shape_def bufs_of_def flags_of_def)

lemma buffered_default [simp]: "r_buffered (receiver_default ordered) = sb_empty"
  by (simp add: receiver_default_def receiver_create_def sb_empty_def)


subsection \<open>The tests pass\<close>

lemma w_walk_numeral:
  "w_walk ordered (numeral v) step j w =
     (if j \<in> w_rcv w then
        (if j = w_last w then w_visit step j w else w_walk ordered (pred_numeral v) step (Suc j) (w_visit step j w))
      else if ordered \<or> j = w_last w then w
      else w_walk ordered (pred_numeral v) False (Suc j) w)"
  by (simp add: numeral_eq_Suc)

lemma bind_weak_cong: "x = y \<Longrightarrow> Option.bind x f = Option.bind y f"
  by simp

lemmas window_eval = w_test_receive_def near_def w_receive_def w_skip_def w_note_def w_forget_def w_store_def w_publish_def w_walk_numeral
  w_visit_def w_emit_def seq_of_def

lemma default_rel:
  "recv_rel ordered 512 (w_state 0 0 {}) (receiver_default ordered)"
  "recv_rel ordered 512 (w_state 65533 65535 {}) ((receiver_default ordered)\<lparr>r_current_sequence := 65533\<rparr>)"
proof -
  have "r_current_sequence (receiver_default ordered) = 0" "r_last_sequence (receiver_default ordered) = 0"
    by (simp_all add: receiver_default_def receiver_create_def)
  note d = this
  have "(receiver_default ordered)\<lparr>r_current_sequence := seq_of 0, r_last_sequence := seq_of 0\<rparr> = receiver_default ordered"
    "(receiver_default ordered)\<lparr>r_current_sequence := seq_of 65533, r_last_sequence := seq_of 65535\<rparr> =
      (receiver_default ordered)\<lparr>r_current_sequence := 65533\<rparr>"
    by (simp_all add: receiver_default_def receiver_create_def seq_of_def)
  with rel_at [of 0 0 ordered] rel_at [of 65533 65535 ordered]
  show "recv_rel ordered 512 (w_state 0 0 {}) (receiver_default ordered)"
    "recv_rel ordered 512 (w_state 65533 65535 {}) ((receiver_default ordered)\<lparr>r_current_sequence := 65533\<rparr>)" by simp_all
qed

lemma test_reset_receive_window_passes: "test_reset_receive_window = Some ()"
  by code_simp

lemma wrapping_in_order_passes: "wrapping_in_order = Some ()"
  unfolding wrapping_in_order_def by (rule w_steps_pass [OF default_rel(2)]) (simp add: window_eval cong: bind_weak_cong let_weak_cong)

lemma wrapping_out_of_order_passes: "wrapping_out_of_order = Some ()"
  unfolding wrapping_out_of_order_def by (rule w_steps_pass [OF default_rel(2)]) (simp add: window_eval cong: bind_weak_cong let_weak_cong)

lemma publish_consume_publish_passes: "publish_consume_publish = Some ()"
  unfolding publish_consume_publish_def by (rule w_steps_pass [OF default_rel(1)]) (simp add: window_eval cong: bind_weak_cong let_weak_cong)

lemma receive_older_fails_passes: "receive_older_fails = Some ()"
  unfolding receive_older_fails_def by (rule w_steps_pass [OF default_rel(1)]) (simp add: window_eval cong: bind_weak_cong let_weak_cong)

lemma ordered_flow_test_passes: "ordered_flow_test = Some ()"
  unfolding ordered_flow_test_def by (rule w_steps_pass [OF default_rel(1)]) (simp add: window_eval cong: bind_weak_cong let_weak_cong)

lemma unordered_flow_test_passes: "unordered_flow_test = Some ()"
  unfolding unordered_flow_test_def by (rule w_steps_pass [OF default_rel(1)]) (simp add: window_eval cong: bind_weak_cong let_weak_cong)

lemma test_skipped_passes: "test_skipped = Some ()"
proof -
  let ?r = "(receiver_default True)\<lparr>r_current_sequence := seq_of 0, r_last_sequence := seq_of 522\<rparr>"
  have r: "(receiver_default True)\<lparr>r_current_sequence := 0, r_last_sequence := 512 + 10\<rparr> = ?r" by (simp add: seq_of_def)
  obtain r' where r': "set_received ?r 0 = Some r'" "recv_rel True 512 (w_state 0 522 {0}) r'"
    using rel_set_received [OF rel_at [of 0 522 True], of 0] by (auto simp: seq_of_def)
  have "run_steps [Receives 1 False, Received 0 False, Current 1, Receives 1 False, Current 2] r' = Some ()"
    by (rule w_steps_pass [OF r'(2)]) (simp add: window_eval cong: bind_weak_cong let_weak_cong)
  then show ?thesis unfolding test_skipped_def Let_def r using r'(1) by simp
qed

lemma full_wrap_round:
  "w_receive True 512 (Suc n) d (w_state n n {}) = (True, (w_state (Suc n) (Suc n) {})\<lparr>w_out := [(Suc n, d)]\<rparr>)"
  by (simp add: w_receive_def w_skip_def w_note_def w_forget_def w_store_def w_publish_def w_walk_numeral w_visit_def w_emit_def)

lemma full_wrap_loop_passes: "recv_rel True 512 (w_state n n {}) r \<Longrightarrow> full_wrap_loop m (seq_of (Suc n)) r = Some ()"
proof (induction m arbitrary: n r)
  case (Suc m)
  let ?w = "(w_state (Suc n) (Suc n) {})\<lparr>w_out := [(Suc n, replicate 32 0)]\<rparr>"
  obtain r1 where r1: "receive_packet r (seq_of (Suc n)) (replicate 1024 0) 32 = Some (True, r1)" "recv_rel True 512 ?w r1"
    using receive_packet_refines [OF Suc.prems, of "Suc n" 32 "replicate 1024 0"] by (auto simp: full_wrap_round)
  obtain v r2 where t: "take_published r1 = (v, r2)" by (cases "take_published r1")
  have "v \<noteq> None" "recv_rel True 512 (w_state (Suc n) (Suc n) {}) r2" using rel_take [OF r1(2) t] by simp_all
  moreover have "r_current_sequence r1 = seq_of (Suc n)" using r1(2) by (simp add: recv_rel_def)
  ultimately show ?case using r1(1) t Suc.IH by (simp add: next_seq_of)
qed simp

lemma full_wrap_passes: "full_wrap = Some ()"
  using full_wrap_loop_passes [OF default_rel(1)] by (simp add: full_wrap_def seq_of_def)


subsection \<open>The tests of the nacks\<close>

definition is_nacked_by :: "receiver \<Rightarrow> u16 \<Rightarrow> bool" where
  "is_nacked_by receiver sequence = list_ex (\<lambda>nack. is_nacked nack sequence) (r_nack_list receiver)"

definition assert_nack :: "receiver \<Rightarrow> u16 \<Rightarrow> unit option" where
  "assert_nack receiver sequence = do {
     received \<leftarrow> is_received receiver sequence;
     if received \<or> sequence \<ge> r_last_sequence receiver \<or> sequence \<le> r_current_sequence receiver
     then check (\<not> is_nacked_by receiver sequence)
     else check (is_nacked_by receiver sequence) }"

fun assert_nacks :: "nat \<Rightarrow> receiver \<Rightarrow> unit option" where
  "assert_nacks 0 channel = Some ()"
| "assert_nacks (Suc n) channel = do { assert_nacks n channel; assert_nack channel (word_of_nat n) }"

definition test_all_nacked :: "unit option" where
  "test_all_nacked = do {
     let channel = receiver_default True;
     let channel = channel\<lparr>r_current_sequence := 0, r_last_sequence := 512\<rparr>;
     (nack_count, channel) \<leftarrow> create_nacks channel;
     check (16 = length (r_nack_list channel));
     check (511 = nack_count);
     assert_nacks 512 channel }"

definition test_some_nacked :: "unit option" where
  "test_some_nacked = do {
     let channel = receiver_default True;
     let channel = channel\<lparr>r_current_sequence := 0, r_last_sequence := 64\<rparr>;
     channel \<leftarrow> set_received channel 63;
     channel \<leftarrow> set_received channel (63 - 32);
     channel \<leftarrow> set_received channel (63 - 33);
     channel \<leftarrow> set_received channel 1;
     (nacked_count, channel) \<leftarrow> create_nacks channel;
     check (2 = length (r_nack_list channel));
     check (63 - 4 = nacked_count);
     assert_nacks 66 channel }"

text \<open>How many numbers \<open>create_nacks\<close> counts, and in how many nacks, when \<open>rcv\<close> are the received numbers.\<close>

fun count_inner :: "(u16 \<Rightarrow> bool) \<Rightarrow> u16 \<Rightarrow> nat \<Rightarrow> u16 \<Rightarrow> u32 \<Rightarrow> bool \<times> u16 \<times> u32" where
  "count_inner rcv cur 0 s c = (False, s, c)"
| "count_inner rcv cur (Suc n) s c =
     (let s = previous_sequence s
      in if is_equal_to_or_less_than s cur then (True, s, c)
         else count_inner rcv cur n s (if rcv s then c else c + 1))"

fun count_outer :: "(u16 \<Rightarrow> bool) \<Rightarrow> u16 \<Rightarrow> nat \<Rightarrow> u16 \<Rightarrow> u32 \<Rightarrow> u32 \<times> nat" where
  "count_outer rcv cur 0 s c = (c, 0)"
| "count_outer rcv cur (Suc n) s c =
     (if is_equal_to_or_less_than s cur then (c, 0)
      else if rcv s then
        (if is_equal_to_or_less_than (previous_sequence s) cur then (c, 0) else count_outer rcv cur n (previous_sequence s) c)
      else case count_inner rcv cur 32 s (c + 1) of
        (True, s, c) \<Rightarrow> (c, 1)
      | (False, s, c) \<Rightarrow> (case count_outer rcv cur n (previous_sequence s) c of (c, k) \<Rightarrow> (c, Suc k)))"

lemma nack_inner_count:
  assumes "\<And>s. is_received r s = Some (rcv s)"
  shows "\<exists>m. nack_inner r is s n c = (case count_inner rcv (r_current_sequence r) (length is) s c of (b, q, c') \<Rightarrow> Some (b, q, m, c'))"
  using assms by (induction "is" arbitrary: s n c) (auto simp: Let_def)

lemma nack_outer_count:
  assumes "\<And>s. is_received r s = Some (rcv s)"
  shows "\<exists>r'. nack_outer F r s c = Some (fst (count_outer rcv (r_current_sequence r) F s c), r')
    \<and> length (r_nack_list r') = length (r_nack_list r) + snd (count_outer rcv (r_current_sequence r) F s c)"
  using assms
proof (induction F arbitrary: r s c)
  case (Suc F)
  let ?cur = "r_current_sequence r" and ?n = "nack_default\<lparr>n_start_sequence := s, n_nacked_count := c + 1\<rparr>"
  obtain b q c' where count: "count_inner rcv ?cur 32 s (c + 1) = (b, q, c')" by (cases "count_inner rcv ?cur 32 s (c + 1)")
  then obtain m where inner: "nack_inner r [0..<32] s ?n (c + 1) = Some (b, q, m, c')"
    using nack_inner_count [OF Suc.prems, of "[0..<32]" s ?n "c + 1"] by (auto simp del: upt_Suc)
  have "is_received (push_nack r m) = is_received r" "r_current_sequence (push_nack r m) = ?cur"
    "length (r_nack_list (push_nack r m)) = Suc (length (r_nack_list r))"
    by (auto simp: push_nack_def is_received_def)
  with Suc.IH [of "push_nack r m" "previous_sequence q" c'] Suc.IH [of r "previous_sequence s" c] Suc.prems count inner
  show ?case by (auto simp: Let_def simp del: upt_Suc split: prod.splits)
qed simp

lemma rel_received:
  assumes "recv_rel ordered W w r"
  shows "is_received r s = Some (slot_of s \<in> wslot ` w_rcv w)"
  using assms by (simp add: recv_rel_def is_received_def flags_of_def)

lemma count_all: "count_outer (\<lambda>s. False) 0 16 511 0 = (511, 16)"
  by code_simp

lemma count_some: "count_outer (\<lambda>s. slot_of s \<in> {1, 30, 31, 63}) 0 16 63 0 = (59, 2)"
  by code_simp


lemma create_nacks_count:
  assumes rel: "recv_rel ordered 512 (w_state 0 l R) r" "1 < l"
  shows "\<exists>r'. create_nacks r = Some (fst (count_outer (\<lambda>s. slot_of s \<in> wslot ` R) 0 16 (seq_of (l - 1)) 0), r')
    \<and> length (r_nack_list r') = snd (count_outer (\<lambda>s. slot_of s \<in> wslot ` R) 0 16 (seq_of (l - 1)) 0)
    \<and> recv_rel ordered 512 (w_state 0 l R) r' \<and> requested (r_nack_list r') = seq_of ` nack_cover R 0 16 (l - 1)"
proof -
  let ?r = "r\<lparr>r_nack_list := [], r_nack_queue := []\<rparr>"
  have W: "r_receive_window_size r = 512" "r_current_sequence r = 0" "r_last_sequence r = seq_of l"
    using rel(1) by (auto simp: recv_rel_def seq_of_def word_unat_eq_iff)
  have prev: "previous_sequence (seq_of l) = seq_of (l - 1)" using rel(2) previous_seq_of [of "l - 1"] by simp
  have "is_received ?r s = Some (slot_of s \<in> wslot ` R)" for s using rel_received [OF rel(1)] by (simp add: is_received_def)
  from nack_outer_count [of ?r, OF this, of 16 "seq_of (l - 1)" 0] W
  obtain r' where o: "nack_outer 16 ?r (seq_of (l - 1)) 0 = Some (fst (count_outer (\<lambda>s. slot_of s \<in> wslot ` R) 0 16 (seq_of (l - 1)) 0), r')"
    "length (r_nack_list r') = snd (count_outer (\<lambda>s. slot_of s \<in> wslot ` R) 0 16 (seq_of (l - 1)) 0)" by auto
  have "\<not> is_equal_to_or_less_than (seq_of (l - 1)) 0 \<Longrightarrow> create_nacks r = nack_outer 16 ?r (seq_of (l - 1)) 0"
    by (simp add: create_nacks_def W prev)
  moreover have "is_equal_to_or_less_than (seq_of (l - 1)) 0 \<Longrightarrow>
      create_nacks r = Some (0, ?r) \<and> count_outer rcv 0 16 (seq_of (l - 1)) 0 = (0, 0)" for rcv
    using count_outer.simps(2) [of rcv 0 15] by (simp add: create_nacks_def W prev)
  ultimately have "\<exists>r'. create_nacks r = Some (fst (count_outer (\<lambda>s. slot_of s \<in> wslot ` R) 0 16 (seq_of (l - 1)) 0), r')
    \<and> length (r_nack_list r') = snd (count_outer (\<lambda>s. slot_of s \<in> wslot ` R) 0 16 (seq_of (l - 1)) 0)"
    using o by (cases "is_equal_to_or_less_than (seq_of (l - 1)) 0") auto
  with create_nacks_rel [OF rel(1)] W show ?thesis by auto
qed

lemma assert_nacks_pass: "(\<And>i. i < n \<Longrightarrow> assert_nack channel (word_of_nat i) = Some ()) \<Longrightarrow> assert_nacks n channel = Some ()"
  by (induction n) simp_all

lemma assert_nack_pass:
  assumes rel: "recv_rel ordered 512 (w_state 0 l R) r" and req: "requested (r_nack_list r) = seq_of ` C"
    and C: "C = {j. j \<notin> R \<and> 0 < j \<and> j < l}" and i: "i \<le> 1022"
  shows "assert_nack r (word_of_nat i) = Some ()"
proof -
  have l: "l \<le> 1022" "R \<subseteq> {..l}" using rel by (auto simp: recv_rel_def w_shape_def)
  have s: "word_of_nat i = seq_of i" "unat (seq_of i) = i" "unat (seq_of l) = l" using i l by (simp_all add: seq_of_def unat_of_nat)
  have win: "in_window 0 (insert i R)" using l i by (auto simp: in_window_def)
  have "is_received r (seq_of i) = Some (i \<in> R)"
    using flags_query [OF _ win] rel by (simp add: is_received_def recv_rel_def)
  moreover have "is_nacked_by r (seq_of i) \<longleftrightarrow> i \<in> C"
  proof -
    have "is_nacked_by r (seq_of i) \<longleftrightarrow> seq_of i \<in> seq_of ` C"
      unfolding req [symmetric] by (auto simp: is_nacked_by_def list_ex_iff is_nacked_iff requested_def)
    also have "\<dots> \<longleftrightarrow> i \<in> C" using i l sn.sq_eq_iff [of i] unfolding C by (auto simp: image_iff)
    finally show ?thesis .
  qed
  moreover have "r_last_sequence r = seq_of l" "r_current_sequence r = seq_of 0" using rel by (simp_all add: recv_rel_def)
  ultimately show ?thesis using s by (auto simp: assert_nack_def C word_le_nat_alt)
qed

lemma nack_cover_numeral:
  "nack_cover R c (numeral v) q = (if q \<le> c then {} else if q \<in> R then nack_cover R c (pred_numeral v) (q - 1)
     else {j. j \<notin> R \<and> c < j \<and> j \<le> q \<and> q \<le> j + 32} \<union> nack_cover R c (pred_numeral v) (q - 33))"
  by (simp add: numeral_eq_Suc)

lemma nack_cover_none_received: "q \<le> c + 33 * F \<Longrightarrow> nack_cover {} c F q = {j. c < j \<and> j \<le> q}"
proof (induction F arbitrary: q)
  case (Suc F)
  then have IH: "nack_cover {} c F (q - 33) = {j. c < j \<and> j \<le> q - 33}" by simp
  have "c < j \<and> j \<le> q \<and> q \<le> j + 32 \<or> c < j \<and> j \<le> q - 33 \<longleftrightarrow> c < j \<and> j \<le> q" if "c < q" for j
    using that by linarith
  then show ?case using IH by (cases "q \<le> c") (simp_all add: Collect_disj_eq [symmetric])
qed simp

lemma cover_all: "nack_cover {} 0 16 511 = {j. j \<notin> {} \<and> 0 < j \<and> j < 512}"
proof -
  have "j \<le> 511 \<longleftrightarrow> j < 512" for j :: nat by linarith
  then show ?thesis using nack_cover_none_received [of 511 0 16] by (simp only: empty_iff not_False_eq_True simp_thms)
qed

lemma cover_some: "nack_cover {1, 30, 31, 63} 0 16 63 = {j. j \<notin> {1, 30, 31, 63} \<and> 0 < j \<and> j < 64}"
  by (simp add: nack_cover_numeral) auto

lemma test_all_nacked_passes: "test_all_nacked = Some ()"
proof -
  let ?r = "(receiver_default True)\<lparr>r_current_sequence := 0, r_last_sequence := 512\<rparr>"
  have "recv_rel True 512 (w_state 0 512 {}) ?r" using rel_at [of 0 512 True] by (simp add: seq_of_def)
  then obtain r where r: "create_nacks ?r = Some (511, r)" "length (r_nack_list r) = 16" "recv_rel True 512 (w_state 0 512 {}) r"
    "requested (r_nack_list r) = seq_of ` nack_cover {} 0 16 511"
    using create_nacks_count [of True 512 "{}" ?r] count_all by (auto simp: seq_of_def)
  have "assert_nacks 512 r = Some ()"
    by (rule assert_nacks_pass, rule assert_nack_pass [OF r(3,4) cover_all]) simp
  with r show ?thesis by (simp add: test_all_nacked_def)
qed

lemma test_some_nacked_passes: "test_some_nacked = Some ()"
proof -
  let ?r = "(receiver_default True)\<lparr>r_current_sequence := 0, r_last_sequence := 64\<rparr>" and ?R = "{1, 30, 31, 63} :: nat set"
  have r0: "recv_rel True 512 (w_state 0 64 {}) ?r" "r_buffered ?r = sb_empty" using rel_at [of 0 64 True] by (simp_all add: seq_of_def)
  obtain r1 where r1: "set_received ?r 63 = Some r1" "recv_rel True 512 (w_state 0 64 {63}) r1" "r_buffered r1 = sb_empty"
    using rel_set_received [OF r0, of 63] by (auto simp: seq_of_def)
  obtain r2 where r2: "set_received r1 31 = Some r2" "recv_rel True 512 (w_state 0 64 {31, 63}) r2" "r_buffered r2 = sb_empty"
    using rel_set_received [OF r1(2,3), of 31] by (auto simp: seq_of_def)
  obtain r3 where r3: "set_received r2 30 = Some r3" "recv_rel True 512 (w_state 0 64 {30, 31, 63}) r3" "r_buffered r3 = sb_empty"
    using rel_set_received [OF r2(2,3), of 30] by (auto simp: seq_of_def)
  obtain r4 where r4: "set_received r3 1 = Some r4" "recv_rel True 512 (w_state 0 64 ?R) r4"
    using rel_set_received [OF r3(2,3), of 1] by (auto simp: seq_of_def)
  have slots: "wslot ` ?R = ?R" by (simp add: slot_of_def)
  obtain r where r: "create_nacks r4 = Some (59, r)" "length (r_nack_list r) = 2" "recv_rel True 512 (w_state 0 64 ?R) r"
    "requested (r_nack_list r) = seq_of ` nack_cover ?R 0 16 63"
    using create_nacks_count [OF r4(2)] count_some unfolding slots by (auto simp: seq_of_def)
  have "assert_nacks 66 r = Some ()"
    by (rule assert_nacks_pass, rule assert_nack_pass [OF r(3,4) cover_some]) simp
  with r r1 r2 r3 r4 show ?thesis by (simp add: test_some_nacked_def)
qed

end
