(* ===== verification/Unit_Tests.thy ===== *)
theory Unit_Tests
  imports Receiver_Tests Fragmentation Channel
begin

text \<open>
  The unit tests of the other parts below the endpoint, as definitions over the model, with the
  proofs that they pass. The clock and the varuint codec are arguments.
\<close>

subsection \<open>sequence.rs\<close>

definition test_basic :: "unit option" where
  "test_basic = do {
     check (65534 = next_sequence 65533);
     check (0 = next_sequence 65534);
     check (1 = next_sequence 0);
     check (65533 = previous_sequence 65534);
     check (65534 = previous_sequence 0);
     check (0 = previous_sequence 1);
     check (is_greater_then 0 65534) }"

lemma test_basic_passes: "test_basic = Some ()"
  by code_simp

subsection \<open>sequence_buffer.rs\<close>

definition basic_test :: "unit option" where
  "basic_test = do {
     let data = replicate 32 (0 :: u8);
     let buffer = \<lparr>sb_values = replicate 1024 None, sb_partition_by = 1024\<rparr>;
     buffer \<leftarrow> sb_insert buffer 1 data;
     option \<leftarrow> sb_get buffer 1;
     check (option \<noteq> None) }"

lemma basic_test_passes: "basic_test = Some ()"
  by code_simp

subsection \<open>int_buffer.rs\<close>

definition test_4bit :: "(u8 \<times> u8 \<times> u8) option" where
  "test_4bit = do {
     let low = 3;
     let high = 15;
     let byte = u4_to_u8 low high;
     let res = u8_to_u4 byte;
     let low = fst res;
     let high = snd res;
     Some (byte, low, high) }"

lemma test_4bit_prints: "test_4bit = Some (243, 3, 15)"
  by code_simp

definition test_header_readwrite :: "unit option" where
  "test_header_readwrite = do {
     let bytes = replicate 128 0;
     let buffer = \<lparr>ib_index = 0\<rparr>;
     (buffer, bytes) \<leftarrow> write_u32 buffer 234 bytes;
     (buffer, bytes) \<leftarrow> write_u16 buffer 44 bytes;
     (buffer, bytes) \<leftarrow> write_u8 buffer 99 bytes;
     (buffer, bytes) \<leftarrow> write_u32 buffer 1 bytes;
     let buffer = buffer\<lparr>ib_index := 0\<rparr>;
     (v, buffer) \<leftarrow> read_u32 buffer bytes; check (234 = v);
     (v, buffer) \<leftarrow> read_u16 buffer bytes; check (44 = v);
     (v, buffer) \<leftarrow> read_u8 buffer bytes; check (99 = v);
     (v, buffer) \<leftarrow> read_u32 buffer bytes; check (1 = v) }"

lemma test_header_readwrite_passes: "test_header_readwrite = Some ()"
  by code_simp

subsection \<open>byte_buffer_pool.rs\<close>

definition get_return_within_limits :: "unit option" where
  "get_return_within_limits = do {
     let pool = bp_default;
     (buffer, pool) \<leftarrow> get_buffer pool BYTE_BUFFER_SIZE_DEFAULT;
     let (returned, pool) = return_buffer pool buffer;
     check returned;
     check (1 = bp_len pool) }"

definition get_allocates_over_max :: "unit option" where
  "get_allocates_over_max = do {
     let pool = bp_default;
     (buffer, pool) \<leftarrow> get_buffer pool BYTE_BUFFER_SIZE_DEFAULT;
     let (_, pool) = return_buffer pool buffer;
     (_, pool) \<leftarrow> get_buffer pool (BYTE_BUFFER_SIZE_DEFAULT + 1);
     check (1 = bp_len pool) }"

definition will_not_return_over_max_buffer_size :: "unit option" where
  "will_not_return_over_max_buffer_size = do {
     let pool = bp_default;
     (buffer, pool) \<leftarrow> get_buffer pool (BYTE_BUFFER_SIZE_DEFAULT + 1);
     let (returned, pool) = return_buffer pool buffer;
     check (\<not> returned);
     check (0 = bp_len pool) }"

fun return_many :: "nat \<Rightarrow> byte_buffer_pool \<Rightarrow> byte_buffer_pool option" where
  "return_many 0 pool = Some pool"
| "return_many (Suc n) pool = do {
     let buffer = bb_create 1024;
     let (returned, pool) = return_buffer pool buffer;
     check returned;
     return_many n pool }"

definition will_not_return_if_full :: "unit option" where
  "will_not_return_if_full = do {
     let pool = bp_default;
     pool \<leftarrow> return_many POOL_SIZE_DEFAULT pool;
     let buffer = bb_create 1024;
     let (returned, pool) = return_buffer pool buffer;
     check (\<not> returned) }"

lemma return_many_eq:
  "bp_count pool + n \<le> bp_pool_size pool \<Longrightarrow> 1024 \<le> bp_buffer_size pool \<Longrightarrow>
   \<exists>pool'. return_many n pool = Some pool' \<and> bp_count pool' = bp_count pool + n
     \<and> bp_pool_size pool' = bp_pool_size pool \<and> bp_buffer_size pool' = bp_buffer_size pool"
proof (induction n arbitrary: pool)
  case (Suc n)
  from Suc.IH [of "snd (return_buffer pool (bb_create 1024))"] Suc.prems show ?case by (auto simp: return_buffer_def bb_create_def)
qed simp

lemma pool_tests_pass:
  "get_return_within_limits = Some ()" "get_allocates_over_max = Some ()" "will_not_return_over_max_buffer_size = Some ()"
  "will_not_return_if_full = Some ()"
proof -
  show "get_return_within_limits = Some ()" "get_allocates_over_max = Some ()" "will_not_return_over_max_buffer_size = Some ()"
    by (simp_all add: get_return_within_limits_def get_allocates_over_max_def will_not_return_over_max_buffer_size_def
        get_buffer_def return_buffer_def bp_default_def bp_create_def bp_len_def)
  obtain pool where "return_many 512 bp_default = Some pool" "bp_count pool = 512" "bp_pool_size pool = 512" "bp_buffer_size pool = 1240"
    using return_many_eq [of bp_default 512] by (auto simp: bp_default_def bp_create_def)
  then show "will_not_return_if_full = Some ()"
    by (simp add: will_not_return_if_full_def return_buffer_def bb_create_def)
qed

subsection \<open>nack.rs\<close>

definition test_flagged :: "unit option" where
  "test_flagged = do {
     let nack = nack_default;
     let nack = nack\<lparr>n_start_sequence := 33\<rparr>;
     let nack = set_flagged nack 32;
     check (is_flagged nack 32);
     check (get_bits nack 0);
     let nack = set_flagged nack 1;
     check (get_bits nack 31);
     check (is_flagged nack 1);
     let nack = set_flagged nack 34;
     check (\<not> is_flagged nack 34) }"

definition test_flagged_wrapped :: "unit option" where
  "test_flagged_wrapped = do {
     let nack = nack_default;
     let nack = nack\<lparr>n_start_sequence := 0\<rparr>;
     let nack = set_flagged nack 65534;
     check (is_flagged nack 65534);
     let nack = set_flagged nack (65534 - 31);
     check (is_flagged nack (65534 - 31));
     let nack = set_flagged nack 2;
     check (\<not> is_flagged nack 2) }"

fun flag_down :: "nat \<Rightarrow> nack \<Rightarrow> u16 \<Rightarrow> nack" where
  "flag_down 0 nack seq = nack"
| "flag_down (Suc n) nack seq = flag_down n (set_flagged nack seq) (previous_sequence seq)"

definition create_full_nack :: "u16 \<Rightarrow> nack" where
  "create_full_nack start =
     (let nack = nack_default;
          nack = nack\<lparr>n_start_sequence := start\<rparr>;
          seq = previous_sequence (n_start_sequence nack)
      in flag_down 32 nack seq)"

definition test_get_nacked :: "unit option" where
  "test_get_nacked = do {
     let nack = create_full_nack 1;
     let sequences = get_nacked nack [];
     check (33 = length sequences);
     let nack = set_bits nack 4 False;
     let nack = set_bits nack 31 False;
     let sequences = get_nacked nack [];
     check (31 = length sequences) }"

text \<open>The varuint codec is an argument.\<close>

definition test_write_read :: "(nat \<Rightarrow> bytes) \<Rightarrow> (nat \<Rightarrow> bytes \<Rightarrow> (nat \<times> nat) option) \<Rightarrow> unit option" where
  "test_write_read vw vr = do {
     let data = replicate 1024 0;
     let sequences_out = [];
     let nacks = [];
     let nacks = nacks @ [create_full_nack 1];
     let nacks = nacks @ [create_full_nack 34];
     (_, data) \<leftarrow> nack_write_varint vw nacks data 0;
     sequences_out \<leftarrow> nack_read_varint vr sequences_out data 0;
     check (66 = length sequences_out) }"

lemma test_flagged_passes: "test_flagged = Some ()"
  by code_simp

lemma test_flagged_wrapped_passes: "test_flagged_wrapped = Some ()"
  by code_simp

lemma test_get_nacked_passes: "test_get_nacked = Some ()"
  by code_simp


text \<open>The codec: a value of up to 32 bits takes at most five bytes, and is read as it was written.\<close>

lemma test_write_read_passes:
  assumes "\<And>w v rest. w \<le> 32 \<Longrightarrow> v < 2 ^ w \<Longrightarrow> vr w (vw v @ rest) = Some (v, length (vw v))"
    and len: "\<And>v. v < 2 ^ 32 \<Longrightarrow> length (vw v) \<le> 5"
  shows "test_write_read vw vr = Some ()"
proof -
  let ?a = "create_full_nack 1" and ?b = "create_full_nack 34" and ?d = "replicate 1024 0 :: bytes"
  have n: "length (get_nacked ?a []) = 33" "length (get_nacked ?b []) = 33" by code_simp+
  have vws: "length (vw (unat x)) \<le> 5" "length (vw (unat y)) \<le> 5" for x :: u16 and y :: u32
    using unsigned_less [where ?'a = nat, of x] unsigned_less [where ?'a = nat, of y] by (auto intro!: len)
  have "\<exists>p d'. nack_write_varint vw [?a, ?b] ?d 0 = Some (p, d')"
    using vws(1) [of 2] vws(1) [of "n_start_sequence ?a"] vws(2) [of "n_flags ?a"] vws(1) [of "n_start_sequence ?b"] vws(2) [of "n_flags ?b"]
    by (simp add: nack_write_varint_def cursor_write_def)
  then obtain p d' where w: "nack_write_varint vw [?a, ?b] ?d 0 = Some (p, d')" by blast
  have "nack_read_varint vr [] d' 0 = Some (get_nacked ?a [] @ get_nacked ?b [])"
    using nack_varint_ok [where vr = vr and vw = vw and xs = "[]", OF assms(1) _ _ _ w] by simp
  with w n show ?thesis by (simp add: test_write_read_def)
qed

subsection \<open>send_buffer_manager.rs\<close>

definition test_create_buffer :: "nat \<Rightarrow> unit option" where
  "test_create_buffer now = do {
     let manager = sm_default;
     (buffer, manager) \<leftarrow> create_send_buffer now manager BYTE_BUFFER_SIZE_DEFAULT;
     buffer \<leftarrow> buffer;
     check (bb_pooled (sbuf_byte_buffer buffer));
     (buffer, manager) \<leftarrow> create_send_buffer now manager (BYTE_BUFFER_SIZE_DEFAULT + 1);
     buffer \<leftarrow> buffer;
     check (\<not> bb_pooled (sbuf_byte_buffer buffer)) }"

definition test_reused_buffer :: "nat \<Rightarrow> unit option" where
  "test_reused_buffer now = do {
     let manager = sm_default;
     let manager = manager\<lparr>sm_current_sequence := 10\<rparr>;
     (buffer, manager) \<leftarrow> create_send_buffer now manager BYTE_BUFFER_SIZE_DEFAULT;
     buffer \<leftarrow> buffer;
     check (11 = sbuf_sequence buffer);
     check (0 = bb_version (sbuf_byte_buffer buffer));
     let manager = manager\<lparr>sm_current_sequence := 10\<rparr>;
     (buffer, manager) \<leftarrow> create_send_buffer now manager (BYTE_BUFFER_SIZE_DEFAULT - 1);
     buffer \<leftarrow> buffer;
     check (11 = sbuf_sequence buffer);
     check (0 = bb_version (sbuf_byte_buffer buffer));
     check (bb_pooled (sbuf_byte_buffer buffer));
     check (BYTE_BUFFER_SIZE_DEFAULT - 1 = bb_length (sbuf_byte_buffer buffer));
     let manager = manager\<lparr>sm_current_sequence := 10\<rparr>;
     (buffer, manager) \<leftarrow> create_send_buffer now manager (BYTE_BUFFER_SIZE_DEFAULT + 10);
     buffer \<leftarrow> buffer;
     check (11 = sbuf_sequence buffer);
     check (0 = bb_version (sbuf_byte_buffer buffer));
     check (\<not> bb_pooled (sbuf_byte_buffer buffer));
     check (BYTE_BUFFER_SIZE_DEFAULT + 10 = bb_length (sbuf_byte_buffer buffer)) }"

definition test_send_expire :: "nat \<Rightarrow> unit option" where
  "test_send_expire now = do {
     let buffers = sm_default;
     (buffer, buffers) \<leftarrow> create_send_buffer now buffers 32;
     buffer \<leftarrow> buffer;
     let sequence = sbuf_sequence buffer;
     earlier \<leftarrow> usize_sub now 6000000000;
     buffers \<leftarrow> sm_put_back buffers (buffer\<lparr>sbuf_created_at := earlier\<rparr>);
     some \<leftarrow> sb_is_some (sm_buffers buffers) sequence;
     check some;
     buffers \<leftarrow> sm_expire now buffers;
     some \<leftarrow> sb_is_some (sm_buffers buffers) sequence;
     check (\<not> some) }"

lemma sm_default_eq: "sm_default = \<lparr>sm_current_sequence = 0, sm_buffers = sb_empty, sm_buffer_pool = bp_create 1240 1024\<rparr>"
  by (simp add: sm_default_def sb_empty_def)

lemmas send_eval = sm_default_eq create_send_buffer_def next_sequence_def get_buffer_def return_buffer_def bp_create_def

lemma test_create_buffer_passes: "test_create_buffer now = Some ()"
  by (simp add: test_create_buffer_def send_eval slot_of_def Let_def)

lemma test_reused_buffer_passes: "test_reused_buffer now = Some ()"
  by (simp add: test_reused_buffer_def send_eval Let_def)

lemma test_send_expire_passes:
  assumes "6000000000 \<le> now"
  shows "test_send_expire now = Some ()"
proof -
  have "elapsed_millis now (now - 6000000000) = 6000" using assms by (simp add: elapsed_millis_def)
  moreover have "replicate 1024 None = None # None # replicate 1022 (None :: send_buffer option)"
    using replicate_Suc [of "Suc 1022" "None :: send_buffer option"] replicate_Suc [of 1022 "None :: send_buffer option"] by simp
  ultimately show ?thesis using assms
    by (simp add: test_send_expire_def send_eval Let_def usize_sub_def sm_put_back_def sm_expire_def sm_expired_def
        sb_put_def sb_empty_def slot_of_def sb_is_some_def sb_insert_def sb_take_def sb_remove_def sb_get_def sequence_to_index_def)
qed

subsection \<open>fragmentation.rs\<close>

definition test_expire :: "nat \<Rightarrow> unit option" where
  "test_expire now = do {
     let frag = fr_default;
     let frag = frag\<lparr>fr_received_at := AList.update 1 now (fr_received_at frag)\<rparr>;
     let frag = expire_groups now frag;
     check (map_of (fr_received_at frag) 1 \<noteq> None);
     check (1 = length (fr_received_at frag));
     earlier \<leftarrow> usize_sub now 6000000000;
     let frag = frag\<lparr>fr_received_at := AList.update 2 earlier (fr_received_at frag)\<rparr>;
     let frag = expire_groups now frag;
     check (map_of (fr_received_at frag) 2 = None);
     check (1 = length (fr_received_at frag)) }"

lemma test_expire_passes:
  assumes "6000000000 \<le> now"
  shows "test_expire now = Some ()"
proof -
  have "elapsed_millis now (now - 6000000000) = 6000" "elapsed_millis now now = 0" using assms by (simp_all add: elapsed_millis_def)
  then show ?thesis using assms
    by (simp add: test_expire_def fr_default_def expire_groups_def expired_groups_def usize_sub_def)
qed

definition test_create :: "nat \<Rightarrow> unit option" where
  "test_create now = do {
     let frag = fr_default;
     let sender = sm_default;
     let data = replicate 1400 0;
     check (1400 = length data);
     (result, frag, sender) \<leftarrow> create_fragments now frag sender 1 data (length data);
     check (2 = length result);
     s \<leftarrow> read_at result 0;
     buffer \<leftarrow> get_send_buffer sender s;
     buffer \<leftarrow> buffer;
     check (1210 = bb_length (sbuf_byte_buffer buffer));
     header \<leftarrow> header_read_fragmented (bb_data (sbuf_byte_buffer buffer));
     check (MESSAGE_TYPE_FRAGMENT = h_message_type header);
     check (1 = h_sequence header);
     check (1 = h_fragment_start_sequence header);
     check (2 = h_fragment_count header);
     s \<leftarrow> read_at result 1;
     buffer \<leftarrow> get_send_buffer sender s;
     buffer \<leftarrow> buffer;
     check (210 = bb_length (sbuf_byte_buffer buffer));
     header \<leftarrow> header_read_fragmented (bb_data (sbuf_byte_buffer buffer));
     check (MESSAGE_TYPE_FRAGMENT = h_message_type header);
     check (2 = h_sequence header) }"

text \<open>Receives the fragment that is stored under a number, as the test does three times.\<close>

definition receive_stored :: "nat \<Rightarrow> send_buffer_manager \<Rightarrow> fragmentation \<Rightarrow> u16 \<Rightarrow> (bool \<times> bytes \<times> fragmentation) option" where
  "receive_stored now sender frag s = do {
     send_buffer \<leftarrow> get_send_buffer sender s;
     send_buffer \<leftarrow> send_buffer;
     (complete, frag) \<leftarrow> receive_fragment now frag (bb_data (sbuf_byte_buffer send_buffer)) (bb_length (sbuf_byte_buffer send_buffer));
     Some (snd complete, bb_data (sbuf_byte_buffer send_buffer), frag) }"

definition test_receive_fragments :: "nat \<Rightarrow> unit option" where
  "test_receive_fragments now = do {
     let frag = fr_default;
     let sender = sm_default;
     let data = replicate 2500 3;
     (created, frag, sender) \<leftarrow> create_fragments now frag sender 1 data (length data);
     s \<leftarrow> read_at created 0;
     (complete, _, frag) \<leftarrow> receive_stored now sender frag s;
     check (\<not> complete);
     s \<leftarrow> read_at created 1;
     (complete, _, frag) \<leftarrow> receive_stored now sender frag s;
     check (\<not> complete);
     s \<leftarrow> read_at created 2;
     (complete, packet, frag) \<leftarrow> receive_stored now sender frag s;
     check complete;
     header \<leftarrow> header_read_fragmented packet;
     (assembled, frag) \<leftarrow> assemble frag header;
     check (\<not> isl assembled);
     let assembled_data = projr assembled;
     check (2500 = length assembled_data);
     check (list_all (\<lambda>x. 3 = x) assembled_data) }"

lemma create_fragments_stored:
  assumes "sm_wf m" "sm_current_sequence m = seq_of n" "len \<le> length data" "len \<le> 1022 * 1200"
  defines "cs \<equiv> chunks 1200 (take len data)"
  shows "\<exists>m'. create_fragments now fr m channel data len = Some (map seq_of [n + 1..<n + 1 + length cs], snd (get_next_group fr), m') \<and> sm_wf m'
     \<and> (\<forall>i < length cs. stored m' (n + 1 + i) (frag_bytes (header_create_fragmented (seq_of (n + 1 + i)) channel
          (fst (get_next_group fr)) (seq_of (n + 1)) (word_of_nat (length cs))) @ cs ! i))"
proof -
  have len: "length cs \<le> 1022"
    using assms(3,4) by (simp add: cs_def length_chunks min_absorb2)
  let ?g = "fst (get_next_group fr)"
  obtain m' where m': "create_fragments_loop now channel ?g (word_of_nat (length cs)) cs 0 0 [] m
      = Some ([] @ map seq_of [n + 1..<n + 1 + length cs], m')" "sm_wf m'"
    "\<And>i. i < length cs \<Longrightarrow> stored m' (n + 1 + i)
       (frag_bytes (header_create_fragmented (seq_of (n + 1 + i)) channel ?g (seq_of (n + 1)) (word_of_nat (length cs))) @ cs ! i)"
    using create_fragments_loop_ok [OF assms(1,2) len, of 0 "n + 1" 0 now channel ?g "length cs" "[]"] by auto
  then show ?thesis using assms(3) by (simp add: create_fragments_def cs_def split_beta del: upt_Suc)
qed

lemma stored_buffer:
  assumes "sm_wf m" "stored m k p"
  obtains sb rest where "get_send_buffer m (seq_of k) = Some (Some sb)" "bb_length (sbuf_byte_buffer sb) = length p"
    "bb_data (sbuf_byte_buffer sb) = p @ rest"
proof -
  obtain sb where sb: "sb_cell (sm_buffers m) (slot_of (seq_of k)) = Some sb" "bb_content (sbuf_byte_buffer sb) = p"
    using assms(2) by (auto simp: stored_def)
  have ok: "bb_ok (bp_buffer_size (sm_buffer_pool m)) (sbuf_byte_buffer sb)" using assms(1) sb(1) by (auto simp: sm_wf_def)
  then have "bb_length (sbuf_byte_buffer sb) = length p" using sb(2) length_bb_content by fastforce
  moreover have "bb_data (sbuf_byte_buffer sb) = p @ drop (bb_length (sbuf_byte_buffer sb)) (bb_data (sbuf_byte_buffer sb))"
    using sb(2) by (metis append_take_drop_id bb_content_def)
  ultimately show ?thesis using that get_send_buffer_eq [OF assms(1)] sb(1) by metis
qed

lemma default_current: "sm_current_sequence sm_default = seq_of 0"
  by (simp add: sm_default_def seq_of_def)

lemma default_group: "get_next_group fr_default = (2, fr_default\<lparr>fr_next_group := 2\<rparr>)"
  by (simp add: get_next_group_def fr_default_def)

lemma test_create_passes: "test_create now = Some ()"
proof -
  let ?h = "\<lambda>k. header_create_fragmented (seq_of k) 1 2 (seq_of 1) 2"
  have cs: "chunks 1200 (replicate 1400 (0 :: u8)) = [replicate 1200 0, replicate 200 0]" by (simp add: chunks.simps)
  obtain m where m: "create_fragments now fr_default sm_default 1 (replicate 1400 0) 1400 = Some ([seq_of 1, seq_of 2], fr_default\<lparr>fr_next_group := 2\<rparr>, m)"
    "sm_wf m" "stored m 1 (frag_bytes (?h 1) @ replicate 1200 0)" "stored m 2 (frag_bytes (?h 2) @ replicate 200 0)"
    using create_fragments_stored [OF sm_wf_default default_current, of 1400 "replicate 1400 0" now fr_default 1]
    by (auto simp: cs default_group less_Suc_eq numeral_2_eq_2)
  obtain sb rest where sb: "get_send_buffer m (seq_of 1) = Some (Some sb)" "bb_length (sbuf_byte_buffer sb) = 1210"
    "bb_data (sbuf_byte_buffer sb) = frag_bytes (?h 1) @ replicate 1200 0 @ rest"
    by (rule stored_buffer [OF m(2,3)]) simp
  obtain sb' rest' where sb': "get_send_buffer m (seq_of 2) = Some (Some sb')" "bb_length (sbuf_byte_buffer sb') = 210"
    "bb_data (sbuf_byte_buffer sb') = frag_bytes (?h 2) @ replicate 200 0 @ rest'"
    by (rule stored_buffer [OF m(2,4)]) simp
  then show ?thesis using m(1) sb unfolding test_create_def
    by (simp add: header_read_fragmented_prefix read_at_def seq_of_def header_create_fragmented_def header_default_def)
qed

lemma update_new: "map_of xs k = None \<Longrightarrow> AList.update k v xs = xs @ [(k, v)]"
  by (induction xs) (auto split: if_splits)

lemma receive_stored_eq:
  assumes "sm_wf m" "stored m k (frag_bytes h @ c)" "h_sequence h = seq_of k" "h_fragment_group h = g" "h_start_sequence h = 0" "h_flags h = 0"
    "fr_received frag = (if ms = [] then [] else [(g, ms)])" "map_of ms (seq_of k) = None"
  shows "\<exists>rest frag'. receive_stored now m frag (seq_of k) =
      Some (Suc (length ms) = unat (h_fragment_count h), frag_bytes h @ c @ rest, frag')
    \<and> fr_received frag' = [(g, ms @ [(seq_of k, frag_bytes h @ c)])]"
proof -
  obtain sb rest where sb: "get_send_buffer m (seq_of k) = Some (Some sb)" "bb_length (sbuf_byte_buffer sb) = length (frag_bytes h @ c)"
    "bb_data (sbuf_byte_buffer sb) = (frag_bytes h @ c) @ rest"
    by (rule stored_buffer [OF assms(1,2)])
  have "h\<lparr>h_start_sequence := 0, h_flags := 0\<rparr> = h" using assms(5,6) by (cases h) simp
  then show ?thesis
    using sb assms(3,4,7,8)
    by (auto simp: receive_stored_def receive_fragment_def header_read_fragmented_prefix update_new Let_def)
qed

lemma header_create_fragmented_sel [simp]:
  "h_sequence (header_create_fragmented s ch g st n) = s" "h_fragment_group (header_create_fragmented s ch g st n) = g"
  "h_fragment_start_sequence (header_create_fragmented s ch g st n) = st" "h_fragment_count (header_create_fragmented s ch g st n) = n"
  "h_start_sequence (header_create_fragmented s ch g st n) = 0" "h_flags (header_create_fragmented s ch g st n) = 0"
  by (simp_all add: header_create_fragmented_def header_default_def)

lemma test_receive_fragments_passes: "test_receive_fragments now = Some ()"
proof -
  let ?h = "\<lambda>k. header_create_fragmented (seq_of k) 1 2 (seq_of 1) 3" and ?c = "\<lambda>n. replicate n (3 :: u8)"
  let ?p = "\<lambda>k n. (seq_of k, frag_bytes (?h k) @ ?c n)"
  have cs: "chunks 1200 (?c 2500) = [?c 1200, ?c 1200, ?c 100]" by (simp add: chunks.simps)
  obtain m where m: "create_fragments now fr_default sm_default 1 (?c 2500) 2500 = Some ([seq_of 1, seq_of 2, seq_of 3], fr_default\<lparr>fr_next_group := 2\<rparr>, m)"
    "sm_wf m" "stored m 1 (frag_bytes (?h 1) @ ?c 1200)" "stored m 2 (frag_bytes (?h 2) @ ?c 1200)" "stored m 3 (frag_bytes (?h 3) @ ?c 100)"
    using create_fragments_stored [OF sm_wf_default default_current, of 2500 "?c 2500" now fr_default 1]
    by (auto simp: cs default_group less_Suc_eq numeral_3_eq_3 numeral_2_eq_2)
  have ne: "seq_of 1 \<noteq> seq_of 2" "seq_of 1 \<noteq> seq_of 3" "seq_of 2 \<noteq> seq_of 3" by (simp_all add: seq_of_def)
  obtain r1 f1 where f1: "receive_stored now m (fr_default\<lparr>fr_next_group := 2\<rparr>) (seq_of 1) = Some (False, frag_bytes (?h 1) @ ?c 1200 @ r1, f1)"
    "fr_received f1 = [(2, [?p 1 1200])]"
    using receive_stored_eq [OF m(2,3), of 2 "fr_default\<lparr>fr_next_group := 2\<rparr>" "[]" now] by (auto simp: fr_default_def)
  obtain r2 f2 where f2: "receive_stored now m f1 (seq_of 2) = Some (False, frag_bytes (?h 2) @ ?c 1200 @ r2, f2)"
    "fr_received f2 = [(2, [?p 1 1200, ?p 2 1200])]"
    using receive_stored_eq [OF m(2,4), of 2 f1 "[?p 1 1200]" now] f1(2) ne by auto
  obtain r3 f3 where f3: "receive_stored now m f2 (seq_of 3) = Some (True, frag_bytes (?h 3) @ ?c 100 @ r3, f3)"
    "fr_received f3 = [(2, [?p 1 1200, ?p 2 1200, ?p 3 100])]"
    using receive_stored_eq [OF m(2,5), of 2 f2 "[?p 1 1200, ?p 2 1200]" now] f2(2) ne by auto
  have "header_read_fragmented (frag_bytes (?h 3) @ ?c 100 @ r3) = Some (?h 3)"
    by (simp add: header_read_fragmented_prefix header_create_fragmented_def header_default_def)
  moreover have three: "assemble_loop ms 3 sq off buf = assemble_loop ms (Suc (Suc (Suc 0))) sq off buf" for ms sq off buf
    by (simp only: numeral_3_eq_3)
  have body: "?c 1200 @ ?c 1200 @ ?c 100 = ?c 2500" by (simp flip: replicate_add)
  have "next_sequence (seq_of 1) = seq_of 2" "next_sequence (seq_of 2) = seq_of 3" by (simp_all add: next_seq_of numeral_2_eq_2 numeral_3_eq_3)
  then have "\<exists>f4. assemble f3 (?h 3) = Some (Inr (?c 2500), f4)"
    using f3(2) ne body by (simp add: assemble_def usize_sub_def overwrite_def three)
  ultimately show ?thesis using m(1) f1(1) f2(1) f3(1) unfolding test_receive_fragments_def
    by (auto simp: read_at_def list_all_iff)
qed

subsection \<open>channel.rs\<close>

definition test_rewrite_nack_to_reliable :: "unit option" where
  "test_rewrite_nack_to_reliable = do {
     let channel = channel_create 1 na_default cc_default_ordered;
     let send_buffer = replicate 1200 0;
     let header = header_default;
     let header = header\<lparr>h_message_type := MESSAGE_TYPE_RELIABLE_WITH_NACK, h_channel := 13, h_sequence := 200,
           h_start_sequence := 12345, h_flags := 99\<rparr>;
     send_buffer \<leftarrow> header_write header send_buffer;
     send_buffer \<leftarrow> write_at send_buffer 10 3;
     send_buffer \<leftarrow> write_at send_buffer 1199 7;
     (send_len, buffer) \<leftarrow> rewrite_reliable_nack_to_reliable (c_resend_rewrite_buffer channel) send_buffer;
     let channel = channel\<lparr>c_resend_rewrite_buffer := buffer\<rparr>;
     check (1200 - 6 = send_len);
     v \<leftarrow> read_at (c_resend_rewrite_buffer channel) 4;
     check (3 = v);
     v \<leftarrow> read_at (c_resend_rewrite_buffer channel) (1199 - 6);
     check (7 = v);
     header \<leftarrow> header_read (c_resend_rewrite_buffer channel);
     check (MESSAGE_TYPE_RELIABLE = h_message_type header);
     check (200 = h_sequence header);
     check (13 = h_channel header);
     check (0 = h_start_sequence header);
     check (0 = h_flags header) }"


lemma replicate_update: "i < n \<Longrightarrow> (replicate n x)[i := y] = replicate i x @ y # replicate (n - Suc i) x"
  by (simp add: upd_conv_take_nth_drop)

lemma test_rewrite_nack_to_reliable_passes: "test_rewrite_nack_to_reliable = Some ()"
proof -
  let ?body = "3 # replicate 1188 0 @ [7] :: bytes"
  let ?send = "hdr_bytes 5 13 200 @ replicate 6 0 @ ?body"
  have w: "header_write (header_default\<lparr>h_message_type := 5, h_channel := 13, h_sequence := 200, h_start_sequence := 12345, h_flags := 99\<rparr>)
      (replicate 1200 0) = Some (hdr_bytes 5 13 200 @ replicate 1196 0)"
    by (simp add: header_write_eq overwrite_def)
  have b: "(hdr_bytes 5 13 200 @ replicate 1196 0)[10 := 3, 1199 := 7] = ?send"
    by (simp add: list_update_append replicate_update)
  let ?out = "hdr_bytes 1 13 200 @ ?body @ replicate 854 0"
  have "rewrite_reliable_nack_to_reliable (replicate 2048 0) ?send = Some (1194, ?out)"
    by (simp add: rewrite_reliable_nack_to_reliable_def header_read_prefix header_write_eq overwrite_def slice_def)
  with w b show ?thesis
    by (simp add: test_rewrite_nack_to_reliable_def channel_create_def write_at_def read_at_def nth_append header_read_prefix header_default_def)
qed

end
