(* ===== verification/Endpoint_Tests.thy ===== *)
theory Endpoint_Tests
  imports Receiver_Tests Endpoint_Behaviour
begin

text \<open>
  The unit tests of \<^verbatim>\<open>src/src/tachyon/connection_impl.rs\<close> that need no network.
\<close>

definition tcf_default :: tachyon_config where
  "tcf_default = \<lparr>tcf_use_identity = 0, tcf_drop_packet_chance = 0, tcf_drop_reliable_only = 0\<rparr>"

definition test_connect :: "os \<Rightarrow> nat \<Rightarrow> network \<Rightarrow> unit option" where
  "test_connect os now net = do {
     let address = na_localhost 100;
     let changed_address = na_localhost 200;
     let server = tachyon_create now tcf_default;
     let server = set_identity server 1 10;
     (linked, server, net) \<leftarrow> try_link_identity os now net server address 1 11;
     check (\<not> linked);
     (linked, server, net) \<leftarrow> try_link_identity os now net server address 1 10;
     check linked;
     check (map_of (t_connections server) address \<noteq> None);
     check (2 = get_channel_count server address);
     (linked, server, net) \<leftarrow> try_link_identity os now net server address 1 10;
     check linked;
     check (map_of (t_connections server) address \<noteq> None);
     check (2 = get_channel_count server address);
     (linked, server, net) \<leftarrow> try_link_identity os now net server changed_address 1 10;
     check linked;
     check (map_of (t_connections server) changed_address \<noteq> None);
     check (2 = get_channel_count server changed_address);
     check (\<not> map_of (t_connections server) address \<noteq> None);
     check (0 = get_channel_count server address) }"

definition test_disconnect :: "os \<Rightarrow> nat \<Rightarrow> network \<Rightarrow> unit option" where
  "test_disconnect os now net = do {
     let address = na_localhost 100;
     let server = tachyon_create now tcf_default;
     let server = set_identity server 1 10;
     (_, server, net) \<leftarrow> try_link_identity os now net server address 1 10;
     (unlinked, server, net) \<leftarrow> try_unlink_identity os net server address 1 11;
     check (\<not> unlinked);
     (unlinked, server, net) \<leftarrow> try_unlink_identity os net server address 1 10;
     check unlinked;
     check (\<not> map_of (t_connections server) address \<noteq> None);
     check (0 = get_channel_count server address) }"

definition test_validate_and_update_connection :: "os \<Rightarrow> nat \<Rightarrow> network \<Rightarrow> unit option" where
  "test_validate_and_update_connection os now net = do {
     let address = na_localhost 100;
     let server = tachyon_create now tcf_default;
     let server = set_identity server 1 10;
     let (valid, server) = validate_and_update_linked_connection now server address;
     check (\<not> valid);
     (_, server, net) \<leftarrow> try_link_identity os now net server address 1 10;
     let (valid, server) = validate_and_update_linked_connection now server address;
     check valid }"

definition test_can_send :: "nat \<Rightarrow> unit option" where
  "test_can_send now = do {
     let config = tcf_default\<lparr>tcf_use_identity := 1\<rparr>;
     let tach = tachyon_create now config;
     let tach = tach\<lparr>t_socket := (t_socket tach)\<lparr>ts_is_server := True\<rparr>\<rparr>;
     check (can_send tach);
     let tach = tach\<lparr>t_socket := (t_socket tach)\<lparr>ts_is_server := False\<rparr>\<rparr>;
     check (\<not> can_send tach);
     let tach = tach\<lparr>t_identity := (t_identity tach)\<lparr>id_linked := 1\<rparr>\<rparr>;
     check (can_send tach) }"

lemmas endpoint_eval = tachyon_create_def create_with_id_def set_identity_def remove_connection_by_identity_def
  try_link_identity_def try_unlink_identity_def get_connection_identity_def create_connection_def remove_connection_def
  remove_configured_channels_def create_configured_channels_def fire_connection_event_def get_channel_count_def
  identity_sends ts_create_def identity_default_def
  validate_and_update_linked_connection_def na_localhost_def connection_create_def

lemma test_can_send_passes: "test_can_send now = Some ()"
  by (simp add: test_can_send_def can_send_def tcf_default_def tachyon_create_def create_with_id_def identity_default_def)

lemma test_connect_passes: "test_connect os now net = Some ()"
  by (simp add: test_connect_def endpoint_eval Let_def)

lemma test_disconnect_passes: "test_disconnect os now net = Some ()"
  by (simp add: test_disconnect_def endpoint_eval Let_def)

lemma test_validate_and_update_connection_passes: "test_validate_and_update_connection os now net = Some ()"
  by (simp add: test_validate_and_update_connection_def endpoint_eval Let_def)

definition test_server_receive_invalid_without_bind :: "env \<Rightarrow> nat \<Rightarrow> network \<Rightarrow> unit option" where
  "test_server_receive_invalid_without_bind env now net = do {
     let buffer = replicate 1024 0;
     let server = tachyon_create now tcf_default;
     (res, server, net, buffer) \<leftarrow> receive_loop env now net server buffer;
     check (RECEIVE_ERROR_UNKNOWN = trr_error res) }"

lemma receive_rounds_100: "receive_rounds 100 env now net self buf = do {
     (r, self, net, receive_buffer) \<leftarrow> receive_round env now net self buf;
     case r of
       Inl result \<Rightarrow> Some (Some result, self, net, receive_buffer)
     | Inr go_on \<Rightarrow> if go_on then receive_rounds 99 env now net self receive_buffer
         else Some (None, self, net, receive_buffer) }"
  using receive_rounds.simps(2) [of 99] by simp

lemma test_server_receive_invalid_without_bind_passes: "test_server_receive_invalid_without_bind env now net = Some ()"
  by (simp add: test_server_receive_invalid_without_bind_def receive_loop_def receive_rounds_100 receive_round_def receive_from_socket_def
    receive_gate_def ts_receive_def tachyon_create_def create_with_id_def ts_create_def trr_default_def)

end
