(* ===== verification/Network_Tests.thy ===== *)
theory Network_Tests
  imports Endpoint_Tests Large_Messages
begin

text \<open>
  The unit tests of \<^verbatim>\<open>src/src/tachyon.rs\<close> that send over the network, with their harness \<open>TachyonTest\<close> of
  \<^verbatim>\<open>src/src/tachyon/tachyon_test.rs\<close>. What the system does between the calls, to carry datagrams from one
  socket to the other, is the argument \<open>carry\<close>; the tests pass on a loopback network.
\<close>

subsection \<open>The harness\<close>

record tachyon_test =
  tt_client_address :: network_address
  tt_client :: tachyon
  tt_server :: tachyon
  tt_address :: network_address
  tt_config :: tachyon_config
  tt_receive_buffer :: bytes
  tt_send_buffer :: bytes

definition tt_create :: "nat \<Rightarrow> network_address \<Rightarrow> tachyon_test" where
  "tt_create now address =
     (let config = tcf_default;
          server = tachyon_create now config;
          client = tachyon_create now config
      in \<lparr>tt_client_address = na_default, tt_client = client, tt_server = server, tt_address = address, tt_config = config,
          tt_receive_buffer = replicate 4096 0, tt_send_buffer = replicate 4096 0\<rparr>)"

definition tt_default :: "nat \<Rightarrow> tachyon_test" where
  "tt_default now = tt_create now na_test_address"

definition tt_connect :: "env \<Rightarrow> nat \<Rightarrow> network \<Rightarrow> tachyon_test \<Rightarrow> (tachyon_test \<times> network) option" where
  "tt_connect env now net self = do {
     (bound, server, net) \<leftarrow> tachyon_bind (e_os env) net (tt_server self) (tt_address self);
     check bound;
     (connected, client, net) \<leftarrow> tachyon_connect (e_os env) now net (tt_client self) (tt_address self);
     check connected;
     Some (self\<lparr>tt_server := server, tt_client := client\<rparr>, net) }"

definition client_send_reliable ::
  "env \<Rightarrow> nat \<Rightarrow> network \<Rightarrow> tachyon_test \<Rightarrow> u8 \<Rightarrow> nat \<Rightarrow> (send_result \<times> tachyon_test \<times> network) option" where
  "client_send_reliable env now net self channel_id len = do {
     let target = \<lparr>tgt_identity_id = 0, tgt_address = tt_client_address self\<rparr>;
     (r, client, net) \<leftarrow> send_to_target (e_os env) now net (tt_client self) channel_id target (tt_send_buffer self) len;
     Some (r, self\<lparr>tt_client := client\<rparr>, net) }"

definition client_send_unreliable ::
  "env \<Rightarrow> nat \<Rightarrow> network \<Rightarrow> tachyon_test \<Rightarrow> nat \<Rightarrow> (send_result \<times> tachyon_test \<times> network) option" where
  "client_send_unreliable env now net self len = do {
     let target = \<lparr>tgt_identity_id = 0, tgt_address = tt_client_address self\<rparr>;
     (r, client, net) \<leftarrow> send_to_target (e_os env) now net (tt_client self) 0 target (tt_send_buffer self) len;
     Some (r, self\<lparr>tt_client := client\<rparr>, net) }"

definition server_receive ::
  "env \<Rightarrow> (network \<Rightarrow> network) \<Rightarrow> nat \<Rightarrow> network \<Rightarrow> tachyon_test \<Rightarrow> (tachyon_receive_result \<times> tachyon_test \<times> network) option" where
  "server_receive env carry now net self = do {
     (r, server, net, receive_buffer) \<leftarrow> receive_loop env now (carry net) (tt_server self) (tt_receive_buffer self);
     Some (r, self\<lparr>tt_server := server, tt_receive_buffer := receive_buffer\<rparr>, net) }"

definition client_receive ::
  "env \<Rightarrow> (network \<Rightarrow> network) \<Rightarrow> nat \<Rightarrow> network \<Rightarrow> tachyon_test \<Rightarrow> (tachyon_receive_result \<times> tachyon_test \<times> network) option" where
  "client_receive env carry now net self = do {
     (r, client, net, receive_buffer) \<leftarrow> receive_loop env now (carry net) (tt_client self) (tt_receive_buffer self);
     Some (r, self\<lparr>tt_client := client, tt_receive_buffer := receive_buffer\<rparr>, net) }"

subsection \<open>The tests\<close>

definition test_connect_before_bind :: "env \<Rightarrow> (network \<Rightarrow> network) \<Rightarrow> nat \<Rightarrow> network \<Rightarrow> unit option" where
  "test_connect_before_bind env carry now net = do {
     let address = na_test_address;
     let buffer = replicate 1024 0;
     let server = tachyon_create now tcf_default;
     let client = tachyon_create now tcf_default;
     (connected, client, net) \<leftarrow> tachyon_connect (e_os env) now net client address;
     check connected;
     (_, server, net) \<leftarrow> tachyon_bind (e_os env) net server address;
     let target = \<lparr>tgt_identity_id = 0, tgt_address = na_default\<rparr>;
     (sent, client, net) \<leftarrow> send_to_target (e_os env) now net client 1 target buffer 32;
     check (0 = sres_error sent);
     (res, server, net, buffer) \<leftarrow> receive_loop env now (carry net) server buffer;
     check (32 = trr_length res) }"

definition test_reliable :: "env \<Rightarrow> (network \<Rightarrow> network) \<Rightarrow> nat \<Rightarrow> network \<Rightarrow> unit option" where
  "test_reliable env carry now net = do {
     (test, net) \<leftarrow> tt_connect env now net (tt_default now);
     let test = test\<lparr>tt_send_buffer := (tt_send_buffer test)[0 := 4]\<rparr>;
     (sent, test, net) \<leftarrow> client_send_reliable env now net test 1 2;
     check (2 + TACHYON_HEADER_SIZE = unat (sres_sent_len sent));
     (res, test, net) \<leftarrow> server_receive env carry now net test;
     check (2 = trr_length res);
     check (4 = tt_receive_buffer test ! 0);
     (_, test, net) \<leftarrow> client_send_reliable env now net test 2 33;
     (res, test, net) \<leftarrow> server_receive env carry now net test;
     check (33 = trr_length res);
     (_, test, net) \<leftarrow> client_send_reliable env now net test 2 3497;
     (res, test, net) \<leftarrow> server_receive env carry now net test;
     check (3497 = trr_length res) }"

definition test_unconfigured_channel_fails :: "env \<Rightarrow> (network \<Rightarrow> network) \<Rightarrow> nat \<Rightarrow> network \<Rightarrow> unit option" where
  "test_unconfigured_channel_fails env carry now net = do {
     let test = tt_default now;
     let channel_config = cc_default_ordered;
     let test = test\<lparr>tt_client := snd (configure_channel (tt_client test) 3 channel_config)\<rparr>;
     (test, net) \<leftarrow> tt_connect env now net test;
     (sent, test, net) \<leftarrow> client_send_reliable env now net test 3 2;
     check (2 + TACHYON_HEADER_SIZE = unat (sres_sent_len sent));
     check (0 = sres_error sent);
     (res, test, net) \<leftarrow> server_receive env carry now net test;
     check (0 = trr_length res);
     check (RECEIVE_ERROR_CHANNEL = trr_error res) }"

definition test_configured_channel :: "env \<Rightarrow> (network \<Rightarrow> network) \<Rightarrow> nat \<Rightarrow> network \<Rightarrow> unit option" where
  "test_configured_channel env carry now net = do {
     let test = tt_default now;
     let channel_config = cc_default_ordered;
     let test = test\<lparr>tt_client := snd (configure_channel (tt_client test) 3 channel_config)\<rparr>;
     let test = test\<lparr>tt_server := snd (configure_channel (tt_server test) 3 channel_config)\<rparr>;
     (test, net) \<leftarrow> tt_connect env now net test;
     (sent, test, net) \<leftarrow> client_send_reliable env now net test 3 2;
     check (2 + TACHYON_HEADER_SIZE = unat (sres_sent_len sent));
     check (0 = sres_error sent);
     (res, test, net) \<leftarrow> server_receive env carry now net test;
     check (2 = trr_length res);
     check (0 = trr_error res) }"

definition test_unreliable :: "env \<Rightarrow> (network \<Rightarrow> network) \<Rightarrow> nat \<Rightarrow> network \<Rightarrow> unit option" where
  "test_unreliable env carry now net = do {
     (test, net) \<leftarrow> tt_connect env now net (tt_default now);
     (send, test, net) \<leftarrow> client_send_unreliable env now net test 0;
     check (SEND_ERROR_LENGTH = sres_error send);
     (res, test, net) \<leftarrow> server_receive env carry now net test;
     check (0 = trr_length res);
     let test = test\<lparr>tt_receive_buffer := (tt_receive_buffer test)[0 := 1]\<rparr>;
     let test = test\<lparr>tt_send_buffer := (tt_send_buffer test)[0 := 3, 1 := 4, 2 := 5, 3 := 6]\<rparr>;
     (sent, test, net) \<leftarrow> client_send_unreliable env now net test 4;
     check (0 = sres_error sent);
     check (5 = unat (sres_sent_len sent));
     (res, test, net) \<leftarrow> server_receive env carry now net test;
     check (4 = trr_length res);
     check (3 = tt_receive_buffer test ! 0);
     check (4 = tt_receive_buffer test ! 1);
     check (5 = tt_receive_buffer test ! 2);
     check (6 = tt_receive_buffer test ! 3) }"

subsection \<open>A loopback network\<close>

definition client_addr :: socket_addr where
  "client_addr = SocketV4 127 0 0 1 50000"

definition server_addr :: socket_addr where
  "server_addr = SocketV4 127 0 0 1 8265"

text \<open>Every datagram of the client's socket reaches the server's, and one of the server's that is for
  the client's address reaches the client's.\<close>

definition loopback :: "nat \<Rightarrow> nat \<Rightarrow> network \<Rightarrow> network" where
  "loopback cfd sfd net = fold (\<lambda>(fd, dest, d) net.
       if fd = cfd \<and> dest = Connected then net\<lparr>net_in := (net_in net)(sfd := net_in net sfd @ [Some (client_addr, d)])\<rparr>
       else if fd = sfd \<and> dest = To client_addr then net\<lparr>net_in := (net_in net)(cfd := net_in net cfd @ [Some (server_addr, d)])\<rparr>
       else net) (net_out net) (net\<lparr>net_out := []\<rparr>)"

lemma loopback_client:
  assumes "net_out net = map (\<lambda>d. (cfd, Connected, d)) ds"
  shows "loopback cfd sfd net = net\<lparr>net_out := [], net_in := (net_in net)(sfd := net_in net sfd @ map (\<lambda>d. Some (client_addr, d)) ds)\<rparr>"
proof -
  have "fold (\<lambda>(fd, dest, d) net.
       if fd = cfd \<and> dest = Connected then net\<lparr>net_in := (net_in net)(sfd := net_in net sfd @ [Some (client_addr, d)])\<rparr>
       else if fd = sfd \<and> dest = To client_addr then net\<lparr>net_in := (net_in net)(cfd := net_in net cfd @ [Some (server_addr, d)])\<rparr>
       else net) (map (\<lambda>d. (cfd, Connected, d)) ds) n = n\<lparr>net_in := (net_in n)(sfd := net_in n sfd @ map (\<lambda>d. Some (client_addr, d)) ds)\<rparr>" for n
    by (induction ds arbitrary: n) (simp_all add: fun_upd_idem)
  from this [of "net\<lparr>net_out := []\<rparr>"] show ?thesis by (simp add: loopback_def assms)
qed

lemma tt_connect_ideal:
  assumes os: "e_os env = os_ideal"
  shows "tt_connect env now net_empty test = (if ts_socket (t_socket (tt_server test)) = None \<and> ts_socket (t_socket (tt_client test)) = None
    then Some (test\<lparr>tt_server := (tt_server test)\<lparr>t_socket := (t_socket (tt_server test))\<lparr>ts_address := tt_address test, ts_socket := Some 0, ts_is_server := True\<rparr>,
           t_unreliable_sender := Some (usnd_create (Some 0))\<rparr>,
         tt_client := (create_connection now ((tt_client test)\<lparr>t_socket := (t_socket (tt_client test))\<lparr>ts_address := na_default, ts_socket := Some 1\<rparr>\<rparr>) na_default identity_default)
           \<lparr>t_unreliable_sender := Some (usnd_create (Some 1))\<rparr>\<rparr>, net_empty\<lparr>net_next := 2\<rparr>)
    else None)"
  by (simp add: tt_connect_def tachyon_bind_def tachyon_connect_def bind_socket_def connect_socket_def create_unreliable_sender_def
      clone_socket_def os os_ideal_def net_empty_def)

subsection \<open>The next message of a stream\<close>

text \<open>What the application of a server should have got of a stream; what it has got is a beginning of it.\<close>

definition due :: "tachyon \<Rightarrow> streams \<Rightarrow> packet list \<Rightarrow> channel_key \<Rightarrow> message list" where
  "due t body ps key = (case map_of (t_channel_config t) (snd key) of None \<Rightarrow> []
     | Some cfg \<Rightarrow> map (\<lambda>k. stream_message key (body key k)) (deliverable (cc_is_ordered cfg) (numbers key ps)))"

lemma due_prefix:
  assumes s: "serving t body ps ms"
  shows "\<exists>rest. due t body ps key = messages_of key ms @ rest
    \<and> length rest = (case map_of (t_channels t) key of None \<Rightarrow> 0 | Some c \<Rightarrow> length (r_published (c_receiver c)))"
proof (cases "map_of (t_channels t) key")
  case None
  have "stream_state body key (map_of (t_channels t) key) (map_of (t_channel_config t) (snd key)) (numbers key ps) (messages_of key ms)"
    using s unfolding serving_def by metis
  then show ?thesis using None by (simp add: due_def deliverable_def contiguous_def split: option.split)
next
  case (Some c)
  obtain cfg out where cfg: "map_of (t_channel_config t) (snd key) = Some cfg" "unat (cc_receive_window_size cfg) \<le> 1022"
    and run: "window_run (cc_is_ordered cfg) (cc_receive_window_size cfg) (stream_msg body key) (numbers key ps) (c_receiver c) out"
    and out: "messages_of key ms = map (stream_message key \<circ> drop 4) out"
    by (rule serving_stream [OF s Some]) simp
  let ?f = "stream_message key \<circ> drop 4" and ?d = "deliverable (cc_is_ordered cfg) (numbers key ps)"
  have "map ?f (map (stream_msg body key) ?d) = map ?f (out @ map bb_content (r_published (c_receiver c)))"
    using published_stream(1) [OF run cfg(2)] by simp
  then have "due t body ps key = messages_of key ms @ map ?f (map bb_content (r_published (c_receiver c)))"
    using out cfg(1) by (simp add: comp_def due_def)
  then show ?thesis using Some by (intro exI [of _ "map ?f (map bb_content (r_published (c_receiver c)))"]) simp
qed

lemma unpublished_due: "serving t body ps ms \<Longrightarrow> unpublished t \<longleftrightarrow> (\<forall>key. messages_of key ms = due t body ps key)"
proof
  assume s: "serving t body ps ms" and u: "unpublished t"
  show "\<forall>key. messages_of key ms = due t body ps key"
  proof
    fix key
    show "messages_of key ms = due t body ps key"
      using due_prefix [OF s, of key] u by (cases "map_of (t_channels t) key") auto
  qed
next
  assume s: "serving t body ps ms" and d: "\<forall>key. messages_of key ms = due t body ps key"
  show "unpublished t"
  proof (intro allI impI)
    fix key c
    assume "map_of (t_channels t) key = Some c"
    then show "r_published (c_receiver c) = []" using due_prefix [OF s, of key] d by auto
  qed
qed

lemma receive_next:
  assumes s: "serving t body ps ms" "unpublished t" "bodies_ok body" and fd: "ts_socket (t_socket t) = Some fd"
    and q: "net_in net fd = [Some (src, stream_msg body (a, ch) (Suc n))]" and a: "a = from_socket_addr src"
    and p: "packet_ok t ps (src, ch, Suc n)" and ks: "set (numbers (a, ch) ps) = {1..n}"
    and buf: "1200 \<le> length buf" and env: "fair_env env"
  shows "\<exists>t' buf'. receive_loop env now net t buf = Some (result_of (a, ch) (body (a, ch) (Suc n)), t', taken_from net fd [], buf')
    \<and> length buf' = length buf \<and> take (length (body (a, ch) (Suc n))) buf' = body (a, ch) (Suc n)
    \<and> serving t' body (ps @ [(src, ch, Suc n)]) (ms @ [stream_message (a, ch) (body (a, ch) (Suc n))]) \<and> unpublished t' \<and> same_setup t t'"
proof -
  let ?p = "(src, ch, Suc n)" and ?b = "body (a, ch) (Suc n)"
  obtain cfg where cfg: "map_of (t_channel_config t) ch = Some cfg" using p by (auto simp: packet_ok_def split: option.splits)
  have key: "packet_key ?p = (a, ch)" by (simp add: packet_key_def a)
  have q': "net_in net fd = map (datagram body) [?p]" using q by (simp add: datagram_def key)
  have ord: "\<forall>ks. set (e_channel_order env ks) = set ks" using env by (simp add: fair_env_def)
  obtain r t' buf' j where l: "receive_loop env now net t buf =
      Some (case r of Some res \<Rightarrow> res | None \<Rightarrow> trr_default, t', taken_from net fd (map (datagram body) (drop j [?p])), buf')"
    "outcome t body (ps @ take j [?p]) ms buf r t' buf'" "j \<le> 1" "r = None \<longrightarrow> j = 1 \<and> unpublished t'"
    using serving_loop [OF s(1,3) fd q' _ buf ord, of now] p by auto
  have set: "same_setup t t'" using l(2) by (cases r) auto
  obtain k1 where "deliverable (cc_is_ordered cfg) (numbers (a, ch) ps @ [Suc n]) = deliverable (cc_is_ordered cfg) (numbers (a, ch) ps) @ k1"
    "set k1 = {Suc n}" "distinct k1"
    using deliverable_block [OF ks, of "[Suc n]" 1] by auto
  moreover from this have "length k1 = 1" using distinct_card [of k1] by simp
  then obtain x where "k1 = [x]" by (auto simp: length_Suc_conv)
  moreover have old: "messages_of k ms = due t body ps k" for k using unpublished_due [OF s(1)] s(2) by blast
  moreover have "t_channel_config t' = t_channel_config t" "j = 0 \<or> j = 1" using set l(3) by (auto simp: same_setup_def)
  ultimately have new: "due t' body (ps @ take j [?p]) k =
      (if j = 1 \<and> k = (a, ch) then messages_of k ms @ [stream_message (a, ch) ?b] else messages_of k ms)" for k
    unfolding old using key cfg by (auto simp: due_def split: option.split)
  show ?thesis
  proof (cases r)
    case None
    then have "serving t' body (ps @ take j [?p]) ms" "unpublished t'" using l(2,4) by simp_all
    then have "messages_of (a, ch) ms = due t' body (ps @ take j [?p]) (a, ch)" using unpublished_due by blast
    then show ?thesis using new [of "(a, ch)"] None l(4) by simp
  next
    case (Some res)
    then obtain k b where b: "res = result_of k b" "take (length b) buf' = b" "length buf' = length buf"
      and s': "serving t' body (ps @ take j [?p]) (ms @ [stream_message k b])" using l(2) by auto
    obtain rest where "due t' body (ps @ take j [?p]) k = messages_of k ms @ stream_message k b # rest" using due_prefix [OF s', of k] by auto
    then have k: "j = 1" "k = (a, ch)" "b = ?b" using new [of k] by (auto simp: stream_message_def split: if_splits)
    have "unpublished t'" unfolding unpublished_due [OF s'] using new k by auto
    then show ?thesis using l(1) Some b s' k set by auto
  qed
qed

subsection \<open>The tests pass\<close>

abbreviation the_client :: network_address where "the_client \<equiv> from_socket_addr client_addr"

abbreviation networked :: network where "networked \<equiv> net_empty\<lparr>net_next := 2\<rparr>"

definition bound_server :: "nat \<Rightarrow> nat \<Rightarrow> (u8 \<times> channel_config) list \<Rightarrow> tachyon" where
  "bound_server now fd cfg = (tachyon_create now tcf_default)
     \<lparr>t_channel_config := cfg, t_socket := ts_create\<lparr>ts_address := na_test_address, ts_socket := Some fd, ts_is_server := True\<rparr>,
      t_unreliable_sender := Some (usnd_create (Some fd))\<rparr>"

definition connected_client :: "nat \<Rightarrow> nat \<Rightarrow> (u8 \<times> channel_config) list \<Rightarrow> tachyon" where
  "connected_client now fd cfg = (create_connection now ((tachyon_create now tcf_default)
     \<lparr>t_channel_config := cfg, t_socket := ts_create\<lparr>ts_socket := Some fd\<rparr>\<rparr>) na_default identity_default)
     \<lparr>t_unreliable_sender := Some (usnd_create (Some fd))\<rparr>"

abbreviation default_channels :: "(u8 \<times> channel_config) list" where
  "default_channels \<equiv> [(1, cc_default_ordered), (2, cc_default_unordered)]"

abbreviation three_channels :: "(u8 \<times> channel_config) list" where
  "three_channels \<equiv> [(1, cc_default_ordered), (2, cc_default_unordered), (3, cc_default_ordered)]"

lemma created: 
  "t_channel_config (tachyon_create now cf) = default_channels" "t_socket (tachyon_create now cf) = ts_create"
  "t_inv (tachyon_create now cf)" "t_channels (tachyon_create now cf) = []" "t_connections (tachyon_create now cf) = []"
  "t_config (tachyon_create now cf) = cf" "length (t_socket_receive_buffer (tachyon_create now cf)) = 1048576"
  by (simp_all add: tachyon_create_def create_buffer)

lemma bound_serving:
  assumes "\<forall>c \<in> set cfg. unat (cc_receive_window_size (snd c)) \<le> 1022"
  shows "serving (bound_server now fd cfg) body [] []" "unpublished (bound_server now fd cfg)"
proof -
  have "t_inv (bound_server now fd cfg)" by (simp add: bound_server_def t_wf_def links_ok_def created)
  then show "serving (bound_server now fd cfg) body [] []"
    using assms by (intro serving_start) (force simp: bound_server_def created tcf_default_def dest: map_of_SomeD)+
  show "unpublished (bound_server now fd cfg)" by (simp add: bound_server_def created)
qed

lemma connected_sending:
  assumes "ch \<noteq> 0" "map_of cfg ch = Some c"
  shows "sending (connected_client now fd cfg) fd ch body 0"
proof -
  let ?t0 = "(tachyon_create now tcf_default)\<lparr>t_channel_config := cfg, t_socket := ts_create\<lparr>ts_socket := Some fd\<rparr>\<rparr>"
  have "t_inv ?t0" by (simp add: t_wf_def links_ok_def created)
  then have "sending (create_connection now ?t0 na_default identity_default) fd ch body 0"
    using assms by (intro sending_start) (auto simp: created tcf_default_def ts_create_def)
  then show ?thesis by (simp add: connected_client_def sending_def client_ok_def)
qed

lemma default_config: "(tachyon_create now cf)\<lparr>t_channel_config := default_channels\<rparr> = tachyon_create now cf"
  using created(1) [of now cf] by (metis tachyon.surjective tachyon.update_convs(9))

lemma connected_test:
  assumes os: "e_os env = os_ideal"
    and test: "test = (tt_default now)\<lparr>tt_server := (tachyon_create now tcf_default)\<lparr>t_channel_config := scfg\<rparr>,
      tt_client := (tachyon_create now tcf_default)\<lparr>t_channel_config := ccfg\<rparr>\<rparr>"
  shows "tt_connect env now net_empty test = Some ((tt_default now)\<lparr>tt_server := bound_server now 0 scfg, tt_client := connected_client now 1 ccfg\<rparr>, networked)"
  using tt_connect_ideal [OF os, of now test]
  by (simp add: test tt_default_def tt_create_def bound_server_def connected_client_def created ts_create_def)

lemma default_test: "tt_default now = (tt_default now)\<lparr>tt_server := (tachyon_create now tcf_default)\<lparr>t_channel_config := default_channels\<rparr>,
      tt_client := (tachyon_create now tcf_default)\<lparr>t_channel_config := default_channels\<rparr>\<rparr>"
  by (simp add: default_config tt_default_def tt_create_def)

lemma client_send:
  assumes os: "e_os env = os_ideal" and s: "sending (tt_client test) fd ch body n" and b: "body (Suc n) \<noteq> []" "length (body (Suc n)) < 1200"
    and data: "take len (tt_send_buffer test) = body (Suc n)" "len \<le> length (tt_send_buffer test)" and a: "tt_client_address test = na_default"
  shows "\<exists>r t'. client_send_reliable env now net test ch len = Some (r, test\<lparr>tt_client := t'\<rparr>, net\<lparr>net_out := net_out net @ [(fd, Connected, hdr_bytes 1 ch (seq_of (Suc n)) @ body (Suc n))]\<rparr>)
    \<and> sres_error r = 0 \<and> unat (sres_sent_len r) = len + 4 \<and> sending t' fd ch body (Suc n)
    \<and> (\<forall>ch' body' m. ch' \<noteq> ch \<longrightarrow> sending (tt_client test) fd ch' body' m \<longrightarrow> sending t' fd ch' body' m)"
proof -
  let ?p = "hdr_bytes 1 ch (seq_of (Suc n)) @ body (Suc n)"
  have len: "length (body (Suc n)) = len" using data by (metis length_take min.absorb2)
  have l: "length ?p = len + 4" "unat (word_of_nat (len + 4) :: u32) = len + 4" using len b(2) by (simp_all add: unat_of_nat del: of_nat_add)
  obtain r t' where r: "send_to_target os_ideal now net (tt_client test) ch \<lparr>tgt_identity_id = 0, tgt_address = na_default\<rparr> (tt_send_buffer test) len =
       Some (r, t', sent os_ideal fd Connected ?p net)" "sres_error r = 0" "sres_sent_len r = word_of_nat (sent_len os_ideal fd Connected ?p net)"
    "sending t' fd ch body (Suc n)" "\<forall>ch' body' m. ch' \<noteq> ch \<longrightarrow> sending (tt_client test) fd ch' body' m \<longrightarrow> sending t' fd ch' body' m"
    using send_one [OF s b data, of os_ideal now net] by blast
  have "sent os_ideal fd Connected ?p net = net\<lparr>net_out := net_out net @ [(fd, Connected, ?p)]\<rparr>" "sent_len os_ideal fd Connected ?p net = len + 4"
    using l(1) by (simp_all add: sent_def udp_send_def os_ideal_def sent_len_def)
  then show ?thesis using r l(2) by (intro exI [of _ r] exI [of _ t']) (simp add: client_send_reliable_def a os)
qed

lemma server_next:
  assumes s: "serving (tt_server test) body ps ms" "unpublished (tt_server test)" "bodies_ok body" and fd: "ts_socket (t_socket (tt_server test)) = Some sfd"
    and net: "net_out net = [(cfd, Connected, stream_msg body (the_client, ch) (Suc n))]" "net_in net sfd = []"
    and p: "packet_ok (tt_server test) ps (client_addr, ch, Suc n)" and ks: "set (numbers (the_client, ch) ps) = {1..n}"
    and buf: "1200 \<le> length (tt_receive_buffer test)" and env: "fair_env env"
  defines "b \<equiv> body (the_client, ch) (Suc n)"
  shows "\<exists>t' buf'. server_receive env (loopback cfd sfd) now net test =
      Some (result_of (the_client, ch) b, test\<lparr>tt_server := t', tt_receive_buffer := buf'\<rparr>, net\<lparr>net_out := []\<rparr>)
    \<and> length buf' = length (tt_receive_buffer test) \<and> take (length b) buf' = b
    \<and> serving t' body (ps @ [(client_addr, ch, Suc n)]) (ms @ [stream_message (the_client, ch) b]) \<and> unpublished t' \<and> same_setup (tt_server test) t'"
proof -
  let ?d = "stream_msg body (the_client, ch) (Suc n)"
  let ?net = "net\<lparr>net_out := [], net_in := (net_in net)(sfd := [Some (client_addr, ?d)])\<rparr>"
  have l: "loopback cfd sfd net = ?net" using loopback_client [of net cfd "[?d]" sfd] net by simp
  have "net_in ?net sfd = [Some (client_addr, ?d)]" by simp
  from receive_next [OF s fd this refl p ks buf env, of now]
  obtain t' buf' where r: "receive_loop env now ?net (tt_server test) (tt_receive_buffer test) = Some (result_of (the_client, ch) b, t', taken_from ?net sfd [], buf')"
    "length buf' = length (tt_receive_buffer test)" "take (length b) buf' = b"
    "serving t' body (ps @ [(client_addr, ch, Suc n)]) (ms @ [stream_message (the_client, ch) b])" "unpublished t'" "same_setup (tt_server test) t'"
    unfolding b_def by blast
  have "taken_from ?net sfd [] = net\<lparr>net_out := []\<rparr>" using net(2) by (simp add: fun_upd_idem)
  with r l show ?thesis by (intro exI [of _ t'] exI [of _ buf']) (simp add: server_receive_def)
qed

lemma configured:
  "snd (configure_channel (tachyon_create now cf) 3 cc_default_ordered) = (tachyon_create now cf)\<lparr>t_channel_config := three_channels\<rparr>"
  by (simp add: configure_channel_def created)

lemma windows: "\<forall>c \<in> set three_channels. unat (cc_receive_window_size (snd c)) \<le> 1022" "\<forall>c \<in> set default_channels. unat (cc_receive_window_size (snd c)) \<le> 1022"
  by (simp_all add: cc_default_ordered_def cc_default_unordered_def)

lemma bound_sel [simp]:
  "ts_socket (t_socket (bound_server now fd cfg)) = Some fd" "t_channel_config (bound_server now fd cfg) = cfg"
  "ts_is_server (t_socket (bound_server now fd cfg))" "t_connections (bound_server now fd cfg) = []" "t_channels (bound_server now fd cfg) = []"
  "t_config (bound_server now fd cfg) = tcf_default" "length (t_socket_receive_buffer (bound_server now fd cfg)) = 1048576"
  by (simp_all add: bound_server_def created ts_create_def)

lemma default_sel [simp]:
  "tt_client_address (tt_default now) = na_default" "tt_send_buffer (tt_default now) = replicate 4096 0" "tt_receive_buffer (tt_default now) = replicate 4096 0"
  by (simp_all add: tt_default_def tt_create_def)

abbreviation zeros :: "nat \<Rightarrow> streams" where "zeros n \<equiv> \<lambda>key k. replicate n 0"

lemma zeros_ok: "0 < n \<Longrightarrow> n < 1200 \<Longrightarrow> bodies_ok (zeros n)"
  by (simp add: bodies_ok_def)

lemma test_configured_channel_passes:
  assumes os: "e_os env = os_ideal" and env: "fair_env env"
  shows "test_configured_channel env (loopback 1 0) now net_empty = Some ()"
proof -
  let ?test = "(tt_default now)\<lparr>tt_server := bound_server now 0 three_channels, tt_client := connected_client now 1 three_channels\<rparr>"
  have c: "tt_connect env now net_empty ((tt_default now)\<lparr>tt_client := (tachyon_create now tcf_default)\<lparr>t_channel_config := three_channels\<rparr>,
      tt_server := (tachyon_create now tcf_default)\<lparr>t_channel_config := three_channels\<rparr>\<rparr>) = Some (?test, networked)"
    by (rule connected_test [OF os]) (simp add: tt_default_def tt_create_def)
  have "sending (tt_client ?test) 1 3 (\<lambda>k. replicate 2 0) 0" using connected_sending [of 3 three_channels cc_default_ordered now 1] by simp
  from client_send [OF os this, of 2 now networked]
  obtain r t' where snd: "client_send_reliable env now networked ?test 3 2 =
      Some (r, ?test\<lparr>tt_client := t'\<rparr>, networked\<lparr>net_out := [(1, Connected, hdr_bytes 1 3 (seq_of (Suc 0)) @ replicate 2 0)]\<rparr>)"
    "sres_error r = 0" "unat (sres_sent_len r) = 2 + 4" by (auto simp: net_empty_def)
  let ?net = "networked\<lparr>net_out := [(1, Connected, hdr_bytes 1 3 (seq_of (Suc 0)) @ replicate 2 0)]\<rparr>"
  obtain t'' buf' where "server_receive env (loopback 1 0) now ?net (?test\<lparr>tt_client := t'\<rparr>) =
      Some (result_of (the_client, 3) (replicate 2 0), ?test\<lparr>tt_client := t', tt_server := t'', tt_receive_buffer := buf'\<rparr>, ?net\<lparr>net_out := []\<rparr>)"
    using server_next [where test = "?test\<lparr>tt_client := t'\<rparr>" and body = "zeros 2" and ps = "[]" and ms = "[]" and sfd = 0 and net = ?net and cfd = 1 and ch = 3 and n = 0 and env = env and now = now] bound_serving(1) [OF windows(1), of now 0 "zeros 2"] bound_serving(2) [OF windows(1), of now 0] env
    by (auto simp: zeros_ok stream_msg_def net_empty_def packet_ok_def cc_default_ordered_def arrival_ok_def contiguous_def tcf_default_def)
  then show ?thesis using c snd unfolding test_configured_channel_def
    by (simp add: configured tt_default_def tt_create_def result_of_def)
qed

lemma test_unconfigured_channel_fails_passes:
  assumes os: "e_os env = os_ideal"
  shows "test_unconfigured_channel_fails env (loopback 1 0) now net_empty = Some ()"
proof -
  let ?sv = "bound_server now 0 default_channels" and ?d = "hdr_bytes 1 3 (seq_of (Suc 0)) @ replicate 2 0"
  let ?test = "(tt_default now)\<lparr>tt_server := ?sv, tt_client := connected_client now 1 three_channels\<rparr>"
  have c: "tt_connect env now net_empty ((tt_default now)\<lparr>tt_client := (tachyon_create now tcf_default)\<lparr>t_channel_config := three_channels\<rparr>\<rparr>)
      = Some (?test, networked)"
    by (rule connected_test [OF os]) (simp add: tt_default_def tt_create_def default_config)
  have "sending (tt_client ?test) 1 3 (\<lambda>k. replicate 2 0) 0" using connected_sending [of 3 three_channels cc_default_ordered now 1] by simp
  from client_send [OF os this, of 2 now networked]
  obtain r t' where snd: "client_send_reliable env now networked ?test 3 2 =
      Some (r, ?test\<lparr>tt_client := t'\<rparr>, networked\<lparr>net_out := [(1, Connected, ?d)]\<rparr>)" "sres_error r = 0" "unat (sres_sent_len r) = 2 + 4"
    by (auto simp: net_empty_def)
  let ?net = "networked\<lparr>net_out := [], net_in := (net_in networked)(0 := [Some (client_addr, ?d)])\<rparr>"
  have l: "loopback 1 0 (networked\<lparr>net_out := [(1, Connected, ?d)]\<rparr>) = ?net"
    using loopback_client [of "networked\<lparr>net_out := [(1, Connected, ?d)]\<rparr>" 1 "[?d]" 0] by (simp add: net_empty_def)
  let ?h = "header_default\<lparr>h_message_type := 1, h_channel := 3, h_sequence := seq_of (Suc 0)\<rparr>"
  let ?t1 = "on_receive_connection_update now (filled ?sv ?d) the_client"
  have "header_read (overwrite (t_socket_receive_buffer ?sv) 0 ?d) = Some ?h" by (simp add: overwrite_def header_read_prefix)
  then have "receive_gate env now ?net ?sv = Some (Inr (?h, the_client, length ?d), ?t1, taken_from ?net 0 [])"
    by (intro gate_admits) (simp_all add: receiving_def tcf_default_def)
  moreover have "map_of (t_channels ?t1) (the_client, 3) = None" by (simp add: update_connection_maps(1))
  ultimately have "\<exists>t net' b. receive_loop env now ?net ?sv (replicate 4096 0) = Some (trr_default\<lparr>trr_error := RECEIVE_ERROR_CHANNEL\<rparr>, t, net', b)"
    by (simp add: receive_loop_def receive_rounds_100 receive_round_def receive_from_socket_def)
  then show ?thesis using c snd l unfolding test_unconfigured_channel_fails_def
    by (auto simp: configured tt_default_def tt_create_def server_receive_def trr_default_def)
qed

text \<open>The first message to a new server, into a buffer that is just large enough.\<close>

lemma first_received:
  assumes net: "net_in net fd = [Some (client_addr, stream_msg body (the_client, ch) (Suc 0))]" and b: "b = body (the_client, ch) (Suc 0)" "b \<noteq> []" "length b < 1200" "length b \<le> length buf"
    and cfg: "map_of cfg ch = Some c" "1 < unat (cc_receive_window_size c)" "unat (cc_receive_window_size c) \<le> 1022"
  shows "\<exists>t' net' buf'. receive_loop env now net (bound_server now fd cfg) buf = Some (result_of (the_client, ch) b, t', net', buf')"
proof -
  let ?sv = "bound_server now fd cfg" and ?d = "stream_msg body (the_client, ch) (Suc 0)" and ?W = "cc_receive_window_size c" and ?o = "cc_is_ordered c"
  let ?h = "header_default\<lparr>h_message_type := 1, h_channel := ch, h_sequence := seq_of (Suc 0)\<rparr>"
  let ?t1 = "on_receive_connection_update now (filled ?sv ?d) the_client" and ?buf = "overwrite (t_socket_receive_buffer ?sv) 0 ?d"
  have d: "?d = hdr_bytes 1 ch (seq_of (Suc 0)) @ b" by (simp add: stream_msg_def b(1))
  have "header_read ?buf = Some ?h" by (simp add: d overwrite_def header_read_prefix)
  then have gate: "receive_gate env now net ?sv = Some (Inr (?h, the_client, length ?d), ?t1, taken_from net fd [])"
    using net b(3) by (intro gate_admits) (simp_all add: d receiving_def tcf_default_def)
  define ch1 where "ch1 = channel_create ch the_client c"
  have at: "map_of (t_channels ?t1) (the_client, ch) = Some ch1" "c_receiver ch1 = receiver_create ?o ?W" "c_id ch1 = ch" "c_address ch1 = the_client"
    using cfg(1) by (simp_all add: update_connection_maps(1) ch1_def) (simp add: channel_create_def)
  have blen: "length ?d \<le> length ?buf" "take (length ?d) ?buf = ?d" by (simp_all add: overwrite_def)
  have arr: "arrival_ok ?W [] (Suc 0)" using cfg(2) by (simp add: arrival_ok_def contiguous_def)
  note run = window_run.start [of ?o ?W "stream_msg body (the_client, ch)"]
  obtain r where r: "receive_packet (receiver_create ?o ?W) (seq_of (Suc 0)) ?buf (length ?d) = Some (True, r)"
    using arrival_accepted [OF run cfg(3) arr blen] by auto
  note run' = window_run.arrive [OF run arr blen r]
  have "deliverable ?o [Suc 0] = [Suc 0]" by (simp add: deliverable_def contiguous_def)
  then have pub: "map bb_content (r_published r) = [?d]" using published_stream(1) [OF run' cfg(3)] by simp
  then obtain bb where bb: "r_published r = [bb]" "bb_content bb = hdr_bytes 1 ch (seq_of (Suc 0)) @ b" using d by auto
  obtain l where l: "bb_ok l bb" using published_stream(2) [OF run' cfg(3)] bb(1) by auto
  obtain st where st: "channel_receive env now ch1 ?h the_client ?buf (length ?d) = Some (RR_Reliable the_client ch, ch1\<lparr>c_receiver := r, c_stats := st\<rparr>)"
    using channel_receive_reliable [of ch1 "seq_of (Suc 0)" ?buf "length ?d" r ?h env now the_client] r at by auto
  have pos: "(word_of_nat (length b) :: u32) > 0" using b(2,3) by (intro u32_pos) auto
  have "\<exists>c'. receive_published (ch1\<lparr>c_receiver := r, c_stats := st\<rparr>) buf = Some ((word_of_nat (length b), the_client), c', overwrite buf 0 b)"
    using receive_published_reliable [of "ch1\<lparr>c_receiver := r, c_stats := st\<rparr>" bb "[]" l ch "seq_of (Suc 0)" b buf] bb l b at(4) by simp
  then obtain c' where c': "receive_published (ch1\<lparr>c_receiver := r, c_stats := st\<rparr>) buf = Some ((word_of_nat (length b), the_client), c', overwrite buf 0 b)"
    by blast
  have "receive_from_socket env now net ?sv = Some (RR_Reliable the_client ch,
      ?t1\<lparr>t_channels := AList.update (the_client, ch) (ch1\<lparr>c_receiver := r, c_stats := st\<rparr>) (t_channels ?t1)\<rparr>, taken_from net fd [])"
    using gate at(1) st by (simp add: receive_from_socket_def)
  then show ?thesis
    using c' pos by (simp add: receive_loop_def receive_rounds_100 receive_round_def receive_published_channel_id_def update_conv' result_of_def trr_default_def)
qed

lemma test_connect_before_bind_passes:
  assumes os: "e_os env = os_ideal"
  shows "test_connect_before_bind env (loopback 0 1) now net_empty = Some ()"
proof -
  let ?cl = "connected_client now 0 default_channels" and ?sv = "bound_server now 1 default_channels" and ?b = "replicate 32 (0 :: u8)"
  have c: "tachyon_connect (e_os env) now net_empty (tachyon_create now tcf_default) na_test_address = Some (True, ?cl, net_empty\<lparr>net_next := 1\<rparr>)"
    "tachyon_bind (e_os env) (net_empty\<lparr>net_next := 1\<rparr>) (tachyon_create now tcf_default) na_test_address = Some (True, ?sv, networked)"
    by (simp_all add: tachyon_bind_def tachyon_connect_def bind_socket_def connect_socket_def create_unreliable_sender_def clone_socket_def os os_ideal_def
        created connected_client_def bound_server_def default_config ts_create_def) (simp_all add: net_empty_def)
  have "sending ?cl 0 1 (\<lambda>k. ?b) 0" using connected_sending [of 1 default_channels cc_default_ordered now 0] by simp
  then obtain r t' where snd: "send_to_target (e_os env) now networked ?cl 1 \<lparr>tgt_identity_id = 0, tgt_address = na_default\<rparr> (replicate 1024 0) 32 =
      Some (r, t', sent (e_os env) 0 Connected (hdr_bytes 1 1 (seq_of (Suc 0)) @ ?b) networked)" "sres_error r = 0"
    using send_one [of ?cl 0 1 "\<lambda>k. ?b" 0 32 "replicate 1024 0" "e_os env" now networked] by auto
  let ?d = "stream_msg (zeros 32) (the_client, 1) (Suc 0)"
  let ?net = "networked\<lparr>net_out := [], net_in := (net_in networked)(1 := [Some (client_addr, ?d)])\<rparr>"
  have l: "loopback 0 1 (sent (e_os env) 0 Connected (hdr_bytes 1 1 (seq_of (Suc 0)) @ ?b) networked) = ?net"
    using loopback_client [of "sent (e_os env) 0 Connected ?d networked" 0 "[?d]" 1]
    by (simp add: sent_def udp_send_def os os_ideal_def net_empty_def stream_msg_def)
  obtain t'' net' buf' where "receive_loop env now ?net ?sv (replicate 1024 0) = Some (result_of (the_client, 1) ?b, t'', net', buf')"
    using first_received [of ?net 1 "zeros 32" 1 ?b "replicate 1024 0" default_channels cc_default_ordered env now]
    by (auto simp: cc_default_ordered_def)
  then show ?thesis using c snd l unfolding test_connect_before_bind_def by (simp add: result_of_def)
qed

lemma client_send_unreliable_eq:
  assumes os: "e_os env = os_ideal" and a: "tt_client_address test = na_default" and c: "can_send (tt_client test)"
    and u: "t_unreliable_sender (tt_client test) = Some sender" "usnd_socket sender = Some fd" "length (usnd_send_buffer sender) = 16384"
    and len: "0 < len" "len < 16384" "len \<le> length (tt_send_buffer test)"
  shows "\<exists>r t'. client_send_unreliable env now net test len =
      Some (r, test\<lparr>tt_client := t'\<rparr>, net\<lparr>net_out := net_out net @ [(fd, Connected, 0 # take len (tt_send_buffer test))]\<rparr>)
    \<and> sres_error r = 0 \<and> unat (sres_sent_len r) = Suc len"
proof -
  let ?d = "0 # take len (tt_send_buffer test)"
  have "sent os_ideal fd Connected ?d net = net\<lparr>net_out := net_out net @ [(fd, Connected, ?d)]\<rparr>" "sent_len os_ideal fd Connected ?d net = Suc len"
    using len(3) by (simp_all add: sent_def udp_send_def os_ideal_def sent_len_def)
  moreover have "unat (word_of_nat (Suc len) :: u32) = Suc len" using len(2) by (simp add: unat_of_nat del: of_nat_Suc)
  moreover obtain r sender' where "usnd_send os_ideal net sender na_default (tt_send_buffer test) len = Some (r, sender', sent os_ideal fd Connected ?d net)"
    "sres_error r = 0" "sres_sent_len r = word_of_nat (sent_len os_ideal fd Connected ?d net)"
    using usnd_send_eq [OF u(3) len(3,2) u(2) len(1), of os_ideal net na_default] by auto
  ultimately show ?thesis
    using c u(1) by (auto simp: client_send_unreliable_def send_to_target_def send_unreliable_def os a)
qed

lemma client_sel [simp]:
  "t_unreliable_sender (connected_client now fd cfg) = Some (usnd_create (Some fd))" "can_send (connected_client now fd cfg)"
  by (simp_all add: connected_client_def can_send_def created tcf_default_def)

lemma client_same: "(connected_client now fd cfg)\<lparr>t_unreliable_sender := Some (usnd_create (Some fd))\<rparr> = connected_client now fd cfg"
  by (simp add: connected_client_def)

lemma net_empty_sel: "net_out net_empty = []" "net_in net_empty = (\<lambda>_. [])"
  by (simp_all add: net_empty_def)

lemma test_unreliable_passes:
  assumes os: "e_os env = os_ideal"
  shows "test_unreliable env (loopback 1 0) now net_empty = Some ()"
proof -
  let ?sv = "bound_server now 0 default_channels" and ?cl = "connected_client now 1 default_channels"
  let ?test = "(tt_default now)\<lparr>tt_server := ?sv, tt_client := ?cl\<rparr>"
  have c: "tt_connect env now net_empty (tt_default now) = Some (?test, networked)" by (rule connected_test [OF os default_test])
  have e: "client_send_unreliable env now networked ?test 0 = Some (sres_default\<lparr>sres_error := SEND_ERROR_LENGTH\<rparr>, ?test, networked)"
    by (simp add: client_send_unreliable_def send_to_target_def send_unreliable_def usnd_send_def sres_default_def client_same)
  have l0: "loopback 1 0 networked = networked" by (simp add: loopback_def net_empty_def)
  obtain chs where i: "receive_loop env now networked ?sv (replicate 4096 0) = Some (trr_default, ?sv\<lparr>t_channels := chs\<rparr>, networked, replicate 4096 0)"
    "map_of chs = map_of (t_channels ?sv)"
    using receive_idle(2) [of ?sv 0 networked env now "replicate 4096 0"] bound_serving(2) [OF windows(2), of now 0] by (auto simp: net_empty_def)
  let ?sb = "(replicate 4096 (0 :: u8))[0 := 3, 1 := 4, 2 := 5, 3 := 6]" and ?d = "[0, 3, 4, 5, 6] :: u8 list"
  let ?test2 = "(tt_default now)\<lparr>tt_client := ?cl, tt_server := ?sv\<lparr>t_channels := chs\<rparr>, tt_receive_buffer := (replicate 4096 0)[0 := 1], tt_send_buffer := ?sb\<rparr>"
  have tk: "take 4 ?sb = [3, 4, 5, 6]" by (simp add: take_update_swap) (simp add: numeral_eq_Suc)
  obtain r t' where s: "client_send_unreliable env now networked ?test2 4 = Some (r, ?test2\<lparr>tt_client := t'\<rparr>, networked\<lparr>net_out := [(1, Connected, ?d)]\<rparr>)"
    "sres_error r = 0" "unat (sres_sent_len r) = 5"
    using client_send_unreliable_eq [of env ?test2 "usnd_create (Some 1)" 1 4 now networked] os tk
    by (auto simp: usnd_create_def net_empty_sel)
  let ?net = "networked\<lparr>net_out := [], net_in := (net_in networked)(0 := [Some (client_addr, ?d)])\<rparr>"
  have l: "loopback 1 0 (networked\<lparr>net_out := [(1, Connected, ?d)]\<rparr>) = ?net"
    using loopback_client [of "networked\<lparr>net_out := [(1, Connected, ?d)]\<rparr>" 1 "[?d]" 0] by (simp add: net_empty_def)
  have "receiving (?sv\<lparr>t_channels := chs\<rparr>) ?net 0 client_addr (0 # [3, 4, 5, 6]) []" by (simp add: receiving_def tcf_default_def)
  from receive_unreliable [OF this, of "(replicate 4096 0)[0 := 1]" env now]
  obtain t'' net' where "receive_loop env now ?net (?sv\<lparr>t_channels := chs\<rparr>) ((replicate 4096 0)[0 := 1]) =
      Some (\<lparr>trr_channel = 0, trr_address = the_client, trr_length = 4, trr_error = 0\<rparr>, t'', net', overwrite ((replicate 4096 0)[0 := 1]) 0 [3, 4, 5, 6])"
    by (auto simp: tcf_default_def)
  then show ?thesis using c e l0 i s l unfolding test_unreliable_def
    by (simp add: server_receive_def sres_default_def trr_default_def overwrite_def nth_append)
qed

text \<open>A large message from the client to the server of the harness.\<close>

lemma large_test:
  assumes os: "e_os env = os_ideal" and env: "fair_env env" and client: "client_ok (tt_client test) cfd ch cbody n" "tt_client_address test = na_default"
    and msg: "1200 \<le> len" "len \<le> length (tt_send_buffer test)" "len \<le> 100 * 1200" "len \<le> length (tt_receive_buffer test)"
    and s: "serving (tt_server test) body ps ms" "unpublished (tt_server test)" and fd: "ts_socket (t_socket (tt_server test)) = Some sfd" "1210 \<le> length (t_socket_receive_buffer (tt_server test))"
    and cfg: "map_of (t_channel_config (tt_server test)) ch = Some c" "100 < unat (cc_receive_window_size c)" and idn: "tcf_use_identity (t_config (tt_server test)) \<noteq> 1"
    and ps: "set (numbers (the_client, ch) ps) = {1..n}" and net: "net_out net = []" "net_in net sfd = []"
  shows "\<exists>r test' net'. client_send_reliable env now net test ch len = Some (r, test', net')
    \<and> (\<exists>test'' net''. server_receive env (loopback cfd sfd) now' net' test' = Some (result_of (the_client, ch) (take len (tt_send_buffer test)), test'', net''))"
proof -
  have os': "\<forall>net fd dest d. os_send os_ideal net fd dest d" by (simp add: os_ideal_def)
  have big: "len \<le> 1022 * 1200" using msg(3) by simp
  note f = large_message_fragments [OF client(1) msg(1,2) big os', of now net]
  obtain r u g cs net' where snd: "send_to_target os_ideal now net (tt_client test) ch \<lparr>tgt_identity_id = 0, tgt_address = na_default\<rparr> (tt_send_buffer test) len = Some (r, u, net')"
    and cs: "length cs = (len + 1199) div 1200" "concat cs = take len (tt_send_buffer test)" "\<forall>x \<in> set cs. length x \<le> 1200"
    and out: "net_out net' = net_out net @ map (\<lambda>j. (cfd, Connected, fragment ch g n cs (n + 1 + j))) [0..<length cs]" "net_in net' = net_in net"
    using f by blast
  let ?js = "[n + 1..<n + 1 + length cs]"
  have js: "?js = map (\<lambda>j. n + 1 + j) [0..<length cs]" by (rule nth_equalityI) (simp_all del: upt_Suc)
  have "net_in (loopback cfd sfd net') sfd = map (\<lambda>k. Some (client_addr, fragment ch g n cs k)) ?js"
    using loopback_client [of net' cfd "map (\<lambda>j. fragment ch g n cs (n + 1 + j)) [0..<length cs]" sfd] out net unfolding js by (simp add: comp_def)
  moreover have "set ?js = {n + 1..n + length cs}" "length ?js \<le> 100" using cs(1) msg(3) by auto
  moreover have "concat cs \<noteq> []" "length (concat cs) \<le> length (tt_receive_buffer test)" unfolding cs(2) using msg by auto
  moreover have "length cs < unat (cc_receive_window_size c)" using cs(1) msg(3) cfg(2) by linarith
  ultimately obtain t' where "receive_loop env now' (loopback cfd sfd net') (tt_server test) (tt_receive_buffer test) =
      Some (result_of (the_client, ch) (concat cs), t', taken_from (loopback cfd sfd net') sfd [], overwrite (tt_receive_buffer test) 0 (concat cs))"
    using large_message_received [OF s fd cfg(1) _ ps refl, of "loopback cfd sfd net'" g cs ?js "tt_receive_buffer test" env now'] cs(3) idn env
    unfolding fair_env_def by blast
  then show ?thesis using snd cs(2) by (simp add: client_send_reliable_def server_receive_def client(2) os)
qed

text \<open>The bodies of the two small messages of \<open>test_reliable\<close>.\<close>

abbreviation two_bodies :: streams where
  "two_bodies \<equiv> \<lambda>key k. 4 # replicate (if snd key = 1 then 1 else 32) 0"

lemma sent_buffer: "take (Suc n) ((replicate 4096 (0 :: u8))[0 := 4]) = 4 # replicate (min n 4095) 0"
proof -
  have "replicate 4096 (0 :: u8) = 0 # replicate 4095 0" using replicate_Suc [of 4095 "0 :: u8"] by simp
  then show ?thesis by simp
qed

lemma test_reliable_passes:
  assumes os: "e_os env = os_ideal" and env: "fair_env env"
  shows "test_reliable env (loopback 1 0) now net_empty = Some ()"
proof -
  let ?sv = "bound_server now 0 default_channels" and ?cl = "connected_client now 1 default_channels" and ?sb = "(replicate 4096 (0 :: u8))[0 := 4]"
  let ?body = two_bodies and ?m = "\<lambda>ch. hdr_bytes 1 ch (seq_of (Suc 0)) @ two_bodies (the_client, ch) (Suc 0)"
  let ?test = "(tt_default now)\<lparr>tt_server := ?sv, tt_client := ?cl, tt_send_buffer := ?sb\<rparr>"
  have ok: "bodies_ok ?body" by (simp add: bodies_ok_def)
  have c: "tt_connect env now net_empty (tt_default now) = Some ((tt_default now)\<lparr>tt_server := ?sv, tt_client := ?cl\<rparr>, networked)"
    by (rule connected_test [OF os default_test])
  have s: "sending (tt_client ?test) 1 1 (?body (the_client, 1)) 0" "sending (tt_client ?test) 1 2 (?body (the_client, 2)) 0"
    using connected_sending [of 1 default_channels cc_default_ordered now 1] connected_sending [of 2 default_channels cc_default_unordered now 1] by simp_all
  have tk: "take 2 ?sb = ?body (the_client, 1) (Suc 0)" "take 33 ?sb = ?body (the_client, 2) (Suc 0)"
    using sent_buffer [of 1] sent_buffer [of 32] by (simp_all add: numeral_2_eq_2)
  obtain r1 c1 where snd1: "client_send_reliable env now networked ?test 1 2 = Some (r1, ?test\<lparr>tt_client := c1\<rparr>, networked\<lparr>net_out := [(1, Connected, ?m 1)]\<rparr>)"
    "unat (sres_sent_len r1) = 2 + 4" "sending c1 1 2 (?body (the_client, 2)) 0"
    using client_send [OF os s(1), of 2 now networked] tk(1) s(2) by (auto simp: net_empty_sel)
  let ?test1 = "?test\<lparr>tt_client := c1\<rparr>" and ?net1 = "networked\<lparr>net_out := [(1, Connected, ?m 1)]\<rparr>"
  have p1: "packet_ok ?sv [] (client_addr, 1, Suc 0)" by (simp add: packet_ok_def cc_default_ordered_def arrival_ok_def contiguous_def tcf_default_def)
  obtain t1 b1 where rcv1: "server_receive env (loopback 1 0) now ?net1 ?test1 =
      Some (result_of (the_client, 1) [4, 0], ?test1\<lparr>tt_server := t1, tt_receive_buffer := b1\<rparr>, networked)"
    "length b1 = 4096" "take 2 b1 = [4, 0]" "serving t1 ?body [(client_addr, 1, Suc 0)] [stream_message (the_client, 1) [4, 0]]" "unpublished t1" "same_setup ?sv t1"
    using server_next [where test = ?test1 and body = ?body and ps = "[]" and ms = "[]" and sfd = 0 and net = ?net1 and cfd = 1 and ch = 1 and n = 0 and env = env and now = now]
      bound_serving(1) [OF windows(2), of now 0 ?body] bound_serving(2) [OF windows(2), of now 0] env ok p1
    by (auto simp: stream_msg_def net_empty_sel numeral_2_eq_2)
  have b1: "b1 ! 0 = 4" using arg_cong [OF rcv1(3), of hd] rcv1(2) by (cases b1) auto
  let ?test2 = "?test\<lparr>tt_client := c1, tt_server := t1, tt_receive_buffer := b1\<rparr>"
  obtain r2 c2 where snd2: "client_send_reliable env now networked ?test2 2 33 = Some (r2, ?test2\<lparr>tt_client := c2\<rparr>, networked\<lparr>net_out := [(1, Connected, ?m 2)]\<rparr>)"
    "sending c2 1 2 (?body (the_client, 2)) 1"
    using client_send [OF os, of ?test2 1 2 "?body (the_client, 2)" 0 33 now networked] tk(2) snd1(3) by (auto simp: net_empty_sel)
  let ?test3 = "?test2\<lparr>tt_client := c2\<rparr>" and ?net2 = "networked\<lparr>net_out := [(1, Connected, ?m 2)]\<rparr>" and ?b = "4 # replicate 32 (0 :: u8)"
  have t1: "t_channel_config t1 = default_channels" "ts_socket (t_socket t1) = Some 0" "t_config t1 = tcf_default" "length (t_socket_receive_buffer t1) = 1048576"
    using rcv1(6) by (simp_all add: same_setup_def)
  have p2: "packet_ok t1 [(client_addr, 1, Suc 0)] (client_addr, 2, Suc 0)"
    by (simp add: packet_ok_def t1 cc_default_unordered_def arrival_ok_def contiguous_def tcf_default_def numbers_def packet_key_def)
  obtain t2 b2 where rcv2: "server_receive env (loopback 1 0) now ?net2 ?test3 =
      Some (result_of (the_client, 2) ?b, ?test3\<lparr>tt_server := t2, tt_receive_buffer := b2\<rparr>, networked)"
    "length b2 = 4096" "serving t2 ?body [(client_addr, 1, Suc 0), (client_addr, 2, Suc 0)] [stream_message (the_client, 1) [4, 0], stream_message (the_client, 2) ?b]"
    "unpublished t2" "same_setup t1 t2"
    using server_next [where test = ?test3 and body = ?body and ps = "[(client_addr, 1, Suc 0)]" and ms = "[stream_message (the_client, 1) [4, 0]]" and sfd = 0
        and net = ?net2 and cfd = 1 and ch = 2 and n = 0 and env = env and now = now] rcv1 t1 env ok p2
    by (auto simp: stream_msg_def net_empty_sel numbers_def packet_key_def)
  have t2: "t_channel_config t2 = default_channels" "ts_socket (t_socket t2) = Some 0" "t_config t2 = tcf_default" "length (t_socket_receive_buffer t2) = 1048576"
    using rcv2(5) t1 by (simp_all add: same_setup_def)
  let ?test4 = "?test\<lparr>tt_client := c2, tt_server := t2, tt_receive_buffer := b2\<rparr>"
  have "client_ok (tt_client ?test4) 1 2 (?body (the_client, 2)) 1" using snd2(2) by (simp add: sending_def)
  moreover have "set (numbers (the_client, 2) [(client_addr, 1, Suc 0), (client_addr, 2, Suc 0)]) = {1..1}" by (simp add: numbers_def packet_key_def)
  moreover have "100 < unat (cc_receive_window_size cc_default_unordered)" "tcf_use_identity tcf_default \<noteq> 1" by (simp_all add: cc_default_unordered_def tcf_default_def)
  ultimately have "\<exists>r test' net'. client_send_reliable env now networked ?test4 2 3497 = Some (r, test', net')
      \<and> (\<exists>test'' net''. server_receive env (loopback 1 0) now net' test' = Some (result_of (the_client, 2) (take 3497 (tt_send_buffer ?test4)), test'', net''))"
    using rcv2 t2 by (intro large_test [OF os env, where n = 1 and c = cc_default_unordered and body = ?body and ps = "[(client_addr, 1, Suc 0), (client_addr, 2, Suc 0)]" and cbody = "?body (the_client, 2)"]) (simp_all add: net_empty_sel numbers_def packet_key_def)
  then show ?thesis using c snd1 rcv1(1) b1 snd2(1) rcv2(1) unfolding test_reliable_def
    by (elim exE conjE) (simp add: result_of_def)
qed

end
