(* ===== verification/Link_Tests.thy ===== *)
theory Link_Tests
  imports Network_Tests
begin

text \<open>
  The unit tests of \<^verbatim>\<open>src/src/tachyon/connection_impl.rs\<close> in which a client asks a server for a link, on the harness
  and the loopback network of \<open>Network_Tests\<close>. Both pass.
\<close>

subsection \<open>The tests\<close>

definition link_test :: "nat \<Rightarrow> tachyon_test" where
  "link_test now =
     (let test = tt_default now;
          client = tt_client test;
          client = client\<lparr>t_config := (t_config client)\<lparr>tcf_use_identity := 1\<rparr>,
            t_identity := \<lparr>id_id = 1, id_session_id = 11, id_linked = 0\<rparr>\<rparr>;
          server = tt_server test;
          server = server\<lparr>t_config := (t_config server)\<lparr>tcf_use_identity := 1\<rparr>\<rparr>;
          server = set_identity server 1 10
      in test\<lparr>tt_client := client, tt_server := server\<rparr>)"

definition test_link_flow :: "env \<Rightarrow> (network \<Rightarrow> network) \<Rightarrow> nat \<Rightarrow> network \<Rightarrow> unit option" where
  "test_link_flow env carry now net = do {
     (test, net) \<leftarrow> tt_connect env now net (link_test now);
     let test = test\<lparr>tt_server := set_identity (tt_server test) 1 11\<rparr>;
     (client, net) \<leftarrow> tachyon_update env now net (tt_client test);
     let test = test\<lparr>tt_client := client\<rparr>;
     (_, test, net) \<leftarrow> server_receive env carry now net test;
     (_, test, net) \<leftarrow> client_receive env carry now net test;
     check (identity_is_linked (t_identity (tt_client test)));
     net \<leftarrow> send_unlink_identity (e_os env) net (tt_client test) (id_id (t_identity (tt_client test))) (id_session_id (t_identity (tt_client test)));
     (_, test, net) \<leftarrow> server_receive env carry now net test;
     (_, test, net) \<leftarrow> client_receive env carry now net test;
     check (\<not> identity_is_linked (t_identity (tt_client test))) }"

definition test_link_fail_flow :: "env \<Rightarrow> (network \<Rightarrow> network) \<Rightarrow> nat \<Rightarrow> network \<Rightarrow> unit option" where
  "test_link_fail_flow env carry now net = do {
     (test, net) \<leftarrow> tt_connect env now net (link_test now);
     (client, net) \<leftarrow> tachyon_update env now net (tt_client test);
     let test = test\<lparr>tt_client := client\<rparr>;
     (_, test, net) \<leftarrow> server_receive env carry now net test;
     (_, test, net) \<leftarrow> client_receive env carry now net test;
     check (\<not> identity_is_linked (t_identity (tt_client test))) }"

subsection \<open>The link tests pass\<close>

lemma update_channels_idle:
  assumes "\<forall>key c. map_of chs key = Some c \<longrightarrow> fresh c \<and> c_nacked_sequence_map c = []" "ts_socket s = Some fd" "fair_env env"
  shows "\<exists>chs'. update_channels env s keys chs net = Some (chs', net) \<and> (\<forall>key c. map_of chs' key = Some c \<longrightarrow> fresh c)"
  using assms(1)
proof (induction keys arbitrary: chs)
  case Nil
  then show ?case by (simp del: split_paired_All)
next
  case (Cons key keys)
  show ?case
  proof (cases "map_of chs key")
    case None
    then show ?thesis using Cons.IH [OF Cons.prems] by simp
  next
    case (Some c)
    have c: "fresh c" "c_nacked_sequence_map c = []" using Cons.prems Some by blast+
    have "e_nack_order env [] = []" using assms(3) unfolding fair_env_def by (metis set_empty)
    then obtain c' where c': "channel_update (e_os env) (e_vw env) (e_nack_order env) c s net = Some (c', net)" "fresh c'" "c_nacked_sequence_map c' = []"
      using fresh_update [OF c(1) assms(2,3), of net] c(2) by auto
    have "\<forall>k x. map_of (AList.update key c' chs) k = Some x \<longrightarrow> fresh x \<and> c_nacked_sequence_map x = []"
      using Cons.prems c'(2,3) by (auto simp: update_conv')
    from Cons.IH [OF this] show ?thesis using Some c'(1) by simp
  qed
qed

lemma fresh_unpublished: "\<forall>key c. map_of chs key = Some c \<longrightarrow> fresh c \<Longrightarrow> map_of chs key = Some c \<Longrightarrow> r_published (c_receiver c) = []"
  by (fastforce simp: fresh_def receiver_create_def)

text \<open>One datagram that is settled within the endpoint, and no other after it.\<close>

lemma receive_settled:
  assumes r: "receive_from_socket env now net t = Some (RR_Retry, t', net')" and t': "ts_socket (t_socket t') = Some fd" "net_in net' fd = []" "unpublished t'"
  shows "\<exists>chs. receive_loop env now net t buf = Some (trr_default, t'\<lparr>t_channels := chs\<rparr>, net', buf) \<and> map_of chs = map_of (t_channels t')"
proof -
  have "receive_round env now net t buf = Some (Inr True, t', net', buf)" using r by (simp add: receive_round_def)
  moreover have "receive_rounds 99 env now net' t' buf = Some (None, t', net', buf)"
    using receive_rounds.simps(2) [of 98 env now net' t' buf] receive_idle(1) [OF t', of env now buf] by simp
  ultimately have "receive_rounds 100 env now net t buf = Some (None, t', net', buf)" by (simp add: receive_rounds_100)
  then show ?thesis
    using receive_published_keys_none [OF t'(3), of "e_channel_order env (map fst (t_channels t'))" buf]
    by (auto simp: receive_loop_def receive_published_all_channels_def)
qed

text \<open>The two endpoints of the link tests.\<close>

definition link_server :: "u32 \<Rightarrow> tachyon \<Rightarrow> bool" where
  "link_server s t \<longleftrightarrow> t_inv t \<and> ts_is_server (t_socket t) \<and> ts_socket (t_socket t) = Some 0 \<and> tcf_use_identity (t_config t) = 1
     \<and> tcf_drop_packet_chance (t_config t) = 0 \<and> 12 \<le> length (t_socket_receive_buffer t) \<and> map_of (t_identities t) 1 = Some s \<and> unpublished t"

definition link_client :: "u32 \<Rightarrow> tachyon \<Rightarrow> bool" where
  "link_client l t \<longleftrightarrow> \<not> ts_is_server (t_socket t) \<and> ts_socket (t_socket t) = Some 1 \<and> tcf_use_identity (t_config t) = 1
     \<and> tcf_drop_packet_chance (t_config t) = 0 \<and> 12 \<le> length (t_socket_receive_buffer t) \<and> t_identity t = \<lparr>id_id = 1, id_session_id = 11, id_linked = l\<rparr>
     \<and> unpublished t"

lemma length_identity_packet [simp]: "length (identity_packet ty i s) = 12"
  by (simp add: identity_packet_def ch_bytes_def)

lemma fire_sel:
  "t_config (fire_identity_event t e a i s) = t_config t" "t_identity (fire_identity_event t e a i s) = t_identity t"
  "t_socket_receive_buffer (fire_identity_event t e a i s) = t_socket_receive_buffer t"
  by (simp_all add: fire_identity_event_def Let_def)

lemma remove_by_identity_sel:
  "t_config (remove_connection_by_identity t i) = t_config t" "t_socket_receive_buffer (remove_connection_by_identity t i) = t_socket_receive_buffer t"
proof -
  have "t_config (fold (\<lambda>a t. remove_connection t a) as t) = t_config t"
    "t_socket_receive_buffer (fold (\<lambda>a t. remove_connection t a) as t) = t_socket_receive_buffer t" for as
    by (induction as arbitrary: t) (simp_all add: remove_connection_def remove_configured_channels_def fire_connection_event_def Let_def)
  then show "t_config (remove_connection_by_identity t i) = t_config t" "t_socket_receive_buffer (remove_connection_by_identity t i) = t_socket_receive_buffer t"
    by (simp_all add: remove_connection_by_identity_def)
qed

lemma client_settles:
  assumes c: "link_client l t" and ty: "ty = 8 \<and> l' = 1 \<or> ty = 9 \<and> l' = 0" and q: "net_in net 1 = [Some (src, identity_packet ty 0 0)]"
  shows "\<exists>t'. receive_loop env now net t buf = Some (trr_default, t', taken_from net 1 [], buf) \<and> link_client l' t'"
proof -
  have r: "receiving t net 1 src (identity_packet ty 0 0) []" using c q by (simp add: receiving_def link_client_def)
  obtain h where h: "header_read (overwrite (t_socket_receive_buffer t) 0 (identity_packet ty 0 0)) = Some h" "h_message_type h = ty"
    using identity_filled(1) [OF r] by blast
  let ?t = "\<lambda>ev. fire_identity_event ((filled t (identity_packet ty 0 0))\<lparr>t_identity := identity_set_linked (t_identity t) l'\<rparr>) ev na_default 0 0"
  obtain ev where "receive_from_socket env now net t = Some (RR_Retry, ?t ev, taken_from net 1 [])"
    using receiving_ts [OF r] h c ty by (auto simp: receive_from_socket_def receive_gate_def link_client_def)
  then obtain chs where "receive_loop env now net t buf = Some (trr_default, (?t ev)\<lparr>t_channels := chs\<rparr>, taken_from net 1 [], buf)" "map_of chs = map_of (t_channels (?t ev))"
    using receive_settled [of env now net t "?t ev" "taken_from net 1 []" 1 buf] c by (auto simp: link_client_def fire_sel)
  moreover have "link_client l' ((?t ev)\<lparr>t_channels := chs\<rparr>)"
    using c calculation(2) by (simp add: link_client_def fire_sel identity_set_linked_def)
  ultimately show ?thesis by blast
qed

text \<open>What the server has done once it has decided on a request.\<close>

lemma server_settles:
  assumes s: "link_server s t" and q: "net_in net 0 = [Some (client_addr, identity_packet ty 1 11)]"
    and step: "ty = 6 \<and> try_link_identity (e_os env) now (taken_from net 0 []) (filled t (identity_packet ty 1 11)) the_client 1 11 = Some (ok, t1, net1)
      \<or> ty = 7 \<and> try_unlink_identity (e_os env) (taken_from net 0 []) (filled t (identity_packet ty 1 11)) the_client 1 11 = Some (ok, t1, net1)"
    and t1: "t_config t1 = t_config t" "t_identities t1 = t_identities t" "t_socket t1 = t_socket t"
      "length (t_socket_receive_buffer t1) = length (t_socket_receive_buffer t)" "unpublished t1" "net_in net1 0 = []"
  shows "\<exists>t'. receive_loop env now net t buf = Some (trr_default, t', net1, buf) \<and> link_server s t'"
proof -
  have r: "receiving t net 0 client_addr (identity_packet ty 1 11) []" using s q by (simp add: receiving_def link_server_def)
  obtain h where h: "header_read (overwrite (t_socket_receive_buffer t) 0 (identity_packet ty 1 11)) = Some h" "h_message_type h = ty"
    using identity_filled(1) [OF r] by blast
  define t2 where "t2 = (if ok then fire_identity_event t1 (if ty = 6 then LINK_IDENTITY_EVENT else UNLINK_IDENTITY_EVENT) the_client 1 11 else t1)"
  have t2: "t_config t2 = t_config t1" "t_identities t2 = t_identities t1" "t_socket t2 = t_socket t1" "t_socket_receive_buffer t2 = t_socket_receive_buffer t1"
    "t_channels t2 = t_channels t1"
    by (simp_all add: t2_def fire_sel)
  have "receive_from_socket env now net t = Some (RR_Retry, t2, net1)"
    using receiving_ts [OF r] h identity_filled(2) [OF r] s step by (auto simp: receive_from_socket_def receive_gate_def link_server_def t2_def)
  then obtain chs where l: "receive_loop env now net t buf = Some (trr_default, t2\<lparr>t_channels := chs\<rparr>, net1, buf)" "map_of chs = map_of (t_channels t1)"
    using receive_settled [of env now net t t2 net1 0 buf] s t1 by (auto simp: link_server_def t2)
  moreover have "t_inv (t2\<lparr>t_channels := chs\<rparr>)" using receive_loop_inv [OF _ l(1)] s by (simp add: link_server_def)
  moreover from this have "link_server s (t2\<lparr>t_channels := chs\<rparr>)" using s t1 l(2) by (simp add: link_server_def t2)
  ultimately show ?thesis by blast
qed

lemma the_client_dest: "dest_of the_client = To client_addr"
  by (simp add: dest_of_def client_addr_def to_socket_addr_def)

lemma server_refuses:
  assumes "link_server 10 t" "net_in net 0 = [Some (client_addr, identity_packet 6 1 11)]"
  shows "\<exists>t'. receive_loop env now net t buf = Some (trr_default, t', taken_from net 0 [], buf)"
  using server_settles [OF assms, of env now False "filled t (identity_packet 6 1 11)" "taken_from net 0 []" buf] assms(1)
  by (auto simp: link_server_def try_link_identity_def)

lemma server_accepts:
  assumes s: "link_server 11 t" and q: "net_in net 0 = [Some (client_addr, identity_packet 6 1 11)]"
    and new: "id_id (get_connection_identity t the_client) \<noteq> 1" and os: "e_os env = os_ideal"
  shows "\<exists>t'. receive_loop env now net t buf = Some (trr_default, t', (taken_from net 0 [])\<lparr>net_out := net_out net @ [(0, To client_addr, identity_packet 8 0 0)]\<rparr>, buf)
    \<and> link_server 11 t'"
proof -
  let ?t = "filled t (identity_packet 6 1 11)" and ?net = "taken_from net 0 []"
  let ?t1 = "(create_connection now (remove_connection_by_identity ?t 1) the_client \<lparr>id_id = 1, id_session_id = 11, id_linked = 0\<rparr>)
     \<lparr>t_identity_to_address_map := AList.update 1 the_client (t_identity_to_address_map ?t)\<rparr>"
  have t: "t_wf ?t" "map_of (t_identities ?t) 1 = Some 11" "id_id (get_connection_identity ?t the_client) \<noteq> 1" "ts_socket (t_socket ?t) = Some 0"
    using s new by (simp_all add: link_server_def get_connection_identity_def)
  note r = remove_connection_by_identity_ok [OF t(1), of 1]
  have l: "try_link_identity (e_os env) now ?net ?t the_client 1 11 = Some (True, ?t1, ?net\<lparr>net_out := net_out net @ [(0, To client_addr, identity_packet 8 0 0)]\<rparr>)"
    using try_link_step(1) [where a = the_client and os = "e_os env" and now = now and net = ?net, OF t(1,2) refl] t(3,4)
    by (simp add: the_client_dest sent_def udp_send_def os os_ideal_def)
  have "unpublished ?t1"
    using s r(3) by (auto simp: create_connection_maps(2) link_server_def channel_create_def receiver_create_def split: option.splits if_splits)
  then show ?thesis
    using server_settles [OF s q, of env now True ?t1 "?net\<lparr>net_out := net_out net @ [(0, To client_addr, identity_packet 8 0 0)]\<rparr>" buf] l r(5,6) s
    by (auto simp: remove_by_identity_sel link_server_def)
qed

lemma server_unlinks:
  assumes s: "link_server 11 t" and q: "net_in net 0 = [Some (client_addr, identity_packet 7 1 11)]" and os: "e_os env = os_ideal"
  shows "\<exists>t'. receive_loop env now net t buf = Some (trr_default, t', (taken_from net 0 [])\<lparr>net_out := net_out net @ [(0, To client_addr, identity_packet 9 0 0)]\<rparr>, buf)"
proof -
  let ?t = "filled t (identity_packet 7 1 11)" and ?net = "taken_from net 0 []"
  let ?t1 = "(remove_connection_by_identity ?t 1)\<lparr>t_identity_to_address_map := AList.delete 1 (t_identity_to_address_map ?t)\<rparr>"
  have t: "t_wf ?t" "map_of (t_identities ?t) 1 = Some 11" "ts_socket (t_socket ?t) = Some 0" using s by (simp_all add: link_server_def)
  note r = remove_connection_by_identity_ok [OF t(1), of 1]
  have l: "try_unlink_identity (e_os env) ?net ?t the_client 1 11 = Some (True, ?t1, ?net\<lparr>net_out := net_out net @ [(0, To client_addr, identity_packet 9 0 0)]\<rparr>)"
    using t by (simp add: try_unlink_eq the_client_dest sent_def udp_send_def os os_ideal_def)
  have "unpublished ?t1" using s r(3) by (auto simp: link_server_def split: option.splits if_splits)
  then show ?thesis
    using server_settles [OF s q, of env now True ?t1 "?net\<lparr>net_out := net_out net @ [(0, To client_addr, identity_packet 9 0 0)]\<rparr>" buf] l r(5,6) s
    by (auto simp: remove_by_identity_sel link_server_def)
qed

lemma client_requests:
  fixes now :: nat
  assumes t: "\<not> ts_is_server (t_socket t)" "ts_socket (t_socket t) = Some 1" "tcf_use_identity (t_config t) = 1" "tcf_drop_packet_chance (t_config t) = 0"
      "12 \<le> length (t_socket_receive_buffer t)" "t_identity t = \<lparr>id_id = 1, id_session_id = 11, id_linked = 0\<rparr>"
      "t_last_identity_link_request t = int now - 100 * 10 ^ 9" "\<forall>key c. map_of (t_channels t) key = Some c \<longrightarrow> fresh c \<and> c_nacked_sequence_map c = []"
    and os: "e_os env = os_ideal" and env: "fair_env env"
  shows "\<exists>t'. tachyon_update env now net t = Some (t', net\<lparr>net_out := net_out net @ [(1, Connected, identity_packet 6 1 11)]\<rparr>) \<and> link_client 0 t'"
proof -
  let ?net = "net\<lparr>net_out := net_out net @ [(1, Connected, identity_packet 6 1 11)]\<rparr>" and ?t = "t\<lparr>t_last_identity_link_request := int now\<rparr>"
  have i: "client_identity_update (e_os env) now net t = Some (?t, ?net)"
    using t by (simp add: client_identity_update_def identity_is_valid_def identity_is_linked_def identity_sends sent_def udp_send_def os os_ideal_def)
  obtain chs where u: "update_channels env (t_socket t) (e_channel_order env (map fst (t_channels t))) (t_channels t) ?net = Some (chs, ?net)"
    "\<forall>key c. map_of chs key = Some c \<longrightarrow> fresh c"
    using update_channels_idle [OF t(8,2) env, of "e_channel_order env (map fst (t_channels t))" ?net] by blast
  have "tachyon_update env now net t = Some (?t\<lparr>t_channels := chs\<rparr>, ?net)" using i u(1) by (simp add: tachyon_update_def)
  moreover have "unpublished (?t\<lparr>t_channels := chs\<rparr>)" using fresh_unpublished [OF u(2)] by simp
  then have "link_client 0 (?t\<lparr>t_channels := chs\<rparr>)" using t by (simp add: link_client_def)
  ultimately show ?thesis by blast
qed

lemma connection_sel:
  "t_identity (create_connection now t a idn) = t_identity t" "t_last_identity_link_request (create_connection now t a idn) = t_last_identity_link_request t"
  by (simp_all add: create_connection_def create_configured_channels_def fire_connection_event_def Let_def)

lemma loopback_one:
  "loopback 1 0 (net\<lparr>net_out := [(1, Connected, d)]\<rparr>) = net\<lparr>net_out := [], net_in := (net_in net)(0 := net_in net 0 @ [Some (client_addr, d)])\<rparr>"
  "loopback 1 0 (net\<lparr>net_out := [(0, To client_addr, d)]\<rparr>) = net\<lparr>net_out := [], net_in := (net_in net)(1 := net_in net 1 @ [Some (server_addr, d)])\<rparr>"
  by (simp_all add: loopback_def)

lemma link_connected:
  assumes os: "e_os env = os_ideal" and env: "fair_env env"
  shows "\<exists>sv cl cl'. tt_connect env now net_empty (link_test now) = Some ((tt_default now)\<lparr>tt_server := sv, tt_client := cl\<rparr>, networked)
    \<and> link_server 10 sv \<and> link_server 11 (set_identity sv 1 11) \<and> id_id (get_connection_identity (set_identity sv 1 11) the_client) \<noteq> 1
    \<and> tachyon_update env now networked cl = Some (cl', networked\<lparr>net_out := [(1, Connected, identity_packet 6 1 11)]\<rparr>) \<and> link_client 0 cl'"
proof -
  let ?cf = "tcf_default\<lparr>tcf_use_identity := 1\<rparr>"
  let ?s0 = "(tachyon_create now tcf_default)\<lparr>t_config := ?cf, t_identities := [(1, 10)]\<rparr>"
  let ?sv = "?s0\<lparr>t_socket := ts_create\<lparr>ts_address := na_test_address, ts_socket := Some 0, ts_is_server := True\<rparr>, t_unreliable_sender := Some (usnd_create (Some 0))\<rparr>"
  let ?c0 = "(tachyon_create now tcf_default)\<lparr>t_config := ?cf, t_identity := \<lparr>id_id = 1, id_session_id = 11, id_linked = 0\<rparr>, t_socket := ts_create\<lparr>ts_socket := Some 1\<rparr>\<rparr>"
  let ?cl = "(create_connection now ?c0 na_default identity_default)\<lparr>t_unreliable_sender := Some (usnd_create (Some 1))\<rparr>"
  have set: "set_identity t 1 s = t\<lparr>t_identities := [(1, s)]\<rparr>" if "t_connections t = []" "t_identities t = [] \<or> t_identities t = [(1, s')]" "s \<noteq> 0" for t s s'
    using that by (auto simp: set_identity_def remove_connection_by_identity_def)
  have ids: "t_identities (tachyon_create now cf) = []" "t_last_identity_link_request (tachyon_create now cf) = int now - 100 * 10 ^ 9" for cf
    by (simp_all add: tachyon_create_def create_with_id_def)
  have "link_test now = (tt_default now)\<lparr>tt_client := (tachyon_create now tcf_default)\<lparr>t_config := ?cf, t_identity := \<lparr>id_id = 1, id_session_id = 11, id_linked = 0\<rparr>\<rparr>, tt_server := ?s0\<rparr>"
    by (simp add: link_test_def tt_default_def tt_create_def set ids created Let_def)
  then have "tt_connect env now net_empty (link_test now) = Some ((tt_default now)\<lparr>tt_server := ?sv, tt_client := ?cl\<rparr>, networked)"
    using tt_connect_ideal [OF os, of now "link_test now"] by (simp add: tt_default_def tt_create_def created ts_create_def)
  moreover have sv: "link_server 10 ?sv" "link_server 11 (?sv\<lparr>t_identities := [(1, 11)]\<rparr>)"
    by (simp_all add: link_server_def t_wf_def links_ok_def created tcf_default_def)
  moreover have "set_identity ?sv 1 11 = ?sv\<lparr>t_identities := [(1, 11)]\<rparr>" by (rule set [where s' = 10]) (simp_all add: created)
  moreover have "id_id (get_connection_identity (?sv\<lparr>t_identities := [(1, 11)]\<rparr>) the_client) \<noteq> 1"
    by (simp add: get_connection_identity_def created identity_default_def)
  moreover have "\<exists>cl'. tachyon_update env now networked ?cl = Some (cl', networked\<lparr>net_out := net_out networked @ [(1, Connected, identity_packet 6 1 11)]\<rparr>) \<and> link_client 0 cl'"
    using connection_fresh [of ?c0 now na_default identity_default]
    by (intro client_requests [OF _ _ _ _ _ _ _ _ os env]) (auto simp: created tcf_default_def ts_create_def ids connection_sel)
  ultimately show ?thesis by (fastforce simp: net_empty_sel)
qed

lemma test_link_fail_flow_passes:
  assumes os: "e_os env = os_ideal" and env: "fair_env env"
  shows "test_link_fail_flow env (loopback 1 0) now net_empty = Some ()"
proof -
  let ?p = "identity_packet 6 1 11"
  obtain sv cl cl' where c: "tt_connect env now net_empty (link_test now) = Some ((tt_default now)\<lparr>tt_server := sv, tt_client := cl\<rparr>, networked)" "link_server 10 sv"
    "tachyon_update env now networked cl = Some (cl', networked\<lparr>net_out := [(1, Connected, ?p)]\<rparr>)" "link_client 0 cl'"
    using link_connected [OF os env] by blast
  let ?net = "networked\<lparr>net_out := [], net_in := (net_in networked)(0 := [Some (client_addr, ?p)])\<rparr>"
  have l: "loopback 1 0 (networked\<lparr>net_out := [(1, Connected, ?p)]\<rparr>) = ?net" using loopback_one(1) [where net = networked and d = ?p] by (simp add: net_empty_sel)
  obtain sv' where s: "receive_loop env now ?net sv (replicate 4096 0) = Some (trr_default, sv', taken_from ?net 0 [], replicate 4096 0)"
    using server_refuses [OF c(2), of ?net env now "replicate 4096 0"] by auto
  have l2: "loopback 1 0 (taken_from ?net 0 []) = taken_from ?net 0 []" by (simp add: loopback_def)
  have "\<exists>chs. receive_loop env now (taken_from ?net 0 []) cl' (replicate 4096 0) = Some (trr_default, cl'\<lparr>t_channels := chs\<rparr>, taken_from ?net 0 [], replicate 4096 0)"
    using receive_idle(2) [of cl' 1 "taken_from ?net 0 []" env now "replicate 4096 0"] c(4) by (auto simp: link_client_def net_empty_sel)
  then show ?thesis using c l l2 s unfolding test_link_fail_flow_def
    by (auto simp: server_receive_def client_receive_def link_client_def identity_is_linked_def identity_is_valid_def)
qed

lemma test_link_flow_passes:
  assumes os: "e_os env = os_ideal" and env: "fair_env env"
  shows "test_link_flow env (loopback 1 0) now net_empty = Some ()"
proof -
  let ?p = "identity_packet 6 1 11" and ?q = "identity_packet 7 1 11" and ?b = "replicate 4096 (0 :: u8)"
  let ?to = "\<lambda>d. networked\<lparr>net_out := [], net_in := (net_in networked)(0 := [Some (client_addr, d)])\<rparr>"
  let ?from = "\<lambda>d. networked\<lparr>net_out := [], net_in := (net_in networked)(1 := [Some (server_addr, d)])\<rparr>"
  let ?reply = "\<lambda>d. networked\<lparr>net_out := [(0, To client_addr, d)]\<rparr>"
  obtain sv cl cl1 where c: "tt_connect env now net_empty (link_test now) = Some ((tt_default now)\<lparr>tt_server := sv, tt_client := cl\<rparr>, networked)"
    "link_server 11 (set_identity sv 1 11)" "id_id (get_connection_identity (set_identity sv 1 11) the_client) \<noteq> 1"
    "tachyon_update env now networked cl = Some (cl1, networked\<lparr>net_out := [(1, Connected, ?p)]\<rparr>)" "link_client 0 cl1"
    using link_connected [OF os env] by blast
  have l: "loopback 1 0 (networked\<lparr>net_out := [(1, Connected, d)]\<rparr>) = ?to d" "loopback 1 0 (?reply d) = ?from d" for d
    using loopback_one [where net = networked and d = d] by (simp_all add: net_empty_sel)
  have nets: "taken_from (?from d) 1 [] = networked" "(taken_from (?to d) 0 [])\<lparr>net_out := [(0, To client_addr, d')]\<rparr> = ?reply d'"
    "networked\<lparr>net_in := (net_in net_empty)(0 := []), net_out := x\<rparr> = networked\<lparr>net_out := x\<rparr>" for d d' x
    by (simp_all add: net_empty_def fun_eq_iff)
  obtain sv1 where s1: "receive_loop env now (?to ?p) (set_identity sv 1 11) ?b = Some (trr_default, sv1, ?reply (identity_packet 8 0 0), ?b)" "link_server 11 sv1"
    using server_accepts [OF c(2) _ c(3) os, of "?to ?p" now ?b] unfolding nets by (auto simp: nets)
  obtain cl2 where c2: "receive_loop env now (?from (identity_packet 8 0 0)) cl1 ?b = Some (trr_default, cl2, networked, ?b)" "link_client 1 cl2"
    using client_settles [OF c(5), of 8 1 "?from (identity_packet 8 0 0)" server_addr env now ?b] unfolding nets by (auto simp: nets)
  have u: "send_unlink_identity (e_os env) networked cl2 1 11 = Some (networked\<lparr>net_out := [(1, Connected, ?q)]\<rparr>)"
    using c2(2) by (simp add: link_client_def identity_sends sent_def udp_send_def os os_ideal_def net_empty_sel)
  obtain sv2 where s2: "receive_loop env now (?to ?q) sv1 ?b = Some (trr_default, sv2, ?reply (identity_packet 9 0 0), ?b)"
    using server_unlinks [OF s1(2) _ os, of "?to ?q" now ?b] unfolding nets by (auto simp: nets)
  obtain cl3 where c3: "receive_loop env now (?from (identity_packet 9 0 0)) cl2 ?b = Some (trr_default, cl3, networked, ?b)" "link_client 0 cl3"
    using client_settles [OF c2(2), of 9 0 "?from (identity_packet 9 0 0)" server_addr env now ?b] unfolding nets by (auto simp: nets)
  show ?thesis using c l s1 c2 u s2 c3 unfolding test_link_flow_def
    by (simp add: server_receive_def client_receive_def link_client_def identity_is_linked_def identity_is_valid_def)
qed

end
