(* ===== verification/Printing.thy ===== *)
theory Printing
  imports Tachyon_State
begin

text \<open>
  The printed forms: the \<open>Display\<close> implementations of \<open>NetworkAddress\<close>
  (\<^verbatim>\<open>src/src/tachyon/network_address.rs\<close>), \<open>ChannelStats\<close> (\<^verbatim>\<open>src/src/tachyon/channel.rs\<close>)
  and \<open>TachyonStats\<close> (\<^verbatim>\<open>src/src/tachyon.rs\<close>).
\<close>

text \<open>What \<open>{}\<close> prints for an unsigned integer.\<close>

definition digit :: "nat \<Rightarrow> char" where
  "digit d = char_of (48 + d)"

fun decimal :: "nat \<Rightarrow> string" where
  "decimal n = (if n < 10 then [digit n] else decimal (n div 10) @ [digit (n mod 10)])"

declare decimal.simps [simp del]

abbreviation newline :: string where "newline \<equiv> [CHR 0x0A]"

definition na_display :: "network_address \<Rightarrow> string" where
  "na_display self = decimal (unat (na_a self)) @ ''.'' @ decimal (unat (na_b self)) @ ''.'' @ decimal (unat (na_c self))
     @ ''.'' @ decimal (unat (na_d self)) @ '':'' @ decimal (unat (na_port self)) @ newline"

definition cs_display :: "channel_stats \<Rightarrow> string" where
  "cs_display self =
     ''sent:'' @ decimal (unat (cs_sent self)) @ '' received:'' @ decimal (unat (cs_received self))
     @ '',kb_sent:'' @ decimal (unat (cs_bytes_sent self div 1024)) @ '' kb_received:'' @ decimal (unat (cs_bytes_received self div 1024)) @ newline
     @ ''fragments_sent:'' @ decimal (unat (cs_fragments_sent self)) @ '' fragments_received:'' @ decimal (unat (cs_fragments_received self))
     @ '' fragments_assembled:'' @ decimal (unat (cs_fragments_assembled self)) @ '','' @ newline
     @ ''published: '' @ decimal (unat (cs_published self)) @ '' published_consumed:'' @ decimal (unat (cs_published_consumed self))
     @ '' nacks_sent:'' @ decimal (unat (cs_nacks_sent self)) @ '' nacks_received:'' @ decimal (unat (cs_nacks_received self))
     @ '' resent:'' @ decimal (unat (cs_resent self)) @ newline
     @ ''nones_sent:'' @ decimal (unat (cs_nones_sent self)) @ '' nones_received:'' @ decimal (unat (cs_nones_received self))
     @ '' nones_accepted:'' @ decimal (unat (cs_nones_accepted self)) @ '' skipped_sequences:'' @ decimal (unat (cs_skipped_sequences self))
     @ newline @ newline"

definition tst_display :: "tachyon_stats \<Rightarrow> string" where
  "tst_display self =
     ''channel_stats:'' @ cs_display (tst_channel_stats self) @ '' packets_dropped:'' @ decimal (unat (tst_packets_dropped self))
     @ '' unreliable_sent:'' @ decimal (unat (tst_unreliable_sent self))
     @ '' unreliable_received:'' @ decimal (unat (tst_unreliable_received self)) @ newline"

subsection \<open>Numbers and addresses can be read back\<close>

definition digits :: "char set" where
  "digits = {c. (48 :: nat) \<le> of_char c \<and> of_char c \<le> (57 :: nat)}"

lemma of_char_digit [simp]: "d < 10 \<Longrightarrow> of_char (digit d) = 48 + d"
  by (simp add: digit_def)

lemma decimal_digits: "set (decimal n) \<subseteq> digits"
  by (induction n rule: decimal.induct) (subst decimal.simps, auto simp: digits_def)

definition number :: "string \<Rightarrow> nat" where
  "number s = fold (\<lambda>c n. 10 * n + (of_char c - 48)) s 0"

lemma number_decimal [simp]: "number (decimal n) = n"
proof (induction n rule: decimal.induct)
  case (1 n)
  then show ?case by (subst decimal.simps) (simp add: number_def)
qed

lemma decimal_inj [simp]: "decimal m = decimal n \<longleftrightarrow> m = n"
  using number_decimal by metis

lemma takeWhile_decimal: "c \<notin> digits \<Longrightarrow> takeWhile (\<lambda>x. x \<in> digits) (decimal n @ c # xs) = decimal n"
  using decimal_digits [of n] by (subst takeWhile_append2) auto

lemma decimal_prefix:
  assumes "c \<notin> digits"
  shows "decimal m @ c # xs = decimal n @ c # ys \<longleftrightarrow> m = n \<and> xs = ys"
proof
  assume eq: "decimal m @ c # xs = decimal n @ c # ys"
  have "decimal m = decimal n"
    using takeWhile_decimal [OF assms, of m xs] takeWhile_decimal [OF assms, of n ys] unfolding eq by (rule trans [OF sym])
  then have "m = n" by (simp only: decimal_inj)
  with eq show "m = n \<and> xs = ys" by simp
qed simp

text \<open>Two addresses that print alike are the same.\<close>

lemma na_display_inj: "na_display x = na_display y \<longleftrightarrow> x = y"
proof -
  have sep: "CHR ''.'' \<notin> digits" "CHR '':'' \<notin> digits" "CHR 0x0A \<notin> digits" by (auto simp: digits_def)
  show ?thesis
    by (cases x; cases y) (simp add: na_display_def decimal_prefix sep word_unat_eq_iff)
qed

lemma na_display_localhost: "na_display (na_localhost 8265) = ''127.0.0.1:8265'' @ newline"
  by (simp add: na_display_def na_localhost_def decimal.simps digit_def) code_simp

end
