(* ===== verification/Spec2Isabelle.thy ===== *)
theory Spec2Isabelle
  imports Receiver_Traces Large_Messages Pool_Blocking Unit_Tests Link_Tests Printing
begin

text \<open>
  Tachyon is a UDP networking library: reliable, ordered or unordered, and unreliable messages,
  fragmentation of large messages, an identity handshake, and pools of servers that receive on
  worker threads; a host program uses it through exported C functions.

  The parts and how they interact. A host calls the functions of \<^verbatim>\<open>ffi.rs\<close> and \<^verbatim>\<open>pool_ffi.rs\<close>. They
  work on an endpoint (\<open>Tachyon\<close>, \<^verbatim>\<open>tachyon.rs\<close> and \<^verbatim>\<open>connection_impl.rs\<close>) or on a \<open>Pool\<close> of endpoints
  (\<^verbatim>\<open>pool.rs\<close>). An endpoint reads datagrams from its socket (\<^verbatim>\<open>tachyon_socket.rs\<close>), admits them by
  connection or identity, and hands them to the \<open>Channel\<close> (\<^verbatim>\<open>channel.rs\<close>) of the sender's address
  and the number in the header (\<^verbatim>\<open>header.rs\<close>). A channel owns a \<open>Receiver\<close> (\<^verbatim>\<open>receiver.rs\<close>: window,
  order, duplicates, nacks), a \<open>SendBufferManager\<close> (\<^verbatim>\<open>send_buffer_manager.rs\<close>: what was sent, for
  resending) and a \<open>Fragmentation\<close> (\<^verbatim>\<open>fragmentation.rs\<close>). Both tables are \<open>SequenceBuffer\<close>s over
  wrapping 16-bit numbers, their contents are pooled \<open>ByteBuffer\<close>s.

  The theories, in the order of their imports, with the files under \<^verbatim>\<open>src/src/tachyon/\<close> they model:

  \<^item> \<open>Tachyon_Prelude\<close>: machine types, slices, copies, and the lemmas on them that all theories share.
  \<^item> \<open>Sequence_Numbers\<close> (\<^verbatim>\<open>sequence.rs\<close>): successors and comparisons of wrapping numbers. The order agrees
    with that of unbounded counters for messages at most 32766 apart.
  \<^item> \<open>Sequence_Buffer\<close> (\<^verbatim>\<open>sequence_buffer.rs\<close>): the table of 1024 slots; 1023 consecutive numbers have
    distinct slots, so a window of 1022 behaves as a map.
  \<^item> \<open>Int_Buffer\<close> (\<^verbatim>\<open>int_buffer.rs\<close>, \<^verbatim>\<open>network_address.rs\<close>): integers, length-prefixed records and
    addresses in bytes; round trips. \<open>Header\<close> (\<^verbatim>\<open>header.rs\<close>): the packet headers; round trips.
  \<^item> \<open>Byte_Buffer_Pool\<close> (\<^verbatim>\<open>byte_buffer_pool.rs\<close>): pooled buffers; the contract of a pool is a locale that
    the pool of the code interprets. \<open>Send_Buffer_Manager\<close> (\<^verbatim>\<open>send_buffer_manager.rs\<close>): a message stays
    retrievable for the next 1022 messages, across the wrap-around.
  \<^item> \<open>Nack\<close> (\<^verbatim>\<open>nack.rs\<close>): nack flags and their encodings.
  \<^item> \<open>Receive_Window\<close>: the abstract specification of a receive window over unbounded numbers;
    \<open>Window_Delivery\<close>: what the specification delivers, with and without loss.
  \<^item> \<open>Receiver\<close> (\<^verbatim>\<open>receiver.rs\<close>): the code's receiver; \<open>Receiver_Refinement\<close>: each of its operations
    implements the specification; \<open>Receive_Session\<close>: inductive runs over arbitrary arrivals and
    their delivery guarantees; \<open>Receiver_Traces\<close>: refinement of whole scripts; \<open>Receiver_Nacks\<close>: which
    numbers \<open>create_nacks\<close> asks for, and which it misses.
  \<^item> \<open>Fragmentation\<close> (\<^verbatim>\<open>fragmentation.rs\<close>): cutting and assembling, in any order of arrival.
  \<^item> \<open>Tachyon_Socket\<close> (\<^verbatim>\<open>tachyon_socket.rs\<close>, \<^verbatim>\<open>unreliable_sender.rs\<close>): sockets over an explicit state of the
    network. \<open>Channel\<close> (\<^verbatim>\<open>channel.rs\<close>): sending, resending, nacks and publishing of one channel.
  \<^item> \<open>Tachyon_State\<close> (\<^verbatim>\<open>connection.rs\<close>, \<^verbatim>\<open>connection_impl.rs\<close>, the state of \<^verbatim>\<open>tachyon.rs\<close>): connections,
    identities, the link handshake, the invariant of the tables. \<open>Tachyon\<close> (\<^verbatim>\<open>tachyon.rs\<close>,
    \<^verbatim>\<open>receive_result.rs\<close>): the receive loop, sending, update. \<open>Tachyon_Endpoint\<close>: the invariant through every
    operation, as a step relation. \<open>Endpoint_Behaviour\<close>: what an endpoint does with a datagram, a
    handshake, a large message.
  \<^item> \<open>Pool\<close> (\<^verbatim>\<open>pool.rs\<close>, \<^verbatim>\<open>pool_unreliable_sender.rs\<close>): servers, routing maps, and the workers as machines that
    step on shared queues. \<open>Pool_Workers\<close>: all interleavings of the workers, conservation of servers,
    buffers and messages, termination. \<open>Pool_Out_Buffers\<close>: the round trip through the out buffers.
    \<open>Pool_Routing\<close>: which server a message is sent on. \<open>Pool_Blocking\<close>: conservation of messages for the
    workers of \<open>receive_blocking\<close> and \<open>receive_blocking_out_buffer\<close>.
  \<^item> \<open>Foreign_Interface\<close> (\<^verbatim>\<open>ffi.rs\<close>, \<^verbatim>\<open>pool_ffi.rs\<close>, \<^verbatim>\<open>memory_block.rs\<close>, the exports of
    \<^verbatim>\<open>pool_unreliable_sender.rs\<close>): the exported functions over boxes named by handles. \<open>Host_Runs\<close>:
    everything a host can do, with the workers beside it, and the invariant that it keeps.

  \<^item> \<open>Server_Streams\<close>: the invariant of a server to whose socket any number of streams come, through
    \<open>receive_loop\<close>; \<open>Server_Runs\<close>: the same through \<open>update\<close>, and what an application gets by many calls.
    \<open>Client_Sending\<close>: a client that sends, hears of losses and answers. \<open>End_To_End\<close>: a client and a
    server over a network that loses, repeats and reorders, and how a loss is repaired. \<open>Large_Messages\<close>:
    a message of 1200 bytes or more from the client's call to the server's, over its fragments.
  \<^item> \<open>Receiver_Tests\<close>, \<open>Unit_Tests\<close>, \<open>Endpoint_Tests\<close>, \<open>Network_Tests\<close>, \<open>Link_Tests\<close>: the unit tests of the
    repository as definitions over the model, each proved to pass; the last two send over a loopback
    network, on the harness of \<^verbatim>\<open>tachyon_test.rs\<close>. \<open>Printing\<close>: the \<open>Display\<close> formats; different addresses print differently.

  This theory holds the recovery of a lost message between two channels, which joins receiver,
  nacks, send buffers and channel.

  Conventions. A struct is a record, an operation is a function from the state to the new state.
  A panic is the value \<open>None\<close>; an error the code returns is a value. Integers are words of their
  width; \<open>usize\<close> is a natural number, with subtraction that panics below zero. A hash map is an
  association list with one entry per key; where the code iterates over one, the order is an
  argument. Outside the sources, and arguments of the model: the decisions of the operating system
  on sockets, the varuint codec, the draws of \<open>rand\<close>, the clock, the bounded queue of \<open>crossbeam\<close>
  (its laws are the locale \<open>bounded_queue\<close>, interpreted by a list with a capacity), and the scheduling of
  \<open>rayon\<close> (every interleaving). A callback is a flag, its calls are recorded as events.

  Bounds and fuel. Receivers are proved correct for windows of at most 1022 numbers, because 1023
  consecutive numbers are what the 1024 slots keep apart, and for packets at most 1022 ahead and
  30000 behind, inside the 32766 of the order. \<open>publish\<close> has the fuel of its loop bound, the window
  size; \<open>receive_published\<close> its 1000 rounds, \<open>receive_loop\<close> its 100, \<open>receive_server\<close> its 100000, the nack
  loops window/32 and 32: these are the bounds of the code's loops and not extra fuel. The steps of
  the workers of a pool are bounded by a measure.

  A large message is delivered by one call when its fragments arrive as at most 100 datagrams, the
  rounds of one \<open>receive_loop\<close>.

  Not modelled: the tests of \<^verbatim>\<open>pool.rs\<close> and the stress tests of \<^verbatim>\<open>tachyon_test.rs\<close>, which measure real
  sockets, threads and timers, and the freeing of sockets when an endpoint is dropped, which the
  operating system sees and the library does not. The addresses that the allocator reuses are not
  modelled: every box has a new handle.
\<close>




end
